(* ===== verification/Prelude.thy ===== *)
theory Prelude
  imports Main "HOL-Library.Word" "HOL-Library.AList"
begin

text \<open>
  Shared vocabulary of the development: bytes and Go strings, the \<open>error\<close> interface
  as a datatype, results \<open>(value, err)\<close> as sums, Go maps as association lists,
  64-bit wrap-around and decimal printing, with the generic lemmas on them.
\<close>

named_theorems byte_simps \<open>conversions between bytes, strings and integers\<close>
named_theorems gomap_simps \<open>reads, writes and sums of Go maps\<close>

section \<open>Bytes and strings\<close>

text \<open>
  A Go string is an immutable byte sequence, so \<open>string\<close> (a list of 8-bit characters)
  models it exactly. A byte slice may be nil, and for Kafka a nil key or value is a null
  while an empty slice is an empty payload: \<open>gobytes\<close> keeps the difference
  (\<open>None\<close> is the nil slice).
\<close>

type_synonym byte = "8 word"
type_synonym bytes = "byte list"
type_synonym gobytes = "bytes option"

definition string_bytes :: "string \<Rightarrow> bytes" where
  "string_bytes s = map (\<lambda>c. of_nat (of_char c)) s"

definition bytes_string :: "bytes \<Rightarrow> string" where
  "bytes_string bs = map (\<lambda>b. char_of (unat b)) bs"

definition slice_of :: "gobytes \<Rightarrow> bytes" where
  "slice_of b = (case b of None \<Rightarrow> [] | Some bs \<Rightarrow> bs)"

lemma slice_of_simps [simp]: "slice_of None = []" "slice_of (Some bs) = bs"
  by (simp_all add: slice_of_def)

lemma unat_of_char_byte [byte_simps]: "unat (of_nat (of_char c) :: byte) = of_char c"
proof -
  have "(of_char c :: nat) < 256" by simp
  then show ?thesis by (simp add: unat_of_nat)
qed

lemma char_of_unat_inverse [byte_simps]: "of_nat (of_char (char_of (unat (b :: byte)))) = b"
proof -
  have "unat b < 256" using unsigned_less [of b] by simp
  then show ?thesis by simp
qed

lemma bytes_string_inverse [simp]: "bytes_string (string_bytes s) = s"
  by (simp add: bytes_string_def string_bytes_def byte_simps map_idI)

lemma string_bytes_inverse [simp]: "string_bytes (bytes_string bs) = bs"
  by (induction bs) (simp_all add: bytes_string_def string_bytes_def char_of_unat_inverse del: of_char_of)

lemma length_string_bytes [simp]: "length (string_bytes s) = length s"
  by (simp add: string_bytes_def)

lemma length_bytes_string [simp]: "length (bytes_string s) = length s"
  by (simp add: bytes_string_def)

section \<open>Errors and results\<close>

text \<open>
  Every \<open>error\<close> value of the program is \<open>errors.New\<close> of a text, \<open>fmt.Errorf\<close> of a
  format with its operands, \<open>fmt.Errorf\<close> with a wrapped cause (\<open>%w\<close>), one of the two
  sentinels of package context, or an error made by a library. The format string itself is
  the constructor's first argument, so a branch of the model carries the source's text.
\<close>

datatype earg = AStr string | AInt int | ADur int

datatype go_error =
    ErrNew string
  | Errorf string "earg list"
  | Wrapf string "earg list" go_error
  | DeadlineExceeded
  | Canceled
  | ErrExt string

type_synonym 'a res = "go_error + 'a"

text \<open>\<open>errors.Is\<close>: the chain of wrapped causes holds the sentinel.\<close>

fun errors_Is :: "go_error \<Rightarrow> go_error \<Rightarrow> bool" where
  "errors_Is (Wrapf f as e) t = (Wrapf f as e = t \<or> errors_Is e t)"
| "errors_Is e t = (e = t)"

definition is_ok :: "'a res \<Rightarrow> bool" where
  "is_ok r = (case r of Inl _ \<Rightarrow> False | Inr _ \<Rightarrow> True)"

lemma is_ok_simps [simp]: "is_ok (Inr x)" "\<not> is_ok (Inl e)"
  by (simp_all add: is_ok_def)

lemma is_ok_iff: "is_ok r \<longleftrightarrow> (\<exists>x. r = Inr x)"
  by (cases r) auto

section \<open>Integers\<close>

text \<open>
  Go's \<open>int\<close> and \<open>int64\<close> are 64-bit two's complement; a value is an \<open>int\<close> and
  \<open>wrap64\<close> is the reduction an overflowing operation performs.
\<close>

definition maxInt16 :: int where "maxInt16 = 2 ^ 15 - 1"
definition maxInt32 :: int where "maxInt32 = 2 ^ 31 - 1"
definition minInt32 :: int where "minInt32 = - (2 ^ 31)"
definition maxInt64 :: int where "maxInt64 = 2 ^ 63 - 1"
definition minInt64 :: int where "minInt64 = - (2 ^ 63)"
definition maxUint32 :: int where "maxUint32 = 2 ^ 32 - 1"

lemmas int_limits = maxInt16_def maxInt32_def minInt32_def maxInt64_def minInt64_def maxUint32_def

definition in_int64 :: "int \<Rightarrow> bool" where
  "in_int64 n \<longleftrightarrow> minInt64 \<le> n \<and> n \<le> maxInt64"

definition wrap64 :: "int \<Rightarrow> int" where
  "wrap64 n = (n + 2 ^ 63) mod 2 ^ 64 - 2 ^ 63"

lemma wrap64_id: "in_int64 n \<Longrightarrow> wrap64 n = n"
  by (simp add: wrap64_def in_int64_def int_limits)

lemma wrap64_range: "in_int64 (wrap64 n)"
  by (simp add: wrap64_def in_int64_def int_limits)

section \<open>Decimal printing\<close>

fun dec_digits :: "nat \<Rightarrow> string" where
  "dec_digits n = (if n < 10 then [char_of (48 + n)] else dec_digits (n div 10) @ [char_of (48 + n mod 10)])"

declare dec_digits.simps [simp del]

text \<open>\<open>strconv.Itoa\<close> and the verb \<open>%d\<close>.\<close>

definition itoa :: "int \<Rightarrow> string" where
  "itoa n = (if n < 0 then CHR ''-'' # dec_digits (nat (- n)) else dec_digits (nat n))"

definition undec :: "string \<Rightarrow> nat" where
  "undec s = foldl (\<lambda>a c. 10 * a + (of_char c - 48)) 0 s"

lemma undec_snoc: "undec (s @ [c]) = 10 * undec s + (of_char c - 48)"
  by (simp add: undec_def)

lemma undec_digits [simp]: "undec (dec_digits n) = n"
proof (induction n rule: dec_digits.induct)
  case (1 n)
  show ?case
  proof (cases "n < 10")
    case True
    then show ?thesis by (subst dec_digits.simps) (simp add: undec_def)
  next
    case False
    with 1 show ?thesis by (subst dec_digits.simps) (simp add: undec_snoc)
  qed
qed

lemma dec_digits_chars: "c \<in> set (dec_digits n) \<Longrightarrow> 48 \<le> (of_char c :: nat) \<and> (of_char c :: nat) \<le> 57"
proof (induction n rule: dec_digits.induct)
  case (1 n)
  show ?case
  proof (cases "n < 10")
    case True
    then show ?thesis using 1(2) by (subst (asm) dec_digits.simps) simp
  next
    case False
    have "n mod 10 < 10" by simp
    then show ?thesis using False 1 by (subst (asm) (2) dec_digits.simps) auto
  qed
qed

lemma dec_digits_nonempty [simp]: "dec_digits n \<noteq> []"
  by (subst dec_digits.simps) simp

lemma dec_digits_inj: "dec_digits m = dec_digits n \<longleftrightarrow> m = n"
  by (metis undec_digits)

lemma minus_notin_dec_digits: "CHR ''-'' \<notin> set (dec_digits n)"
  using dec_digits_chars [of "CHR ''-''" n] by auto

lemma nul_notin_itoa: "CHR 0x00 \<notin> set (itoa n)"
proof -
  have "CHR 0x00 \<notin> set (dec_digits k)" for k
    using dec_digits_chars [of "CHR 0x00" k] by auto
  then show ?thesis by (simp add: itoa_def)
qed

lemma itoa_nonempty [simp]: "itoa n \<noteq> []"
  by (simp add: itoa_def)

lemma itoa_inj: "itoa m = itoa n \<longleftrightarrow> m = n"
  using minus_notin_dec_digits [of "nat m"] minus_notin_dec_digits [of "nat n"]
  by (auto simp: itoa_def dec_digits_inj split: if_splits) (metis list.set_intros(1))+

section \<open>Go maps\<close>

text \<open>
  A Go map is an association list with distinct keys: reading a missing key gives the zero
  value, \<open>m[k] += n\<close> is \<open>gm_add\<close>. The order of the list is the order in which a
  \<open>range\<close> loop visits the entries.
\<close>

type_synonym 'v gomap = "(string \<times> 'v) list"

definition gm_get :: "int gomap \<Rightarrow> string \<Rightarrow> int" where
  "gm_get m k = (case map_of m k of None \<Rightarrow> 0 | Some v \<Rightarrow> v)"

definition gm_add :: "string \<Rightarrow> int \<Rightarrow> int gomap \<Rightarrow> int gomap" where
  "gm_add k n m = AList.update k (gm_get m k + n) m"

definition gm_keys :: "'v gomap \<Rightarrow> string list" where
  "gm_keys m = map fst m"

definition gm_wf :: "'v gomap \<Rightarrow> bool" where
  "gm_wf m = distinct (map fst m)"

lemma gm_wf_empty [simp]: "gm_wf []"
  by (simp add: gm_wf_def)

lemma gm_get_empty [simp]: "gm_get [] k = 0"
  by (simp add: gm_get_def)

lemma gm_get_update [gomap_simps]:
  "gm_get (AList.update k v m) k' = (if k' = k then v else gm_get m k')"
  by (simp add: gm_get_def update_conv)

lemma gm_get_add [gomap_simps]: "gm_get (gm_add k n m) k' = gm_get m k' + (if k' = k then n else 0)"
  by (simp add: gm_add_def gomap_simps)

lemma gm_wf_update [simp]: "gm_wf m \<Longrightarrow> gm_wf (AList.update k v m)"
  by (simp add: gm_wf_def distinct_update)

lemma gm_wf_add [simp]: "gm_wf m \<Longrightarrow> gm_wf (gm_add k n m)"
  by (simp add: gm_add_def)

lemma fst_set_update: "fst ` set (AList.update k v m) = insert k (fst ` set m)"
  by (simp add: dom_map_of_conv_image_fst [symmetric] update_conv')

lemma gm_get_in: "gm_wf m \<Longrightarrow> (k, v) \<in> set m \<Longrightarrow> gm_get m k = v"
  by (simp add: gm_get_def gm_wf_def)

lemma gm_get_notin: "k \<notin> fst ` set m \<Longrightarrow> gm_get m k = 0"
  by (metis gm_get_def map_of_eq_None_iff option.case(1))

end
