(* ===== verification/WireFormat.thy ===== *)
theory WireFormat
  imports Prelude
begin

text \<open>
  The Confluent envelope of \<open>schema_registry.go\<close>: a zero magic byte, the schema ID as a
  big-endian 32-bit word, then the payload. Holds the \<open>Schema\<close> struct, the encoder and
  decoder of the header, the two helpers that add and strip it, their round trips, and the
  locale \<open>framing\<close> through which the serdes use them.
\<close>

unbundle bit_operations_syntax

section \<open>The Schema struct\<close>

record Schema =
  sID :: int
  sSubject :: string
  sVersion :: int
  sSchema :: string
  sSchemaType :: string

section \<open>Big-endian words\<close>

text \<open>\<open>binary.BigEndian.PutUint32\<close> and \<open>binary.BigEndian.Uint32\<close>.\<close>

definition putUint32 :: "32 word \<Rightarrow> bytes" where
  "putUint32 v = [ucast (drop_bit 24 v), ucast (drop_bit 16 v), ucast (drop_bit 8 v), ucast v]"

fun beUint32 :: "bytes \<Rightarrow> 32 word" where
  "beUint32 [b0, b1, b2, b3] =
     ucast b3 OR push_bit 8 (ucast b2) OR push_bit 16 (ucast b1) OR push_bit 24 (ucast b0)"
| "beUint32 _ = 0"

section \<open>Header\<close>

definition encodeWireFormat :: "int \<Rightarrow> bytes res" where
  "encodeWireFormat schemaID =
     (if schemaID < 0 \<or> schemaID > maxUint32
      then Inl (Errorf ''SchemaRegistry: schema ID %d out of range for wire format (0..%d)''
             [AInt schemaID, AInt maxUint32])
      else Inr (0x00 # putUint32 (word_of_int schemaID)))"

definition decodeWireFormat :: "gobytes \<Rightarrow> (int \<times> gobytes) res" where
  "decodeWireFormat d =
     (let bs = slice_of d in
      if length bs < 5
      then Inl (Errorf ''SchemaRegistry: wire format data too short (need 5 bytes, got %d)''
             [AInt (int (length bs))])
      else if bs ! 0 \<noteq> 0x00
      then Inl (Errorf ''SchemaRegistry: invalid magic byte: expected 0x00, got 0x%02x''
             [AInt (uint (bs ! 0))])
      else Inr (uint (beUint32 (take 4 (drop 1 bs))), Some (drop 5 bs)))"

section \<open>Adding and stripping the envelope\<close>

definition withWireFormat :: "Schema option \<Rightarrow> gobytes \<Rightarrow> gobytes res" where
  "withWireFormat schema payload =
     (case schema of
        None \<Rightarrow> Inr payload
      | Some s \<Rightarrow>
          if sID s = 0 then Inr payload
          else (case encodeWireFormat (sID s) of
                  Inl err \<Rightarrow> Inl err
                | Inr envelope \<Rightarrow> Inr (Some (envelope @ slice_of payload))))"

definition checkAndStripWireFormat :: "gobytes \<Rightarrow> Schema option \<Rightarrow> gobytes res" where
  "checkAndStripWireFormat data schema =
     (case schema of
        None \<Rightarrow> Inr data
      | Some s \<Rightarrow>
          if sID s = 0 \<or> length (slice_of data) < 5 \<or> slice_of data ! 0 \<noteq> 0x00 then Inr data
          else (case decodeWireFormat data of
                  Inl err \<Rightarrow> Inl err
                | Inr (schemaID, remaining) \<Rightarrow>
                    if schemaID \<noteq> sID s
                    then Inl (Errorf ''SchemaRegistry: schema ID mismatch: expected %d, got %d''
                           [AInt (sID s), AInt schemaID])
                    else Inr remaining))"

section \<open>Words and bytes\<close>

lemma beUint32_putUint32 [simp]: "beUint32 (putUint32 v) = v"
proof (rule bit_word_eqI)
  fix n
  assume "n < LENGTH(32)"
  then show "bit (beUint32 (putUint32 v)) n = bit v n"
    by (cases "n < 8"; cases "n < 16"; cases "n < 24")
       (auto simp: putUint32_def bit_or_iff bit_push_bit_iff bit_ucast_iff bit_drop_bit_eq)
qed

lemma putUint32_beUint32: "putUint32 (beUint32 [b0, b1, b2, b3]) = [b0, b1, b2, b3]"
  by (simp add: putUint32_def)
     (intro conjI; rule bit_word_eqI;
      auto simp: bit_or_iff bit_push_bit_iff bit_ucast_iff bit_drop_bit_eq dest: bit_imp_le_length)

lemma length_putUint32 [simp]: "length (putUint32 v) = 4"
  by (simp add: putUint32_def)


lemma word_of_int_uint32: "0 \<le> i \<Longrightarrow> i \<le> maxUint32 \<Longrightarrow> uint (word_of_int i :: 32 word) = i"
  by (simp add: maxUint32_def uint_word_of_int)

lemma uint_word32_range: "0 \<le> uint (w :: 32 word) \<and> uint w \<le> maxUint32"
  using uint_lt2p [of w] by (simp add: maxUint32_def)

section \<open>Round trips of the header\<close>

lemma encodeWireFormat_ok: "is_ok (encodeWireFormat i) \<longleftrightarrow> 0 \<le> i \<and> i \<le> maxUint32"
  by (auto simp: encodeWireFormat_def)

lemma encodeWireFormat_shape:
  assumes "encodeWireFormat i = Inr e"
  shows "e = 0 # putUint32 (word_of_int i)" and "length e = 5" and "0 \<le> i" and "i \<le> maxUint32"
  using assms by (auto simp: encodeWireFormat_def split: if_splits)

lemma decode_encode:
  assumes "encodeWireFormat i = Inr e"
  shows "decodeWireFormat (Some (e @ p)) = Inr (i, Some p)"
proof -
  note sh = encodeWireFormat_shape [OF assms]
  have "take 4 (drop 1 (e @ p)) = putUint32 (word_of_int i)" and "drop 5 (e @ p) = p" and "(e @ p) ! 0 = 0"
    using sh(1,2) by simp_all
  then show ?thesis
    using sh by (simp add: decodeWireFormat_def word_of_int_uint32)
qed

lemma five_bytes:
  assumes "5 \<le> length bs"
  obtains b0 b1 b2 b3 b4 rest where "bs = b0 # b1 # b2 # b3 # b4 # rest"
  using assms by (auto simp: numeral_eq_Suc Suc_le_length_iff)

lemma encode_decode:
  assumes "decodeWireFormat d = Inr (i, rest)"
  shows "\<exists>e. encodeWireFormat i = Inr e \<and> slice_of d = e @ slice_of rest"
proof -
  from assms have len: "5 \<le> length (slice_of d)"
    by (auto simp: decodeWireFormat_def Let_def not_less split: if_splits)
  then obtain b0 b1 b2 b3 b4 r where bs: "slice_of d = b0 # b1 # b2 # b3 # b4 # r"
    by (rule five_bytes)
  from assms bs have "b0 = 0" and i: "i = uint (beUint32 [b1, b2, b3, b4])" and r: "rest = Some r"
    by (auto simp: decodeWireFormat_def Let_def simp del: beUint32.simps split: if_splits)
  have "word_of_int i = beUint32 [b1, b2, b3, b4]" and "0 \<le> i \<and> i \<le> maxUint32"
    unfolding i by (simp, rule uint_word32_range)
  then have "encodeWireFormat i = Inr (0 # [b1, b2, b3, b4])"
    by (simp add: encodeWireFormat_def putUint32_beUint32 del: beUint32.simps)
  then show ?thesis using bs r \<open>b0 = 0\<close> by simp
qed

section \<open>Framing: the interface the serdes rely on\<close>

text \<open>
  A framing adds something to a payload, depending on the schema, and takes it off again.
  The serdes never look inside: what they need is that stripping undoes framing, and when
  framing succeeds. \<open>valid\<close> is the range of schemas that can be framed.
\<close>

locale framing =
  fixes frame :: "Schema option \<Rightarrow> gobytes \<Rightarrow> gobytes res"
    and unframe :: "gobytes \<Rightarrow> Schema option \<Rightarrow> gobytes res"
    and valid :: "Schema option \<Rightarrow> bool"
  assumes unframe_frame: "frame s (Some b) = Inr d \<Longrightarrow> unframe d s = Inr (Some b)"
    and frame_ok: "is_ok (frame s p) \<longleftrightarrow> valid s"
begin

text \<open>Any payload codec that round-trips still does so inside the frame.\<close>

lemma framed_decode:
  assumes "frame s (Some b) = Inr d"
  shows "(case unframe d s of Inl e \<Rightarrow> Inl e | Inr p \<Rightarrow> dec p) = dec (Some b)"
  using unframe_frame [OF assms] by simp

lemma frame_some:
  assumes "valid s"
  obtains d where "frame s b = Inr d"
  using frame_ok [of s b] assms by (auto simp: is_ok_iff)

lemma frame_inj:
  assumes "frame s (Some b) = Inr d" and "frame s (Some b') = Inr d"
  shows "b = b'"
  using unframe_frame [OF assms(1)] unframe_frame [OF assms(2)] by simp

end

definition frameable :: "Schema option \<Rightarrow> bool" where
  "frameable s = (case s of None \<Rightarrow> True | Some sc \<Rightarrow> 0 \<le> sID sc \<and> sID sc \<le> maxUint32)"

lemma strip_withWireFormat:
  assumes "withWireFormat s (Some b) = Inr d"
  shows "checkAndStripWireFormat d s = Inr (Some b)"
proof (cases s)
  case None
  then show ?thesis using assms by (simp add: withWireFormat_def checkAndStripWireFormat_def)
next
  case (Some sc)
  show ?thesis
  proof (cases "sID sc = 0")
    case True
    then show ?thesis using assms Some by (simp add: withWireFormat_def checkAndStripWireFormat_def)
  next
    case False
    then obtain e where e: "encodeWireFormat (sID sc) = Inr e" and d: "d = Some (e @ b)"
      using assms Some by (auto simp: withWireFormat_def split: sum.splits)
    note sh = encodeWireFormat_shape(1,2) [OF e]
    have "\<not> length (slice_of d) < 5" and "slice_of d ! 0 = 0" using sh d by simp_all
    then show ?thesis
      using False Some decode_encode [OF e, of b] d by (simp add: checkAndStripWireFormat_def)
  qed
qed

lemma withWireFormat_ok: "is_ok (withWireFormat s b) \<longleftrightarrow> frameable s"
proof (cases s)
  case None
  then show ?thesis by (simp add: withWireFormat_def frameable_def)
next
  case (Some sc)
  then show ?thesis
    using encodeWireFormat_ok [of "sID sc"]
    by (auto simp: withWireFormat_def frameable_def maxUint32_def split: sum.splits)
qed

interpretation wire: framing withWireFormat checkAndStripWireFormat frameable
  by unfold_locales (simp_all add: strip_withWireFormat withWireFormat_ok)

section \<open>Properties\<close>

text \<open>C19: Every schema ID that fits a 32-bit unsigned word is encoded in exactly five bytes, and
  decoding those bytes followed by any payload gives back that ID and exactly that payload.\<close>

theorem wire_header_roundtrip:
  assumes "0 \<le> i" and "i \<le> maxUint32"
  shows "\<exists>e. encodeWireFormat i = Inr e \<and> length e = 5 \<and>
             (\<forall>p. decodeWireFormat (Some (e @ p)) = Inr (i, Some p))"
proof -
  obtain e where e: "encodeWireFormat i = Inr e"
    using assms encodeWireFormat_ok [of i] by (auto simp: is_ok_iff)
  then show ?thesis using encodeWireFormat_shape(2) [OF e] decode_encode [OF e] by blast
qed

theorem wire_header_roundtrip_witness:
  "\<exists>e. encodeWireFormat 258 = Inr e \<and> length e = 5 \<and>
       (\<forall>p. decodeWireFormat (Some (e @ p)) = Inr (258, Some p))"
  by (rule wire_header_roundtrip) (simp_all add: maxUint32_def)

text \<open>C20: Decoding is exact: whatever data \<open>decodeWireFormat\<close> accepts is the encoding of the ID
  it returns followed by the payload it returns, so no two distinct inputs decode alike and
  no ID outside the 32-bit range is ever returned.\<close>

theorem wire_decode_canonical:
  assumes "decodeWireFormat d = Inr (i, rest)"
  shows "0 \<le> i \<and> i \<le> maxUint32 \<and>
         (\<exists>e. encodeWireFormat i = Inr e \<and> slice_of d = e @ slice_of rest)"
proof -
  from encode_decode [OF assms] obtain e
    where e: "encodeWireFormat i = Inr e" and d: "slice_of d = e @ slice_of rest" by blast
  from encodeWireFormat_shape(3,4) [OF e] e d show ?thesis by blast
qed

theorem wire_decode_canonical_witness:
  "0 \<le> (258 :: int) \<and> 258 \<le> maxUint32 \<and>
   (\<exists>e. encodeWireFormat 258 = Inr e \<and> slice_of (Some [0, 0, 0, 1, 2, 65]) = e @ slice_of (Some [65]))"
  by (rule wire_decode_canonical) (simp add: decodeWireFormat_def)

text \<open>The header codec fails exactly where it has to: encoding an ID below 0 or above the
  32-bit range is an error rather than a truncation, and decoding fails exactly on data
  shorter than five bytes or with a magic byte other than zero.\<close>

theorem wire_header_errors:
  "(is_ok (encodeWireFormat i) \<longleftrightarrow> 0 \<le> i \<and> i \<le> maxUint32) \<and>
   (is_ok (decodeWireFormat d) \<longleftrightarrow> 5 \<le> length (slice_of d) \<and> slice_of d ! 0 = 0)"
  by (auto simp: encodeWireFormat_ok decodeWireFormat_def Let_def)

text \<open>A schema without a registry ID leaves the payload untouched in both directions, and a
  schema with an ID rejects an envelope that carries another ID.\<close>

theorem envelope_id_check:
  assumes "sID s \<noteq> 0" and "encodeWireFormat j = Inr e" and "j \<noteq> sID s"
  shows "checkAndStripWireFormat (Some (e @ p)) (Some s) =
           Inl (Errorf ''SchemaRegistry: schema ID mismatch: expected %d, got %d'' [AInt (sID s), AInt j]) \<and>
         checkAndStripWireFormat d (Some (s\<lparr>sID := 0\<rparr>)) = Inr d \<and>
         withWireFormat (Some (s\<lparr>sID := 0\<rparr>)) d = Inr d"
  using assms encodeWireFormat_shape(1,2) [OF assms(2)] decode_encode [OF assms(2), of p]
  by (simp add: checkAndStripWireFormat_def withWireFormat_def)

theorem envelope_id_check_witness:
  "checkAndStripWireFormat (Some ([0, 0, 0, 0, 7] @ [1])) (Some \<lparr>sID = 9, sSubject = [], sVersion = 0, sSchema = [], sSchemaType = []\<rparr>) =
     Inl (Errorf ''SchemaRegistry: schema ID mismatch: expected %d, got %d'' [AInt 9, AInt 7])"
  using envelope_id_check [of "\<lparr>sID = 9, sSubject = [], sVersion = 0, sSchema = [], sSchemaType = []\<rparr>" 7 "[0, 0, 0, 0, 7]" "[1]" None]
  by (simp add: encodeWireFormat_def putUint32_def maxUint32_def)

text \<open>With a registry ID, data that does not look like an envelope (shorter than five bytes or
  not starting with the magic byte) is passed through unchanged instead of being rejected.\<close>

theorem unenveloped_data_accepted:
  assumes "length (slice_of d) < 5 \<or> slice_of d ! 0 \<noteq> 0"
  shows "checkAndStripWireFormat d s = Inr d"
  using assms by (auto simp: checkAndStripWireFormat_def split: option.splits)

theorem unenveloped_data_accepted_witness:
  "checkAndStripWireFormat (Some [123, 125]) (Some \<lparr>sID = 9, sSubject = [], sVersion = 0, sSchema = [], sSchemaType = []\<rparr>)
     = Inr (Some [123, 125])"
  by (rule unenveloped_data_accepted) simp

end
