(* ===== verification/GoFloat.thy ===== *)
theory GoFloat
  imports Prelude Complex_Main "HOL-Library.Log_Nat"
begin

text \<open>
  Go's \<open>float64\<close> and \<open>float32\<close> values and the rounding between numeric types.
\<close>

section \<open>Floating point\<close>

text \<open>
  A \<open>float64\<close> is a NaN, an infinity, negative zero or a finite number, whose exact value is a
  rational. \<open>round_float p emin emax\<close> rounds a rational to the nearest number with \<open>p\<close>
  significand bits, ties to even, with gradual underflow below \<open>emin\<close> and overflow to an
  infinity above \<open>emax\<close>; it gives every conversion between Go's numeric types.
\<close>

datatype float64 = NaN | PosInf | NegInf | NegZero | Fin rat

definition round_even :: "rat \<Rightarrow> int" where
  "round_even x =
     (let f = \<lfloor>x\<rfloor>; d = x - of_int f in
      if d < 1 / 2 then f else if d > 1 / 2 then f + 1 else if even f then f else f + 1)"

definition ilog2 :: "rat \<Rightarrow> int" where
  "ilog2 x = (if x \<ge> 1 then bitlen \<lfloor>x\<rfloor> - 1 else - bitlen (\<lceil>1 / x\<rceil> - 1))"

definition round_float :: "int \<Rightarrow> int \<Rightarrow> int \<Rightarrow> rat \<Rightarrow> float64" where
  "round_float p emin emax x =
     (if x = 0 then Fin 0
      else let e = max emin (ilog2 \<bar>x\<bar>); u = 2 powi (e - p + 1);
               y = of_int (round_even (\<bar>x\<bar> / u)) * u in
        if y \<ge> 2 powi (emax + 1) then (if x > 0 then PosInf else NegInf)
        else if y = 0 then (if x > 0 then Fin 0 else NegZero)
        else Fin (if x > 0 then y else - y))"

definition f64_of_int :: "int \<Rightarrow> float64" where
  "f64_of_int n = round_float 53 (-1022) 1023 (of_int n)"

definition f32_of_f64 :: "float64 \<Rightarrow> float64" where
  "f32_of_f64 f = (case f of Fin x \<Rightarrow> round_float 24 (-126) 127 x | _ \<Rightarrow> f)"

text \<open>\<open>math.Trunc\<close>, \<open>==\<close> and the order of Go; every comparison with a NaN is false.\<close>

definition f_trunc :: "float64 \<Rightarrow> float64" where
  "f_trunc f =
     (case f of
        Fin x \<Rightarrow> if x \<ge> 0 then Fin (of_int \<lfloor>x\<rfloor>)
                else if \<lceil>x\<rceil> = 0 then NegZero else Fin (of_int \<lceil>x\<rceil>)
      | _ \<Rightarrow> f)"

fun f_eq :: "float64 \<Rightarrow> float64 \<Rightarrow> bool" where
  "f_eq NaN _ = False"
| "f_eq _ NaN = False"
| "f_eq NegZero (Fin x) = (x = 0)"
| "f_eq (Fin x) NegZero = (x = 0)"
| "f_eq a b = (a = b)"

definition f_real :: "float64 \<Rightarrow> rat option" where
  "f_real f = (case f of Fin x \<Rightarrow> Some x | NegZero \<Rightarrow> Some 0 | _ \<Rightarrow> None)"

instantiation float64 :: ord
begin

definition less_float64 :: "float64 \<Rightarrow> float64 \<Rightarrow> bool" where
  "less_float64 f g =
     (case (f_real f, f_real g) of
        (Some x, Some y) \<Rightarrow> x < y
      | _ \<Rightarrow> f \<noteq> NaN \<and> g \<noteq> NaN \<and> f \<noteq> g \<and> (f = NegInf \<or> g = PosInf))"

definition less_eq_float64 :: "float64 \<Rightarrow> float64 \<Rightarrow> bool" where
  "less_eq_float64 f g = (f < g \<or> f_eq f g)"

instance ..

end

lemma float_less:
  "f < Fin q \<longleftrightarrow> (case f of NegInf \<Rightarrow> True | NegZero \<Rightarrow> 0 < q | Fin x \<Rightarrow> x < q | _ \<Rightarrow> False)"
  "Fin q < f \<longleftrightarrow> (case f of PosInf \<Rightarrow> True | NegZero \<Rightarrow> q < 0 | Fin x \<Rightarrow> q < x | _ \<Rightarrow> False)"
  by (auto simp: less_float64_def f_real_def split: float64.split)

lemma float_less_eq:
  "f \<le> Fin q \<longleftrightarrow> (case f of NegInf \<Rightarrow> True | NegZero \<Rightarrow> 0 \<le> q | Fin x \<Rightarrow> x \<le> q | _ \<Rightarrow> False)"
  "Fin q \<le> f \<longleftrightarrow> (case f of PosInf \<Rightarrow> True | NegZero \<Rightarrow> q \<le> 0 | Fin x \<Rightarrow> q \<le> x | _ \<Rightarrow> False)"
  by (auto simp: less_eq_float64_def float_less split: float64.split)

lemmas float_order = float_less float_less_eq

text \<open>The integer part of an integral finite float, as the conversions \<open>byte(n)\<close>, \<open>int32(n)\<close>,
  \<open>int64(n)\<close> compute it when the value is in range.\<close>

definition f_int :: "float64 \<Rightarrow> int" where
  "f_int f = (case f of Fin x \<Rightarrow> if x \<ge> 0 then \<lfloor>x\<rfloor> else \<lceil>x\<rceil> | _ \<Rightarrow> 0)"

section \<open>Lemmas on rounding\<close>

lemma round_even_int [simp]: "round_even (of_int n) = n"
  by (simp add: round_even_def)

lemma round_float_exact:
  assumes "x \<noteq> 0"
    and "\<bar>x\<bar> / 2 powi (max emin (ilog2 \<bar>x\<bar>) - p + 1) = of_int k"
    and "\<bar>x\<bar> < 2 powi (emax + 1)"
  shows "round_float p emin emax x = Fin x"
proof -
  let ?u = "2 powi (max emin (ilog2 \<bar>x\<bar>) - p + 1) :: rat"
  have "?u \<noteq> 0" by simp
  then have "of_int (round_even (\<bar>x\<bar> / ?u)) * ?u = \<bar>x\<bar>"
    unfolding assms(2) round_even_int using assms(2) by (metis nonzero_divide_eq_eq)
  then show ?thesis using assms(1,3) by (cases "0 < x") (simp_all add: round_float_def Let_def)
qed

lemma ilog2_of_int: "1 \<le> m \<Longrightarrow> ilog2 (of_int m) = bitlen m - 1"
  by (simp add: ilog2_def)

lemma f64_of_int_exact:
  assumes "\<bar>n\<bar> \<le> 2 ^ 53"
  shows "f64_of_int n = Fin (of_int n)"
proof (cases "n = 0")
  case True
  then show ?thesis by (simp add: f64_of_int_def round_float_def)
next
  case False
  define m where "m = \<bar>n\<bar>"
  have m: "1 \<le> m" "m \<le> 2 ^ 53" using False assms by (auto simp: m_def)
  have il: "ilog2 \<bar>of_int n\<bar> = bitlen m - 1"
    using ilog2_of_int [OF m(1)] by (simp add: m_def)
  have b0: "0 < bitlen m" using m(1) bitlen_nonneg [of m] bitlen_eq_zero_iff [of m] by linarith
  have "\<exists>k. of_int m / 2 powi (bitlen m - 1 - 53 + 1) = (of_int k :: rat)"
  proof (cases "m < 2 ^ 53")
    case True
    then have "bitlen m \<le> 53" using bitlen_le_iff_power [of m 53] m by simp
    then have "(2::rat) powi (bitlen m - 1 - 53 + 1) = 1 / 2 ^ nat (53 - bitlen m)"
      by (simp add: power_int_def power_one_over)
    then have "of_int m / 2 powi (bitlen m - 1 - 53 + 1) = (of_int (m * 2 ^ nat (53 - bitlen m)) :: rat)"
      by simp
    then show ?thesis by blast
  next
    case False
    then have "m = 2 ^ 53" using m by simp
    then have "bitlen m = 54" using bitlen_pow2 [of 1 53] compute_bitlen [of 1] by simp
    then show ?thesis using \<open>m = 2 ^ 53\<close> by (intro exI [of _ "2 ^ 52"]) simp
  qed
  then obtain k where k: "of_int m / 2 powi (bitlen m - 1 - 53 + 1) = (of_int k :: rat)" by blast
  have "(of_int m :: rat) \<le> of_int (2 ^ 53)" using m(2) by (simp only: of_int_le_iff)
  also have "\<dots> < 2 powi 1024" by (simp add: power_int_def)
  finally have lt: "\<bar>of_int n :: rat\<bar> < 2 powi (1023 + 1)" by (simp add: m_def)
  show ?thesis
    unfolding f64_of_int_def
  proof (rule round_float_exact)
    show "(of_int n :: rat) \<noteq> 0" using False by simp
    show "\<bar>of_int n\<bar> / 2 powi (max (- 1022) (ilog2 \<bar>of_int n\<bar>) - 53 + 1) = (of_int k :: rat)"
      using k b0 il by (simp add: m_def)
    show "\<bar>of_int n\<bar> < (2 :: rat) powi (1023 + 1)" by (rule lt)
  qed
qed

end
