(* ===== verification/FloatText.thy ===== *)
theory FloatText
  imports GoFloat
begin

text \<open>
  The decimal texts of floating-point numbers, as Go's package \<open>strconv\<close> prints and reads them: the
  shortest digits that read back as the same number, the formats \<open>e\<close>, \<open>f\<close> and \<open>g\<close>, and the reading of a
  decimal with its correct rounding. What is printed reads back as the number it was printed from.
\<close>

section \<open>Binary magnitudes\<close>

lemma powi_iff:
  assumes "1 < (b :: rat)"
  shows "b powi m < b powi n \<longleftrightarrow> m < n" and "b powi m \<le> b powi n \<longleftrightarrow> m \<le> n"
proof -
  have s: "m < n \<Longrightarrow> b powi m < b powi n" for m n using assms by (rule power_int_strict_increasing [rotated])
  show "b powi m < b powi n \<longleftrightarrow> m < n" using s [of m n] s [of n m] by (metis less_asym' linorder_neqE)
  then show "b powi m \<le> b powi n \<longleftrightarrow> m \<le> n" using s [of n m] s [of m n] by (metis leD leI le_less)
qed

lemmas powi_mono = powi_iff [of 2, simplified]
lemmas powi_10_mono = powi_iff [of 10, simplified]

lemma ilog2_both:
  assumes "0 < x"
  shows "2 powi ilog2 x \<le> x \<and> x < 2 powi (ilog2 x + 1)"
proof (cases "1 \<le> x")
  case True
  then have f: "1 \<le> \<lfloor>x\<rfloor>" by simp
  define k where "k = nat (bitlen \<lfloor>x\<rfloor> - 1)"
  have b: "2 ^ k \<le> \<lfloor>x\<rfloor>" "\<lfloor>x\<rfloor> < 2 ^ nat (bitlen \<lfloor>x\<rfloor>)"
    using bitlen_bounds [of "\<lfloor>x\<rfloor>"] f by (simp_all add: k_def)
  have l: "ilog2 x = int k" "nat (bitlen \<lfloor>x\<rfloor>) = Suc k"
    using True f bitlen_nonneg [of "\<lfloor>x\<rfloor>"] bitlen_eq_zero_iff [of "\<lfloor>x\<rfloor>"] by (simp_all add: ilog2_def k_def)
  have "(2 :: rat) ^ k \<le> x" using b(1) by (metis le_floor_iff of_int_numeral of_int_power)
  then have lo: "2 powi ilog2 x \<le> x" by (simp add: l)
  have "x < 2 ^ Suc k" using b(2) unfolding l(2) by (metis floor_less_iff of_int_numeral of_int_power)
  then have "x < 2 powi (ilog2 x + 1)" by (simp add: l power_int_add)
  then show ?thesis using lo by simp
next
  case False
  define n where "n = \<lceil>1 / x\<rceil> - 1"
  have "1 < 1 / x" using False assms by simp
  then have n: "1 \<le> n" by (simp add: n_def; linarith)
  define k where "k = nat (bitlen n - 1)"
  have b: "2 ^ k \<le> n" "n < 2 ^ nat (bitlen n)" using bitlen_bounds [of n] n by (simp_all add: k_def)
  have l: "ilog2 x = - (int k + 1)" "nat (bitlen n) = Suc k"
    using False n bitlen_nonneg [of n] bitlen_eq_zero_iff [of n] by (simp_all add: ilog2_def k_def n_def)
  have "n + 1 \<le> 2 ^ Suc k" using b(2) unfolding l(2) by simp
  then have "1 / x \<le> 2 ^ Suc k" unfolding n_def by (simp add: ceiling_le_iff)
  then have "1 / 2 ^ Suc k \<le> x" using assms by (simp add: divide_simps mult.commute)
  moreover have "2 powi ilog2 x = 1 / (2 :: rat) ^ Suc k"
  proof -
    have "ilog2 x = - int (Suc k)" using l(1) by simp
    then show ?thesis by (simp only: power_int_minus power_int_of_nat divide_inverse mult_1_left)
  qed
  ultimately have lo: "2 powi ilog2 x \<le> x" by simp
  have "of_int (2 ^ k) \<le> (of_int n :: rat)" using b(1) by (simp only: of_int_le_iff)
  then have "2 ^ k \<le> (of_int n :: rat)" by simp
  moreover have "of_int n < 1 / x" unfolding n_def by linarith
  ultimately have "2 ^ k < 1 / x" by linarith
  then have "x < 1 / 2 ^ k" using assms by (simp add: divide_simps mult.commute)
  then have "x < 2 powi (ilog2 x + 1)" by (simp add: l power_int_minus divide_simps)
  then show ?thesis using lo by simp
qed

lemma ilog2_bounds: "0 < x \<Longrightarrow> 2 powi ilog2 x \<le> x" "0 < x \<Longrightarrow> x < 2 powi (ilog2 x + 1)"
  using ilog2_both by auto

lemma ilog2_unique:
  assumes "2 powi e \<le> x" and "x < 2 powi (e + 1)"
  shows "ilog2 x = e"
proof -
  have "(0 :: rat) < 2 powi e" by simp
  then have "0 < x" using assms(1) by linarith
  note b = ilog2_bounds [OF this]
  have "(2 :: rat) powi ilog2 x < 2 powi (e + 1)" "(2 :: rat) powi e < 2 powi (ilog2 x + 1)"
    using b assms by linarith+
  then show ?thesis by (simp add: powi_mono)
qed

section \<open>Numbers that round to a float\<close>

lemma round_even_near:
  assumes "\<bar>y - of_int m\<bar> < 1 / 2"
  shows "round_even y = m"
proof (cases "of_int m \<le> y")
  case True
  then have "\<lfloor>y\<rfloor> = m" using assms by (simp add: floor_unique)
  then show ?thesis using assms True by (simp add: round_even_def Let_def)
next
  case False
  then have "\<lfloor>y\<rfloor> = m - 1" using assms by (intro floor_unique) auto
  then show ?thesis using assms False by (simp add: round_even_def Let_def)
qed

lemma round_float_grid:
  assumes "0 < x" and "round_float p emin emax x = Fin x"
  obtains m where "x = of_int m * 2 powi (max emin (ilog2 x) - p + 1)" and "x < 2 powi (emax + 1)"
proof -
  let ?u = "2 powi (max emin (ilog2 x) - p + 1) :: rat"
  let ?y = "of_int (round_even (x / ?u)) * ?u"
  have "?y = x \<and> \<not> 2 powi (emax + 1) \<le> x"
    using assms by (auto simp: round_float_def Let_def split: if_splits)
  then show thesis using that [of "round_even (x / ?u)"] by auto
qed

text \<open>Every number close enough to a float, relative to its size, rounds to it.\<close>

text \<open>A grid point less than half a step away is what a number rounds to; powers of two are integers.\<close>

lemma round_to_grid:
  assumes "0 < x" and "0 < y" and "x < 2 powi (emax + 1)" and "max emin (ilog2 y) = e"
    and "\<bar>y - x\<bar> < 2 powi (e - p + 1) / 2" and "x = of_int k * 2 powi (e - p + 1)"
  shows "round_float p emin emax y = Fin x"
proof -
  let ?u = "2 powi (e - p + 1) :: rat"
  have pos: "0 < ?u" by simp
  have "y / ?u - of_int k = (y - x) / ?u" by (simp add: assms(6) diff_divide_distrib)
  then have "\<bar>y / ?u - of_int k\<bar> = \<bar>y - x\<bar> / ?u" using pos by (simp add: abs_divide)
  also have "\<dots> < 1 / 2" using assms(5) pos by (simp add: pos_divide_less_eq)
  finally have "round_even (y / ?u) = k" by (rule round_even_near)
  then show ?thesis using assms by (simp add: round_float_def Let_def)
qed

lemma powi_int_gap:
  assumes "0 \<le> q"
  shows "(of_int m :: rat) < 2 powi q \<Longrightarrow> of_int m + 1 \<le> (2 :: rat) powi q"
    and "(2 :: rat) powi q < of_int m \<Longrightarrow> 2 powi q + 1 \<le> (of_int m :: rat)"
proof -
  have two: "(2 :: rat) powi q = of_int (2 ^ nat q)" using assms by (simp add: power_int_def)
  have up: "(of_int i :: rat) < of_int j \<Longrightarrow> of_int i + 1 \<le> (of_int j :: rat)" for i j
    by (metis of_int_1 of_int_add of_int_le_iff of_int_less_iff zless_imp_add1_zle)
  show "(of_int m :: rat) < 2 powi q \<Longrightarrow> of_int m + 1 \<le> (2 :: rat) powi q"
    and "(2 :: rat) powi q < of_int m \<Longrightarrow> 2 powi q + 1 \<le> (of_int m :: rat)"
    unfolding two by (rule up, assumption)+
qed

text \<open>Below a power of two the grid is twice as fine, and the only number of the coarse grid that close is the power itself.\<close>

lemma round_below_power:
  assumes p: "1 \<le> p" and x: "x = of_int m * u" and u: "u = (2 :: rat) powi (e - p + 1)" and lo: "2 powi e \<le> x" and e: "emin < e"
    and small: "x < 2 powi (emax + 1)" and y: "\<bar>y - x\<bar> < x * 2 powi (- p - 1)" "\<bar>y - x\<bar> < u / 2" "y < 2 powi e"
  shows "round_float p emin emax y = Fin x"
proof -
  have u0: "0 < u" by (simp add: u)
  have low: "2 powi e = 2 powi (p - 1) * u" by (simp add: u power_int_add [symmetric])
  have xe: "x = 2 powi e"
  proof (rule ccontr)
    assume "x \<noteq> 2 powi e"
    then have "2 powi (p - 1) * u < of_int m * u" using lo unfolding low x by linarith
    then have "2 powi (p - 1) + 1 \<le> (of_int m :: rat)" using powi_int_gap(2) [of "p - 1" m] p u0 by simp
    then have "(2 powi (p - 1) + 1) * u \<le> x" using u0 x by (simp add: mult_right_mono)
    then show False using y(2,3) low by (simp add: algebra_simps; linarith)
  qed
  have quarter: "\<bar>y - x\<bar> < u / 4"
  proof -
    have "x * 2 powi (- p - 1) = 2 powi (e - p - 1)"
      by (simp add: xe power_int_add [symmetric] algebra_simps)
    moreover have "e - p + 1 = (e - p - 1) + 2" by simp
    then have "u = 2 powi (e - p - 1) * 2 powi 2" unfolding u by (simp only:) (rule power_int_add; simp)
    ultimately show ?thesis using y(1) by simp
  qed
  have "u \<le> 2 powi e" using p by (simp add: u powi_mono)
  then have y1: "2 powi (e - 1) \<le> y" using quarter xe by (simp add: power_int_diff; linarith)
  moreover have "(0 :: rat) < 2 powi (e - 1)" "(0 :: rat) < 2 powi e" by simp_all
  ultimately have "0 < x" "0 < y" using xe by linarith+
  moreover have "ilog2 y = e - 1" using y1 y(3) by (intro ilog2_unique) simp_all
  then have "max emin (ilog2 y) = e - 1" using e by simp
  moreover have "2 powi (e - 1 - p + 1) = u / 2" by (simp add: u power_int_diff power_int_add)
  ultimately show ?thesis using round_to_grid [of x y emax emin "e - 1" p "2 * m"] quarter small x by simp
qed

lemma round_nearby:
  assumes x: "0 < x" "round_float p emin emax x = Fin x" and p: "1 \<le> p"
    and y: "\<bar>y - x\<bar> < x * 2 powi (- p - 1)"
  shows "round_float p emin emax y = Fin x"
proof -
  define e where "e = max emin (ilog2 x)"
  define u where "u = (2 :: rat) powi (e - p + 1)"
  obtain m where m: "x = of_int m * u" and small: "x < 2 powi (emax + 1)"
    using round_float_grid [OF x] by (auto simp: e_def u_def)
  have u0: "0 < u" by (simp add: u_def)
  have top: "2 powi (e + 1) = 2 powi p * u" by (simp add: u_def power_int_add [symmetric])
  have "(2 :: rat) powi (ilog2 x + 1) \<le> 2 powi (e + 1)" by (simp add: powi_mono e_def)
  then have xtop: "x < 2 powi (e + 1)" using ilog2_bounds(2) [OF x(1)] by linarith
  then have "x * 2 powi (- p - 1) < 2 powi (e + 1) * 2 powi (- p - 1)" by (simp add: mult_strict_right_mono)
  also have "\<dots> = u / 2" by (simp add: top power_int_add [symmetric] power_int_diff)
  finally have near: "\<bar>y - x\<bar> < u / 2" using y by linarith
  have "(2 :: rat) powi (- p - 1) \<le> 2 powi (- 1)" unfolding powi_mono using p by simp
  then have "x * 2 powi (- p - 1) \<le> x * 2 powi (- 1)" using x(1) by (intro mult_left_mono) simp_all
  then have "x * 2 powi (- p - 1) \<le> x / 2" by (simp add: power_int_minus)
  then have y0: "0 < y" using y x(1) by linarith
  have "of_int m * u < 2 powi p * u" using xtop top m by simp
  then have "of_int m + 1 \<le> (2 :: rat) powi p" using powi_int_gap(1) [of p m] p u0 by simp
  then have "(of_int m + 1) * u \<le> 2 powi (e + 1)" using top u0 by (simp add: mult_right_mono)
  then have ytop: "y < 2 powi (e + 1)" using near m by (simp add: algebra_simps; linarith)
  show ?thesis
  proof (cases "max emin (ilog2 y) = e")
    case True
    then show ?thesis using round_to_grid [of x y emax emin e p m] near m x(1) y0 small by (simp add: u_def)
  next
    case False
    have ylow: "y < 2 powi e" using ilog2_unique [of e y] ytop False by (cases "2 powi e \<le> y") (auto simp: e_def)
    then have "ilog2 y < e"
      using ilog2_bounds(1) [OF y0] powi_mono(1) [of "ilog2 y" e] by linarith
    then have eb: "emin < e" "e = ilog2 x" using False by (auto simp: e_def max_def split: if_splits)
    then show ?thesis
      using round_below_power [OF p m u_def _ eb(1) small y near ylow] ilog2_bounds(1) [OF x(1)] by simp
  qed
qed

section \<open>Decimal magnitudes\<close>

lemma dec_digits_bounds: "0 < n \<Longrightarrow> 10 ^ (length (dec_digits n) - 1) \<le> n \<and> n < 10 ^ length (dec_digits n)"
proof (induction n rule: dec_digits.induct)
  case (1 n)
  show ?case
  proof (cases "n < 10")
    case True
    then show ?thesis using 1(2) by (subst (1 2) dec_digits.simps) simp
  next
    case False
    then have ih: "10 ^ (length (dec_digits (n div 10)) - 1) \<le> n div 10" "n div 10 < 10 ^ length (dec_digits (n div 10))"
      using 1(1) by (simp_all add: div_greater_zero_iff)
    have len: "length (dec_digits n) = Suc (length (dec_digits (n div 10)))"
      using False by (subst dec_digits.simps) simp
    have "length (dec_digits (n div 10)) \<noteq> 0" by simp
    then obtain k where k: "length (dec_digits (n div 10)) = Suc k" by (cases "length (dec_digits (n div 10))") auto
    show ?thesis using ih unfolding len k by (simp, linarith)
  qed
qed

definition ilog10 :: "rat \<Rightarrow> int" where
  "ilog10 x =
     (if x \<ge> 1 then int (length (dec_digits (nat \<lfloor>x\<rfloor>))) - 1
      else - int (length (dec_digits (nat (\<lceil>1 / x\<rceil> - 1)))))"

lemma ilog10_both:
  assumes "0 < x"
  shows "10 powi ilog10 x \<le> x \<and> x < 10 powi (ilog10 x + 1)"
proof (cases "1 \<le> x")
  case True
  define n where "n = nat \<lfloor>x\<rfloor>"
  obtain k where k: "length (dec_digits n) = Suc k" by (cases "length (dec_digits n)") auto
  have "0 < n" using True by (simp add: n_def)
  then have b: "10 ^ k \<le> n" "n < 10 ^ Suc k" using dec_digits_bounds [of n] k by simp_all
  have l: "ilog10 x = int k" using True k by (simp add: ilog10_def n_def)
  have nx: "of_nat n \<le> x" "x < of_nat n + 1" using True unfolding n_def by (simp_all add: floor_le_iff) linarith+
  have "of_nat (10 ^ k) \<le> (of_nat n :: rat)" using b(1) by (simp only: of_nat_le_iff)
  then have lo: "10 ^ k \<le> (of_nat n :: rat)" by simp
  have "of_nat (n + 1) \<le> (of_nat (10 ^ Suc k) :: rat)" using b(2) by (simp only: of_nat_le_iff)
  then have "of_nat n + 1 \<le> (10 :: rat) ^ Suc k" by simp
  then have "10 ^ k \<le> x" "x < 10 ^ Suc k" using nx lo by linarith+
  then show ?thesis by (simp add: l power_int_add)
next
  case False
  define n where "n = nat (\<lceil>1 / x\<rceil> - 1)"
  obtain k where k: "length (dec_digits n) = Suc k" by (cases "length (dec_digits n)") auto
  have one: "1 < 1 / x" using False assms by simp
  then have n0: "0 < n" and nx: "of_nat n < 1 / x" "1 / x \<le> of_nat n + 1" unfolding n_def by (simp_all) linarith+
  then have b: "10 ^ k \<le> n" "n < 10 ^ Suc k" using dec_digits_bounds [of n] k by simp_all
  have "ilog10 x = - int (Suc k)" using False k by (simp add: ilog10_def n_def)
  then have l: "10 powi ilog10 x = 1 / (10 :: rat) ^ Suc k" "10 powi (ilog10 x + 1) = 1 / (10 :: rat) ^ k"
    by (simp_all only: power_int_minus power_int_of_nat divide_inverse mult_1_left) (simp add: power_int_minus divide_inverse)
  have "of_nat (10 ^ k) \<le> (of_nat n :: rat)" using b(1) by (simp only: of_nat_le_iff)
  then have lo: "10 ^ k \<le> (of_nat n :: rat)" by simp
  have "of_nat (n + 1) \<le> (of_nat (10 ^ Suc k) :: rat)" using b(2) by (simp only: of_nat_le_iff)
  then have "of_nat n + 1 \<le> (10 :: rat) ^ Suc k" by simp
  then have "10 ^ k < 1 / x" "1 / x \<le> 10 ^ Suc k" using nx lo by linarith+
  then show ?thesis unfolding l using assms by (simp add: divide_simps mult.commute)
qed

section \<open>The shortest digits\<close>

type_synonym float_format = "int \<times> int \<times> int"

definition round_to :: "float_format \<Rightarrow> rat \<Rightarrow> float64" where
  "round_to fm x = (case fm of (p, emin, emax) \<Rightarrow> round_float p emin emax x)"

abbreviation binary64 :: float_format where "binary64 \<equiv> (53, -1022, 1023)"
abbreviation binary32 :: float_format where "binary32 \<equiv> (24, -126, 127)"

text \<open>The best decimal with \<open>n\<close> digits that still rounds to \<open>x\<close>: the nearer of the two neighbours, an even
  one on a tie, or the only one that rounds to \<open>x\<close>.\<close>

definition decimal_unit :: "rat \<Rightarrow> nat \<Rightarrow> int" where
  "decimal_unit x n = ilog10 x - int n + 1"

definition candidate :: "float_format \<Rightarrow> rat \<Rightarrow> nat \<Rightarrow> int option" where
  "candidate fm x n =
     (let u = 10 powi decimal_unit x n; d = \<lfloor>x / u\<rfloor>;
          lo = of_int d * u; hi = of_int (d + 1) * u;
          lo_ok = (round_to fm lo = Fin x); hi_ok = (round_to fm hi = Fin x)
      in if lo_ok \<and> hi_ok then
           Some (if x - lo < hi - x then d else if hi - x < x - lo then d + 1 else if even d then d else d + 1)
         else if lo_ok then Some d
         else if hi_ok then Some (d + 1)
         else None)"

fun find_digits :: "float_format \<Rightarrow> rat \<Rightarrow> nat \<Rightarrow> nat \<Rightarrow> int \<times> int" where
  "find_digits fm x n fuel =
     (case candidate fm x n of
        Some d \<Rightarrow> (d, decimal_unit x n)
      | None \<Rightarrow> if fuel = 0 then (\<lfloor>x / 10 powi decimal_unit x n\<rfloor>, decimal_unit x n) else find_digits fm x (n + 1) (fuel - 1))"

declare find_digits.simps [simp del]

text \<open>Without trailing zeros.\<close>

fun strip_zeros :: "nat \<Rightarrow> int \<Rightarrow> nat \<times> int" where
  "strip_zeros d e = (if d \<noteq> 0 \<and> d mod 10 = 0 then strip_zeros (d div 10) (e + 1) else (d, e))"

declare strip_zeros.simps [simp del]

text \<open>17 digits are always enough for a \<open>float64\<close>, and 9 for a \<open>float32\<close>.\<close>

definition shortest :: "float_format \<Rightarrow> rat \<Rightarrow> nat \<times> int" where
  "shortest fm x = (let (d, e) = find_digits fm x 1 16 in strip_zeros (nat d) e)"

definition decimal_value :: "nat \<Rightarrow> int \<Rightarrow> rat" where
  "decimal_value d e = of_nat d * 10 powi e"

lemma decimal_value_strip: "strip_zeros d e = (d', e') \<Longrightarrow> decimal_value d' e' = decimal_value d e"
proof (induction d e rule: strip_zeros.induct)
  case (1 d e)
  show ?case
  proof (cases "d \<noteq> 0 \<and> d mod 10 = 0")
    case True
    then have "strip_zeros (d div 10) (e + 1) = (d', e')" using 1(2) by (simp add: strip_zeros.simps [of d])
    then have ih: "decimal_value d' e' = decimal_value (d div 10) (e + 1)" using 1(1) True by simp
    have "d = 10 * (d div 10)" using True by presburger
    then have "(of_nat d :: rat) = 10 * of_nat (d div 10)" by (metis of_nat_mult of_nat_numeral)
    then show ?thesis unfolding ih by (simp add: decimal_value_def power_int_add)
  next
    case False
    then have "strip_zeros d e = (d, e)" by (subst strip_zeros.simps) auto
    then show ?thesis using 1(2) by simp
  qed
qed

lemma strip_positive: "strip_zeros d e = (d', e') \<Longrightarrow> 0 < d \<Longrightarrow> 0 < d'"
proof (induction d e rule: strip_zeros.induct)
  case (1 d e)
  show ?case
  proof (cases "d \<noteq> 0 \<and> d mod 10 = 0")
    case True
    then have "0 < d div 10" by (auto simp: div_greater_zero_iff)
    then show ?thesis using 1 True by (simp add: strip_zeros.simps [of d])
  next
    case False
    then have "strip_zeros d e = (d, e)" by (subst strip_zeros.simps) auto
    then show ?thesis using 1 by simp
  qed
qed

lemma candidate_rounds:
  "candidate fm x n = Some d \<Longrightarrow> round_to fm (of_int d * 10 powi decimal_unit x n) = Fin x"
  by (auto simp: candidate_def Let_def split: if_splits)

lemma candidate_nonneg: "0 < x \<Longrightarrow> candidate fm x n = Some d \<Longrightarrow> 0 \<le> d"
proof -
  assume "0 < x"
  then have "0 \<le> \<lfloor>x / 10 powi decimal_unit x n\<rfloor>" by simp
  then show "candidate fm x n = Some d \<Longrightarrow> 0 \<le> d" by (auto simp: candidate_def Let_def split: if_splits)
qed

lemma candidate_17:
  assumes "0 < x" and "round_to binary64 x = Fin x"
  shows "candidate binary64 x 17 \<noteq> None"
proof -
  define u where "u = (10 :: rat) powi decimal_unit x 17"
  define d where "d = \<lfloor>x / u\<rfloor>"
  have u0: "0 < u" by (simp add: u_def)
  have "u * 10 ^ 16 = 10 powi ilog10 x"
  proof -
    have "(10 :: rat) ^ 16 = 10 powi 16" by simp
    moreover have "decimal_unit x 17 + 16 = ilog10 x" by (simp add: decimal_unit_def)
    ultimately show ?thesis unfolding u_def by (metis power_int_add zero_neq_numeral)
  qed
  then have ux: "u * 10 ^ 16 \<le> x" using ilog10_both [OF assms(1)] by simp
  have fl: "of_int d \<le> x / u" "x / u < of_int d + 1" unfolding d_def by linarith+
  then have b: "of_int d * u \<le> x" "x < of_int (d + 1) * u" using u0 by (simp_all add: pos_le_divide_eq pos_divide_less_eq)
  have rounds: "round_to binary64 y = Fin x" if "\<bar>y - x\<bar> \<le> u / 2" for y
  proof -
    have "u / 2 < x * 2 powi (- 54)" using ux assms(1) u0 by (simp add: power_int_minus divide_simps)
    then have "\<bar>y - x\<bar> < x * 2 powi (- 53 - 1)" using that by simp
    from round_nearby [OF assms(1) _ _ this, of "-1022" 1023] show ?thesis using assms(2) by (simp add: round_to_def)
  qed
  have "of_int (d + 1) * u = of_int d * u + u" by (simp add: algebra_simps)
  then have "\<bar>of_int d * u - x\<bar> \<le> u / 2 \<or> \<bar>of_int (d + 1) * u - x\<bar> \<le> u / 2" using b by linarith
  then have "round_to binary64 (of_int d * u) = Fin x \<or> round_to binary64 (of_int (d + 1) * u) = Fin x"
    using rounds by blast
  then show ?thesis unfolding d_def u_def by (auto simp: candidate_def Let_def)
qed

lemma find_digits_rounds:
  assumes "0 < x" and "candidate fm x m \<noteq> None" and "n \<le> m" and "m \<le> n + fuel" and "find_digits fm x n fuel = (d, e)"
  shows "round_to fm (of_int d * 10 powi e) = Fin x \<and> 0 \<le> d"
  using assms(3-5)
proof (induction fuel arbitrary: n)
  case 0
  then have "n = m" by simp
  then show ?case
    using 0(3) assms(1,2) candidate_rounds [of fm x m] candidate_nonneg [of x fm m]
    by (subst (asm) find_digits.simps) (auto split: option.splits)
next
  case (Suc fuel)
  show ?case
  proof (cases "candidate fm x n")
    case None
    then have "n \<noteq> m" using assms(2) by auto
    moreover have "find_digits fm x (n + 1) fuel = (d, e)" using Suc.prems(3) None by (subst (asm) find_digits.simps) simp
    ultimately show ?thesis using Suc.IH [of "n + 1"] Suc.prems by simp
  next
    case (Some c)
    then have "d = c" "e = decimal_unit x n" using Suc.prems(3) by (subst (asm) find_digits.simps, simp)+
    then show ?thesis using Some candidate_rounds candidate_nonneg [OF assms(1)] by blast
  qed
qed

text \<open>The shortest digits of a \<open>float64\<close> denote a decimal that rounds to it.\<close>

lemma shortest_rounds:
  assumes "0 < x" and "round_to binary64 x = Fin x" and "shortest binary64 x = (d, e)"
  shows "round_to binary64 (decimal_value d e) = Fin x" and "0 < d"
proof -
  obtain d1 e1 where f: "find_digits binary64 x 1 16 = (d1, e1)" by fastforce
  from find_digits_rounds [OF assms(1) candidate_17 [OF assms(1,2)] _ _ f]
  have r: "round_to binary64 (of_int d1 * 10 powi e1) = Fin x" and n: "0 \<le> d1" by auto
  have "d1 \<noteq> 0" using r assms(1) by (auto simp: round_to_def round_float_def)
  then have p: "0 < nat d1" using n by simp
  have s: "strip_zeros (nat d1) e1 = (d, e)" using assms(3) f by (simp add: shortest_def)
  from decimal_value_strip [OF s] show "round_to binary64 (decimal_value d e) = Fin x"
    using r n by (simp add: decimal_value_def)
  show "0 < d" by (rule strip_positive [OF s p])
qed

section \<open>Formats\<close>

definition zeros :: "int \<Rightarrow> string" where "zeros n = replicate (nat n) (CHR ''0'')"

text \<open>\<open>ds\<close> are the digits and \<open>dp\<close> the position of the decimal point: the number is 0.ds times 10^dp.\<close>

definition format_f :: "string \<Rightarrow> int \<Rightarrow> string" where
  "format_f ds dp =
     (if dp > 0 then take (nat dp) ds @ zeros (dp - int (length ds)) else ''0'') @
     (if int (length ds) - dp > 0 then CHR ''.'' # zeros (- dp) @ drop (nat dp) ds else [])"

definition exponent_text :: "nat \<Rightarrow> int \<Rightarrow> string" where
  "exponent_text width n =
     (if n < 0 then ''e-'' else ''e+'') @ zeros (int width - int (length (dec_digits (nat \<bar>n\<bar>)))) @ dec_digits (nat \<bar>n\<bar>)"

definition format_e :: "nat \<Rightarrow> string \<Rightarrow> int \<Rightarrow> string" where
  "format_e width ds dp =
     [hd ds] @ (if tl ds = [] then [] else CHR ''.'' # tl ds) @ exponent_text width (dp - 1)"

definition digits_of :: "float_format \<Rightarrow> rat \<Rightarrow> string \<times> int" where
  "digits_of fm x = (let (d, e) = shortest fm x; ds = dec_digits d in (ds, int (length ds) + e))"

text \<open>The format \<open>g\<close> with the shortest precision, as the verb \<open>%v\<close> uses it.\<close>

definition formatFloat_g :: "float_format \<Rightarrow> float64 \<Rightarrow> string" where
  "formatFloat_g fm f =
     (case f of
        NaN \<Rightarrow> ''NaN'' | PosInf \<Rightarrow> ''+Inf'' | NegInf \<Rightarrow> ''-Inf'' | NegZero \<Rightarrow> ''-0''
      | Fin x \<Rightarrow>
          if x = 0 then ''0''
          else (let (ds, dp) = digits_of fm \<bar>x\<bar> in
                (if x < 0 then ''-'' else []) @
                (if dp - 1 < -4 \<or> dp - 1 \<ge> 6 then format_e 2 ds dp else format_f ds dp)))"

text \<open>What \<open>encoding/json\<close> writes for a number that is no NaN or infinity: the format \<open>f\<close>, or \<open>e\<close> outside the
  range from 1e-6 to 1e21, with one digit for a small exponent.\<close>

definition json_float :: "float_format \<Rightarrow> float64 \<Rightarrow> string option" where
  "json_float fm f =
     (case f of
        NegZero \<Rightarrow> Some ''-0''
      | Fin x \<Rightarrow>
          if x = 0 then Some ''0''
          else Some (let (ds, dp) = digits_of fm \<bar>x\<bar> in
                (if x < 0 then ''-'' else []) @
                (if Fin \<bar>x\<bar> < round_to fm (1 / 10 ^ 6) \<or> \<bar>x\<bar> \<ge> 10 ^ 21
                 then format_e 1 ds dp else format_f ds dp))
      | _ \<Rightarrow> None)"

section \<open>Reading\<close>

definition dec_char :: "char \<Rightarrow> bool" where
  "dec_char c \<longleftrightarrow> 48 \<le> (of_char c :: nat) \<and> (of_char c :: nat) \<le> 57"

definition read_exponent :: "string \<Rightarrow> int" where
  "read_exponent t =
     (case t of
        [] \<Rightarrow> 0
      | c # u \<Rightarrow> if c = CHR ''-'' then - int (undec (takeWhile dec_char u))
                else if c = CHR ''+'' then int (undec (takeWhile dec_char u))
                else int (undec (takeWhile dec_char t)))"

text \<open>Sign, digits and exponent of a decimal literal.\<close>

definition read_decimal :: "string \<Rightarrow> bool \<times> nat \<times> int" where
  "read_decimal s =
     (let (neg, s1) = (case s of [] \<Rightarrow> (False, s) | c # t \<Rightarrow> if c = CHR ''-'' then (True, t) else (False, s));
          ip = takeWhile dec_char s1; s2 = dropWhile dec_char s1;
          (fp, s3) = (case s2 of [] \<Rightarrow> ([], [])
                      | c # t \<Rightarrow> if c = CHR ''.'' then (takeWhile dec_char t, dropWhile dec_char t) else ([], s2));
          ex = (case s3 of [] \<Rightarrow> 0 | c # t \<Rightarrow> if c = CHR ''e'' \<or> c = CHR ''E'' then read_exponent t else 0)
      in (neg, undec (ip @ fp), ex - int (length fp)))"

text \<open>\<open>strconv.ParseFloat\<close> of a decimal literal; \<open>None\<close> is the range error.\<close>

definition parseFloat :: "string \<Rightarrow> float64 option" where
  "parseFloat s =
     (let (neg, m, e) = read_decimal s in
      if m = 0 then Some (if neg then NegZero else Fin 0)
      else case round_to binary64 ((if neg then -1 else 1) * decimal_value m e) of
        PosInf \<Rightarrow> None | NegInf \<Rightarrow> None | f \<Rightarrow> Some f)"

section \<open>What is printed reads back\<close>

lemma foldl_undec: "foldl (\<lambda>a c. 10 * a + (of_char c - 48)) x s = x * 10 ^ length s + undec s"
proof (induction s arbitrary: x)
  case (Cons c s)
  have c: "undec (c # s) = foldl (\<lambda>a c. 10 * a + (of_char c - 48)) (of_char c - 48) s" by (simp add: undec_def)
  show ?case unfolding c using Cons [of "10 * x + (of_char c - 48)"] Cons [of "of_char c - 48"]
    by (simp add: algebra_simps)
qed (simp add: undec_def)

lemma undec_append: "undec (s @ t) = undec s * 10 ^ length t + undec t"
  using foldl_undec [of "undec s" t] by (simp add: undec_def)

lemma undec_zeros [simp]: "undec (replicate n (CHR ''0'')) = 0"
  by (induction n) (simp_all add: undec_def)

lemma undec_zero_prefix: "undec (replicate n (CHR ''0'') @ s) = undec s"
  by (simp add: undec_append)

lemma undec_zero_suffix: "undec (s @ replicate n (CHR ''0'')) = undec s * 10 ^ n"
  by (simp add: undec_append)

lemma all_dec_digits: "list_all dec_char (dec_digits n)"
  using dec_digits_chars [of _ n] by (auto simp: dec_char_def list_all_iff)

lemma dec_char_0 [simp]: "dec_char (CHR ''0'')"
  by (simp add: dec_char_def)

lemma span_digits:
  assumes "list_all dec_char s" and "t = [] \<or> \<not> dec_char (hd t)"
  shows "takeWhile dec_char (s @ t) = s" and "dropWhile dec_char (s @ t) = t"
proof -
  have "takeWhile dec_char t = []" "dropWhile dec_char t = t" using assms(2) by (cases t; simp)+
  then show "takeWhile dec_char (s @ t) = s" and "dropWhile dec_char (s @ t) = t"
    using assms(1) by (simp_all add: list_all_iff takeWhile_append2 dropWhile_append2)
qed

text \<open>A literal made of its parts.\<close>

definition literal :: "bool \<Rightarrow> string \<Rightarrow> string \<Rightarrow> string \<Rightarrow> string" where
  "literal neg ip fp ex = (if neg then ''-'' else []) @ ip @ (if fp = [] then [] else CHR ''.'' # fp) @ ex"

definition exponent_part :: "string \<Rightarrow> bool" where
  "exponent_part ex \<longleftrightarrow> ex = [] \<or> (\<exists>sgn n. ex = CHR ''e'' # sgn # n \<and> sgn \<in> {CHR ''+'', CHR ''-''} \<and> n \<noteq> [] \<and> list_all dec_char n)"

definition exponent_value :: "string \<Rightarrow> int" where
  "exponent_value ex = (if ex = [] then 0 else read_exponent (tl ex))"

lemma read_literal:
  assumes "ip \<noteq> []" and "list_all dec_char ip" and "list_all dec_char fp" and "exponent_part ex"
  shows "read_decimal (literal neg ip fp ex) = (neg, undec (ip @ fp), exponent_value ex - int (length fp))"
proof -
  define s1 where "s1 = ip @ (if fp = [] then [] else CHR ''.'' # fp) @ ex"
  obtain c ip' where ip: "ip = c # ip'" using assms(1) by (cases ip) auto
  have "c \<noteq> CHR ''-''" using assms(2) by (auto simp: ip dec_char_def)
  then have sign: "(case literal neg ip fp ex of [] \<Rightarrow> (False, literal neg ip fp ex)
      | c # t \<Rightarrow> if c = CHR ''-'' then (True, t) else (False, literal neg ip fp ex)) = (neg, s1)"
    by (cases neg) (simp_all add: literal_def s1_def ip)
  have exh: "ex = [] \<or> \<not> dec_char (hd ex) \<and> hd ex \<noteq> CHR ''.''" using assms(4) by (auto simp: exponent_part_def dec_char_def)
  have "(if fp = [] then [] else CHR ''.'' # fp) @ ex = [] \<or> \<not> dec_char (hd ((if fp = [] then [] else CHR ''.'' # fp) @ ex))"
    using exh by (auto simp: dec_char_def)
  note i = span_digits [OF assms(2) this]
  have tl1: "takeWhile dec_char s1 = ip" "dropWhile dec_char s1 = (if fp = [] then [] else CHR ''.'' # fp) @ ex"
    using i by (simp_all add: s1_def)
  note f = span_digits [OF assms(3), of ex]
  have fr: "(case (if fp = [] then [] else CHR ''.'' # fp) @ ex of [] \<Rightarrow> ([], [])
      | c # t \<Rightarrow> if c = CHR ''.'' then (takeWhile dec_char t, dropWhile dec_char t)
                 else ([], (if fp = [] then [] else CHR ''.'' # fp) @ ex)) = (fp, ex)"
    using exh f by (cases ex) auto
  have e: "(case ex of [] \<Rightarrow> 0 | c # t \<Rightarrow> if c = CHR ''e'' \<or> c = CHR ''E'' then read_exponent t else 0) = exponent_value ex"
    using assms(4) by (auto simp: exponent_part_def exponent_value_def)
  show ?thesis unfolding read_decimal_def Let_def sign prod.case tl1 fr e by simp
qed

text \<open>Both formats are literals with the digits and the exponent they were made from.\<close>

lemma format_f_literal:
  assumes "ds \<noteq> []" and "list_all dec_char ds"
  obtains ip fp where "(if neg then ''-'' else []) @ format_f ds dp = literal neg ip fp []" "ip \<noteq> []"
    "list_all dec_char ip" "list_all dec_char fp"
    "of_nat (undec (ip @ fp)) * (10 :: rat) powi (- int (length fp)) = of_nat (undec ds) * 10 powi (dp - int (length ds))"
    "ip = ''0'' \<or> hd ip = hd ds"
proof -
  have z: "list_all dec_char (zeros n)" for n by (simp add: zeros_def list_all_iff)
  consider (int) "int (length ds) \<le> dp" | (mixed) "0 < dp" "dp < int (length ds)" | (frac) "dp \<le> 0" by linarith
  then show thesis
  proof cases
    case int
    then have dp: "0 < dp" using assms(1) by (cases ds) auto
    let ?ip = "ds @ zeros (dp - int (length ds))"
    have "(10 :: rat) ^ nat (dp - int (length ds)) = 10 powi (dp - int (length ds))" using int by (simp add: power_int_def)
    then show thesis
      using that [of ?ip "[]"] int dp assms z by (simp add: format_f_def literal_def undec_zero_suffix zeros_def)
  next
    case mixed
    let ?ip = "take (nat dp) ds" and ?fp = "drop (nat dp) ds"
    have "- int (length ?fp) = dp - int (length ds)" using mixed by simp
    moreover have "list_all dec_char ?ip" "list_all dec_char ?fp"
      using assms(2) by (auto simp: list_all_iff dest: in_set_takeD in_set_dropD)
    moreover have "?ip \<noteq> []" "?fp \<noteq> []" using mixed by (auto simp: assms(1))
    moreover have "hd ?ip = hd ds" using mixed assms(1) by (simp add: hd_take)
    ultimately show thesis using that [of ?ip ?fp] mixed by (simp add: format_f_def literal_def zeros_def)
  next
    case frac
    let ?fp = "zeros (- dp) @ ds"
    have "- int (length ?fp) = dp - int (length ds)" using frac by (simp add: zeros_def)
    moreover have "undec (''0'' @ ?fp) = undec ds"
      using undec_zero_prefix [of 1 ?fp] undec_zero_prefix [of "nat (- dp)" ds] by (simp add: zeros_def)
    moreover have "dp < int (length ds)" using frac assms(1) by (cases ds) auto
    ultimately show thesis
      using that [of "''0''" ?fp] frac assms z by (simp add: format_f_def literal_def)
  qed
qed

lemma exponent_text_part: "exponent_part (exponent_text w n)" and exponent_text_value: "exponent_value (exponent_text w n) = n"
proof -
  define D where "D = zeros (int w - int (length (dec_digits (nat \<bar>n\<bar>)))) @ dec_digits (nat \<bar>n\<bar>)"
  have d: "list_all dec_char D" "D \<noteq> []" using all_dec_digits by (auto simp: D_def zeros_def list_all_iff)
  have t: "exponent_text w n = CHR ''e'' # (if n < 0 then CHR ''-'' else CHR ''+'') # D" by (simp add: exponent_text_def D_def)
  show "exponent_part (exponent_text w n)" using d by (auto simp: exponent_part_def t)
  have tw: "takeWhile dec_char D = D" using d(1) by (simp add: list_all_iff takeWhile_eq_all_conv)
  have "undec D = nat \<bar>n\<bar>" by (simp add: D_def zeros_def undec_zero_prefix)
  then show "exponent_value (exponent_text w n) = n" by (simp add: exponent_value_def t read_exponent_def tw)
qed

lemma format_e_literal:
  assumes "ds \<noteq> []" and "list_all dec_char ds"
  shows "(if neg then ''-'' else []) @ format_e w ds dp = literal neg [hd ds] (tl ds) (exponent_text w (dp - 1))"
    and "list_all dec_char [hd ds]" and "list_all dec_char (tl ds)"
    and "dp - 1 - int (length (tl ds)) = dp - int (length ds)"
  using assms by (cases ds; auto simp: format_e_def literal_def)+

text \<open>Floats that \<open>encoding/json\<close> accepts: finite and representable, or negative zero.\<close>

definition finite_f64 :: "float64 \<Rightarrow> bool" where
  "finite_f64 f = (case f of Fin x \<Rightarrow> x = 0 \<or> round_to binary64 \<bar>x\<bar> = Fin \<bar>x\<bar> | NegZero \<Rightarrow> True | _ \<Rightarrow> False)"

lemma round_neg:
  assumes "x \<noteq> 0" and "round_to fm \<bar>y\<bar> = Fin \<bar>x\<bar>" and "y < 0 \<longleftrightarrow> x < 0" and "y \<noteq> 0"
  shows "round_to fm y = Fin x"
proof (cases "0 < y")
  case False
  then have "y < 0" "\<bar>y\<bar> > 0" using assms by auto
  then show ?thesis
    using assms by (cases fm) (auto simp: round_to_def round_float_def Let_def split: if_splits)
qed (use assms in auto)

lemma read_digits:
  assumes "digits_of fm x = (ds, dp)" and "shortest fm x = (d, e)" and "0 < d"
  shows "ds \<noteq> []" and "list_all dec_char ds" and "of_nat (undec ds) * 10 powi (dp - int (length ds)) = decimal_value d e"
    and "undec ds \<noteq> 0"
  using assms all_dec_digits by (auto simp: digits_of_def Let_def decimal_value_def)

lemma parse_printed:
  assumes x: "x \<noteq> 0" "round_to binary64 \<bar>x\<bar> = Fin \<bar>x\<bar>" and d: "digits_of binary64 \<bar>x\<bar> = (ds, dp)"
  shows "parseFloat ((if x < 0 then ''-'' else []) @ (if ef then format_e w ds dp else format_f ds dp)) = Some (Fin x)"
proof -
  obtain m e where s: "shortest binary64 \<bar>x\<bar> = (m, e)" by fastforce
  note sr = shortest_rounds [OF _ x(2) s]
  have m0: "0 < m" using sr x(1) by simp
  note ds = read_digits [OF d s m0]
  let ?neg = "x < 0"
  have lit: "\<exists>ip fp ex. (if x < 0 then ''-'' else []) @ (if ef then format_e w ds dp else format_f ds dp) = literal ?neg ip fp ex \<and>
      read_decimal (literal ?neg ip fp ex) = (?neg, undec (ip @ fp), exponent_value ex - int (length fp)) \<and>
      decimal_value (undec (ip @ fp)) (exponent_value ex - int (length fp)) = decimal_value m e"
  proof (cases ef)
    case True
    note l = format_e_literal(1) [OF ds(1,2), of ?neg w dp] format_e_literal(2,3) [OF ds(1,2)] format_e_literal(4) [OF ds(1,2), of dp]
    have rl: "read_decimal (literal ?neg [hd ds] (tl ds) (exponent_text w (dp - 1))) =
        (?neg, undec ([hd ds] @ tl ds), exponent_value (exponent_text w (dp - 1)) - int (length (tl ds)))"
      by (rule read_literal [OF _ l(2,3) exponent_text_part]) simp
    have "decimal_value (undec ([hd ds] @ tl ds)) (dp - 1 - int (length (tl ds))) = decimal_value m e"
      unfolding l(4) using ds(1,3) by (simp add: decimal_value_def)
    then show ?thesis
      using True l(1) rl by (intro exI [of _ "[hd ds]"] exI [of _ "tl ds"] exI [of _ "exponent_text w (dp - 1)"])
        (simp add: exponent_text_value)
  next
    case False
    obtain ip fp where l: "(if ?neg then ''-'' else []) @ format_f ds dp = literal ?neg ip fp []" "ip \<noteq> []"
      "list_all dec_char ip" "list_all dec_char fp"
      "of_nat (undec (ip @ fp)) * (10 :: rat) powi (- int (length fp)) = of_nat (undec ds) * 10 powi (dp - int (length ds))"
      by (rule format_f_literal [OF ds(1,2), of ?neg dp]) blast
    have "exponent_part []" "exponent_value [] = 0" by (simp_all add: exponent_part_def exponent_value_def)
    then show ?thesis
      using False l ds(3) read_literal [OF l(2-4), of "[]" ?neg]
      by (intro exI [of _ ip] exI [of _ fp] exI [of _ "[]"]) (simp add: decimal_value_def)
  qed
  then obtain k j where rd: "read_decimal ((if x < 0 then ''-'' else []) @ (if ef then format_e w ds dp else format_f ds dp)) = (?neg, k, j)"
    and v: "decimal_value k j = decimal_value m e" by fastforce
  have pos: "0 < decimal_value m e" using m0 by (simp add: decimal_value_def)
  have "decimal_value 0 j = 0" by (simp add: decimal_value_def)
  then have k: "k \<noteq> 0" using v pos by (cases "k = 0") simp_all
  have y: "\<bar>(if ?neg then -1 else 1) * decimal_value m e\<bar> = decimal_value m e" using pos by simp
  have "round_to binary64 ((if ?neg then -1 else 1) * decimal_value k j) = Fin x"
    unfolding v by (rule round_neg) (use x sr pos y in \<open>simp_all only: abs_of_pos zero_less_abs_iff\<close>, use pos in auto)
  then show ?thesis unfolding parseFloat_def rd Let_def prod.case if_not_P [OF k] by (simp only: float64.case)
qed

lemma parse_json_float:
  assumes "finite_f64 f"
  shows "\<exists>t. json_float binary64 f = Some t \<and> parseFloat t = Some f"
proof -
  have z: "parseFloat ''0'' = Some (Fin 0)" "parseFloat ''-0'' = Some NegZero"
    by (simp_all add: parseFloat_def read_decimal_def Let_def dec_char_def undec_def)
  have "\<exists>t. json_float binary64 (Fin x) = Some t \<and> parseFloat t = Some (Fin x)"
    if x: "x \<noteq> 0" "round_to binary64 \<bar>x\<bar> = Fin \<bar>x\<bar>" for x
  proof -
    obtain ds dp where d: "digits_of binary64 \<bar>x\<bar> = (ds, dp)" by fastforce
    show ?thesis using x(1) by (simp add: json_float_def d parse_printed [OF x d] del: append_assoc append.simps cong: if_cong)
  qed
  note big = this
  show ?thesis
  proof (cases f)
    case (Fin x)
    show ?thesis
    proof (cases "x = 0")
      case True
      then show ?thesis using Fin z by (simp add: json_float_def)
    next
      case False
      then show ?thesis using big [of x] assms Fin by (simp add: finite_f64_def)
    qed
  qed (use assms z in \<open>simp_all add: finite_f64_def json_float_def\<close>)
qed

end
