(* ===== verification/GoValue.thy ===== *)
theory GoValue
  imports FloatText "HOL-Library.Multiset" "HOL-Library.List_Lexorder" "HOL-Library.Char_ord"
begin

text \<open>
  Dynamic values that cross the JavaScript bridge (Go's \<open>any\<close>), and the coercions of \<open>schema_registry.go\<close> and \<open>producer.go\<close> that turn such a
  value into bytes or a number.
\<close>

section \<open>Dynamic values\<close>

datatype int_kind = KInt | KInt8 | KInt16 | KInt32 | KInt64
datatype uint_kind = KUint | KUint8 | KUint16 | KUint32 | KUint64

text \<open>
  One constructor per dynamic type the program distinguishes. \<open>GPtr\<close> is a pointer to
  anything but a byte slice or an array buffer; \<open>GSlice\<close> and \<open>GArray\<close> hold the
  elements of any other slice or array; \<open>GMap\<close> is a \<open>map[string]any\<close>;
  \<open>GOther\<close> is any other dynamic type (functions, structs), named by its type.
\<close>

datatype gval =
    GNil
  | GBool bool
  | GString string
  | GInt int_kind int
  | GUint uint_kind int
  | GFloat32 float64
  | GFloat64 float64
  | GBytes gobytes
  | GBytesPtr "gobytes option"
  | GArrayBuffer gobytes
  | GArrayBufferPtr "gobytes option"
  | GPtr "gval option"
  | GSlice "gval list"
  | GArray "gval list"
  | GMap "(string \<times> gval) list"
  | GOther string

section \<open>Coercions\<close>

fun coerceByte :: "gval \<Rightarrow> byte option" where
  "coerceByte (GPtr (Some v)) = coerceByte v"
| "coerceByte (GUint k n) = (if n > 255 then None else Some (word_of_int n))"
| "coerceByte (GInt k n) = (if n < 0 \<or> n > 255 then None else Some (word_of_int n))"
| "coerceByte (GFloat32 f) =
     (if f < Fin 0 \<or> f > Fin 255 \<or> \<not> f_eq (f_trunc f) f then None else Some (word_of_int (f_int f)))"
| "coerceByte (GFloat64 f) =
     (if f < Fin 0 \<or> f > Fin 255 \<or> \<not> f_eq (f_trunc f) f then None else Some (word_of_int (f_int f)))"
| "coerceByte _ = None"

text \<open>\<open>None\<close> is the result \<open>(nil, false)\<close>; \<open>Some b\<close> is \<open>(b, true)\<close>.\<close>

fun coerceBytes :: "gval \<Rightarrow> gobytes option" where
  "coerceBytes GNil = Some None"
| "coerceBytes (GBytes b) = Some b"
| "coerceBytes (GBytesPtr p) = (case p of None \<Rightarrow> Some None | Some b \<Rightarrow> Some b)"
| "coerceBytes (GArrayBuffer b) = Some b"
| "coerceBytes (GArrayBufferPtr p) = (case p of None \<Rightarrow> Some None | Some b \<Rightarrow> Some b)"
| "coerceBytes (GPtr None) = Some None"
| "coerceBytes (GPtr (Some v)) = coerceBytes v"
| "coerceBytes (GSlice vs) = map_option Some (those (map coerceByte vs))"
| "coerceBytes (GArray vs) = map_option Some (those (map coerceByte vs))"
| "coerceBytes _ = None"

fun coerceNumber :: "gval \<Rightarrow> float64 option" where
  "coerceNumber (GPtr (Some v)) = coerceNumber v"
| "coerceNumber (GInt k n) = Some (f64_of_int n)"
| "coerceNumber (GUint k n) = Some (f64_of_int n)"
| "coerceNumber (GFloat32 f) = Some f"
| "coerceNumber (GFloat64 f) = Some f"
| "coerceNumber _ = None"

section \<open>Formatting with the verb v\<close>

text \<open>
  \<open>fmt.Appendf(nil, "%v", x)\<close>. The text of pointers and of values outside the bridge's own types
  is a parameter.
\<close>

record fmt_env =
  fmtOther :: "gval \<Rightarrow> string"

fun join_sp :: "string list \<Rightarrow> string" where
  "join_sp [] = []"
| "join_sp [x] = x"
| "join_sp (x # xs) = x @ '' '' @ join_sp xs"

fun fmt_v :: "fmt_env \<Rightarrow> gval \<Rightarrow> string" where
  "fmt_v e GNil = ''<nil>''"
| "fmt_v e (GBool b) = (if b then ''true'' else ''false'')"
| "fmt_v e (GString s) = s"
| "fmt_v e (GInt k n) = itoa n"
| "fmt_v e (GUint k n) = itoa n"
| "fmt_v e (GFloat32 f) = formatFloat_g binary32 f"
| "fmt_v e (GFloat64 f) = formatFloat_g binary64 f"
| "fmt_v e (GBytes b) = ''['' @ join_sp (map (\<lambda>x. itoa (uint x)) (slice_of b)) @ '']''"
| "fmt_v e (GSlice vs) = ''['' @ join_sp (map (fmt_v e) vs) @ '']''"
| "fmt_v e (GArray vs) = ''['' @ join_sp (map (fmt_v e) vs) @ '']''"
| "fmt_v e (GMap kvs) =
     ''map['' @ join_sp (map (\<lambda>(k, s). k @ '':'' @ s)
                  (sort_key fst (map (\<lambda>(k, v). (k, fmt_v e v)) kvs))) @ '']''"
| "fmt_v e v = fmtOther e v"

definition toBytes :: "fmt_env \<Rightarrow> gval \<Rightarrow> gobytes" where
  "toBytes e v =
     (case v of
        GNil \<Rightarrow> None
      | GString s \<Rightarrow> Some (string_bytes s)
      | _ \<Rightarrow> (case coerceBytes v of
               Some b \<Rightarrow> b
             | None \<Rightarrow> (let s = fmt_v e v in if s = [] then None else Some (string_bytes s))))"

section \<open>What a numeric element denotes\<close>

text \<open>
  Specification of the byte coercion: the integer an element stands for, whatever Go type the
  bridge gave it and through however many pointers.
\<close>

fun f_integer :: "float64 \<Rightarrow> int option" where
  "f_integer (Fin x) = (if of_int \<lfloor>x\<rfloor> = x then Some \<lfloor>x\<rfloor> else None)"
| "f_integer NegZero = Some 0"
| "f_integer _ = None"

fun num_value :: "gval \<Rightarrow> int option" where
  "num_value (GPtr (Some v)) = num_value v"
| "num_value (GUint k n) = Some n"
| "num_value (GInt k n) = Some n"
| "num_value (GFloat32 f) = f_integer f"
| "num_value (GFloat64 f) = f_integer f"
| "num_value _ = None"

text \<open>Unsigned values are never negative.\<close>

fun gval_wf :: "gval \<Rightarrow> bool" where
  "gval_wf (GUint k n) = (0 \<le> n)"
| "gval_wf (GPtr (Some v)) = gval_wf v"
| "gval_wf (GSlice vs) = list_all gval_wf vs"
| "gval_wf (GArray vs) = list_all gval_wf vs"
| "gval_wf _ = True"

lemma ceiling_of_int_eq: "of_int \<lfloor>x\<rfloor> = (x::rat) \<Longrightarrow> \<lceil>x\<rceil> = \<lfloor>x\<rfloor>"
  by (metis ceiling_of_int)

lemma of_int_ceiling_floor: "of_int \<lceil>x\<rceil> = (x::rat) \<Longrightarrow> of_int \<lfloor>x\<rfloor> = x"
  by (metis floor_of_int)

lemma f_trunc_eq: "f_eq (f_trunc (Fin x)) (Fin x) \<longleftrightarrow> of_int \<lfloor>x\<rfloor> = x"
  by (auto simp: f_trunc_def ceiling_of_int_eq dest: of_int_ceiling_floor)

lemma f_int_integer: "f_integer f = Some n \<Longrightarrow> f_int f = n"
  by (cases f) (auto simp: f_int_def ceiling_of_int_eq split: if_splits)

lemma float_byte_range:
  "\<not> f < Fin 0 \<and> \<not> f > Fin 255 \<and> f_eq (f_trunc f) f \<longleftrightarrow>
   (\<exists>n. f_integer f = Some n \<and> 0 \<le> n \<and> n \<le> 255)"
proof (cases f)
  case (Fin x)
  have "of_int \<lfloor>x\<rfloor> = x \<Longrightarrow> x \<le> 255 \<longleftrightarrow> \<lfloor>x\<rfloor> \<le> 255"
    by (metis of_int_le_numeral_iff)
  then show ?thesis using Fin by (auto simp: f_trunc_eq float_order)
qed (simp_all add: float_order f_trunc_def)

lemma float_byte_spec:
  "(if f < Fin 0 \<or> f > Fin 255 \<or> \<not> f_eq (f_trunc f) f then None else Some (word_of_int (f_int f))) = Some b
   \<longleftrightarrow> (\<exists>n. f_integer f = Some n \<and> 0 \<le> n \<and> n \<le> 255 \<and> b = word_of_int n)"
  (is "?lhs = Some b \<longleftrightarrow> ?rhs")
proof (cases "f < Fin 0 \<or> f > Fin 255 \<or> \<not> f_eq (f_trunc f) f")
  case True
  then show ?thesis using float_byte_range [of f] by auto
next
  case False
  then show ?thesis using float_byte_range [of f] f_int_integer [of f] by auto
qed

lemma coerceByte_spec:
  assumes "gval_wf v"
  shows "coerceByte v = Some b \<longleftrightarrow> (\<exists>n. num_value v = Some n \<and> 0 \<le> n \<and> n \<le> 255 \<and> b = word_of_int n)"
  using assms
proof (induction v rule: coerceByte.induct)
  case (4 f)
  show ?case unfolding coerceByte.simps num_value.simps by (rule float_byte_spec)
next
  case (5 f)
  show ?case unfolding coerceByte.simps num_value.simps by (rule float_byte_spec)
qed auto

lemma those_eq_Some: "those xs = Some ys \<longleftrightarrow> xs = map Some ys"
  by (induction xs arbitrary: ys) (auto split: option.splits simp: Cons_eq_map_conv)

lemma byte_of_int_uint: "0 \<le> n \<Longrightarrow> n \<le> 255 \<Longrightarrow> (b :: byte) = word_of_int n \<longleftrightarrow> n = uint b"
  by (auto simp: uint_word_of_int)

lemma coerceByte_uint:
  assumes "gval_wf v"
  shows "coerceByte v = Some b \<longleftrightarrow> num_value v = Some (uint b)"
proof -
  have "uint b \<le> 255" using uint_lt2p [of b] by simp
  then show ?thesis
    unfolding coerceByte_spec [OF assms] by (auto simp: byte_of_int_uint)
qed

section \<open>Properties\<close>

text \<open>A slice coming over the bridge is taken as bytes exactly when every element, whatever
  numeric Go type it has (signed, unsigned, float) and through any pointers, denotes an integer
  from 0 to 255, and the bytes are those integers in order. Fractions, NaN, infinities,
  negative or larger numbers and non-numbers make the coercion fail.\<close>

theorem coerceBytes_slice_spec:
  assumes "list_all gval_wf vs"
  shows "coerceBytes (GSlice vs) = Some (Some bs) \<longleftrightarrow> map num_value vs = map (\<lambda>b. Some (uint b)) bs"
  using assms
proof (induction vs arbitrary: bs)
  case (Cons v vs)
  have step: "coerceBytes (GSlice (v # vs)) = Some (Some bs) \<longleftrightarrow>
      (\<exists>b bs'. bs = b # bs' \<and> coerceByte v = Some b \<and> coerceBytes (GSlice vs) = Some (Some bs'))"
    by (auto simp: those_eq_Some Cons_eq_map_conv split: option.splits)
  show ?case
    unfolding step using Cons coerceByte_uint [of v] by (auto simp: Cons_eq_map_conv)
qed (simp add: eq_commute)

theorem coerceBytes_slice_spec_witness:
  "coerceBytes (GSlice [GInt KInt64 255, GFloat64 (Fin 7), GUint KUint8 0]) = Some (Some [255, 7, 0])"
  by (subst coerceBytes_slice_spec) simp_all

lemma toBytes_cases:
  "toBytes e GNil = None \<and>
   toBytes e (GString s) = Some (string_bytes s) \<and>
   toBytes e (GBytes b) = b \<and>
   toBytes e (GArrayBuffer b) = b \<and>
   toBytes e (GBool True) = Some (string_bytes ''true'') \<and>
   toBytes e (GInt k n) = Some (string_bytes (itoa n))"
  by (simp add: toBytes_def)

end
