(* ===== verification/GoTime.thy ===== *)
theory GoTime
  imports GoValue
begin

text \<open>
  \<open>time.ParseDuration\<close> of Go's standard library, which reads the reader's \<open>maxWait\<close> and the
  registry's timeouts are measured with: a signed sequence of decimal numbers, each with a unit,
  summed up in nanoseconds within the range of \<open>int64\<close>.
\<close>

section \<open>Scanning numbers\<close>

definition is_digit :: "char \<Rightarrow> bool" where
  "is_digit c \<longleftrightarrow> 48 \<le> (of_char c :: nat) \<and> (of_char c :: nat) \<le> 57"

definition digit_of :: "char \<Rightarrow> nat" where
  "digit_of c = of_char c - 48"

text \<open>\<open>None\<close> is the overflow error.\<close>

fun leadingInt :: "nat \<Rightarrow> string \<Rightarrow> (nat \<times> string) option" where
  "leadingInt x [] = Some (x, [])"
| "leadingInt x (c # s) =
     (if \<not> is_digit c then Some (x, c # s)
      else if x > 2 ^ 63 div 10 then None
      else let x = x * 10 + digit_of c in if x > 2 ^ 63 then None else leadingInt x s)"

text \<open>Digits that no longer fit are skipped; the scale is the power of ten of the digits kept.\<close>

fun leadingFraction :: "nat \<Rightarrow> nat \<Rightarrow> bool \<Rightarrow> string \<Rightarrow> nat \<times> nat \<times> string" where
  "leadingFraction x scale overflow [] = (x, scale, [])"
| "leadingFraction x scale overflow (c # s) =
     (if \<not> is_digit c then (x, scale, c # s)
      else if overflow then leadingFraction x scale overflow s
      else if x > (2 ^ 63 - 1) div 10 then leadingFraction x scale True s
      else let y = x * 10 + digit_of c in
           if y > 2 ^ 63 then leadingFraction x scale True s
           else leadingFraction y (scale * 10) overflow s)"

lemma leadingInt_length: "leadingInt x s = Some (y, r) \<Longrightarrow> length r \<le> length s"
  by (induction x s rule: leadingInt.induct) (auto simp: Let_def split: if_splits)

lemma leadingFraction_length: "leadingFraction x sc ov s = (y, sc', r) \<Longrightarrow> length r \<le> length s"
  by (induction x sc ov s rule: leadingFraction.induct) (auto simp: Let_def split: if_splits)

section \<open>Units\<close>

definition unitMap :: "(string \<times> nat) list" where
  "unitMap = [(''ns'', 1), (''us'', 1000), ([CHR 0xC2, CHR 0xB5, CHR ''s''], 1000),
     ([CHR 0xCE, CHR 0xBC, CHR ''s''], 1000), (''ms'', 1000000), (''s'', 1000000000),
     (''m'', 60000000000), (''h'', 3600000000000)]"

text \<open>The fractional part, computed in floating point: \<open>uint64(float64(f) * (float64(unit) / scale))\<close>.\<close>

definition fround :: "rat \<Rightarrow> rat" where
  "fround x = (case round_float 53 (-1022) 1023 x of Fin y \<Rightarrow> y | _ \<Rightarrow> 0)"

definition fraction_nanos :: "nat \<Rightarrow> nat \<Rightarrow> nat \<Rightarrow> nat" where
  "fraction_nanos f un scale = nat \<lfloor>fround (fround (of_nat f) * fround (of_nat un / of_nat scale))\<rfloor>"

section \<open>Parsing\<close>

definition unit_char :: "char \<Rightarrow> bool" where
  "unit_char c \<longleftrightarrow> c \<noteq> CHR ''.'' \<and> \<not> is_digit c"

definition invalid_duration :: "string \<Rightarrow> go_error" where
  "invalid_duration orig = Errorf ''time: invalid duration %q'' [AStr orig]"

text \<open>The number of one component with its fraction: value, fraction, scale and what follows.\<close>

definition parseNumber :: "string \<Rightarrow> (nat \<times> nat \<times> nat \<times> string) option" where
  "parseNumber s =
     (case s of [] \<Rightarrow> None
      | c # _ \<Rightarrow>
         if \<not> (c = CHR ''.'' \<or> is_digit c) then None
         else case leadingInt 0 s of
           None \<Rightarrow> None
         | Some (v, s1) \<Rightarrow>
            (let pre = length s1 \<noteq> length s;
                 (f, scale, s2, post) =
                   (case s1 of [] \<Rightarrow> (0, 1, s1, False)
                    | d # s1' \<Rightarrow>
                       if d = CHR ''.''
                       then (let (f, scale, s2) = leadingFraction 0 1 False s1'
                             in (f, scale, s2, length s2 \<noteq> length s1'))
                       else (0, 1, s1, False))
             in if \<not> pre \<and> \<not> post then None else Some (v, f, scale, s2)))"

lemma parseNumber_length: "parseNumber s = Some (v, f, sc, r) \<Longrightarrow> length r \<le> length s"
  by (auto simp: parseNumber_def Let_def split: list.splits if_splits option.splits prod.splits
      dest!: leadingInt_length leadingFraction_length)

function parseUnits :: "string \<Rightarrow> nat \<Rightarrow> string \<Rightarrow> nat res" where
  "parseUnits orig d s =
     (if s = [] then Inr d
      else case parseNumber s of
        None \<Rightarrow> Inl (invalid_duration orig)
      | Some (v, f, scale, r) \<Rightarrow>
         (let u = takeWhile unit_char r; r' = dropWhile unit_char r in
          if u = [] then Inl (Errorf ''time: missing unit in duration %q'' [AStr orig])
          else case map_of unitMap u of
            None \<Rightarrow> Inl (Errorf ''time: unknown unit %q in duration %q'' [AStr u, AStr orig])
          | Some un \<Rightarrow>
             (if v > 2 ^ 63 div un then Inl (invalid_duration orig)
              else let v1 = v * un; v2 = (if f > 0 then v1 + fraction_nanos f un scale else v1) in
                if v2 > 2 ^ 63 then Inl (invalid_duration orig)
                else let d = (d + v2) mod 2 ^ 64 in
                     if d > 2 ^ 63 then Inl (invalid_duration orig) else parseUnits orig d r')))"
  by pat_completeness auto
termination
proof (relation "measure (\<lambda>(_, _, s). length s)", goal_cases)
  case (2 orig d s y v f1 f scale s1 r u r')
  have "r = u @ r'" using 2(6,7) by simp
  then have "length r' < length r" using 2(8) by simp
  then show ?case using parseNumber_length 2 by fastforce
qed simp

declare parseUnits.simps [simp del]

definition ParseDuration :: "string \<Rightarrow> int res" where
  "ParseDuration orig =
     (let (neg, s) = (case orig of [] \<Rightarrow> (False, orig)
                      | c # s \<Rightarrow> if c = CHR ''-'' \<or> c = CHR ''+'' then (c = CHR ''-'', s) else (False, orig))
      in if s = ''0'' then Inr 0
         else if s = [] then Inl (invalid_duration orig)
         else case parseUnits orig 0 s of
           Inl err \<Rightarrow> Inl err
         | Inr d \<Rightarrow>
            if neg then Inr (wrap64 (- int d))
            else if d > 2 ^ 63 - 1 then Inl (invalid_duration orig)
            else Inr (int d))"

section \<open>Durations with one unit\<close>

lemma foldl_decimal_ge: "(x :: nat) \<le> foldl (\<lambda>a c. 10 * a + (of_char c - 48)) x (s :: string)"
proof (induction s arbitrary: x)
  case (Cons c s)
  have "x \<le> 10 * x + (of_char c - 48)" by simp
  also have "\<dots> \<le> foldl (\<lambda>a c. 10 * a + (of_char c - 48)) (10 * x + (of_char c - 48)) s" by (rule Cons.IH)
  finally show ?case by simp
qed simp

lemma leadingInt_digits:
  assumes "\<forall>c\<in>set s. is_digit c" and "u = [] \<or> \<not> is_digit (hd u)"
    and "foldl (\<lambda>a c. 10 * a + (of_char c - 48)) x s \<le> 2 ^ 63"
  shows "leadingInt x (s @ u) = Some (foldl (\<lambda>a c. 10 * a + (of_char c - 48)) x s, u)"
  using assms
proof (induction s arbitrary: x)
  case Nil
  then show ?case by (cases u) auto
next
  case (Cons c s)
  let ?x = "10 * x + (of_char c - 48)"
  have "?x \<le> 2 ^ 63" using Cons.prems(3) foldl_decimal_ge [of ?x s] by simp
  then show ?case
    using Cons.IH [of ?x] Cons.prems by (simp add: digit_of_def mult.commute)
qed

lemma dec_digits_is_digit: "\<forall>c\<in>set (dec_digits n). is_digit c"
  using dec_digits_chars [of _ n] by (auto simp: is_digit_def)

lemma parseNumber_decimal:
  assumes "u \<noteq> []" and "unit_char (hd u)" and "n \<le> 2 ^ 63"
  shows "parseNumber (dec_digits n @ u) = Some (n, 0, 1, u)"
proof -
  have "leadingInt 0 (dec_digits n @ u) = Some (n, u)"
    using leadingInt_digits [OF dec_digits_is_digit, of u 0 n] assms undec_digits [of n]
    by (simp add: unit_char_def undec_def)
  moreover have "is_digit (hd (dec_digits n))"
    using dec_digits_is_digit [of n] by (simp add: hd_in_set)
  ultimately show ?thesis
    using assms by (cases "dec_digits n"; cases u) (auto simp: parseNumber_def Let_def unit_char_def)
qed

lemma unitMap_unit_chars:
  assumes "map_of unitMap u = Some k"
  shows "u \<noteq> []" and "takeWhile unit_char u = u" and "0 < k"
  using assms by (auto simp: unitMap_def unit_char_def is_digit_def split: if_splits)

lemma parseUnits_Nil: "parseUnits orig d [] = Inr d"
  by (subst parseUnits.simps) simp

text \<open>A whole number followed by a unit is that many units, up to the range of \<open>int64\<close>.\<close>

lemma ParseDuration_decimal:
  assumes "map_of unitMap u = Some k" and "n * k < 2 ^ 63"
  shows "ParseDuration (dec_digits n @ u) = Inr (int (n * k))"
proof -
  note u = unitMap_unit_chars [OF assms(1)]
  have all: "\<forall>c\<in>set u. unit_char c" using u(2) by (simp add: takeWhile_eq_all_conv)
  have n: "n \<le> 2 ^ 63 div k" using assms(2) u(3) by (simp add: less_eq_div_iff_mult_less_eq)
  also have "\<dots> \<le> 2 ^ 63" by (rule div_le_dividend)
  finally have pn: "parseNumber (dec_digits n @ u) = Some (n, 0, 1, u)"
    using u(1) all by (intro parseNumber_decimal) simp_all
  have dw: "dropWhile unit_char u = []" using all by (simp add: dropWhile_eq_Nil_conv)
  have lim: "\<not> 2 ^ 63 div k < n" "\<not> 2 ^ 63 < n * k" "n * k mod 2 ^ 64 = n * k"
    using n assms(2) by simp_all
  have pu: "parseUnits orig 0 (dec_digits n @ u) = Inr (n * k)" for orig
    using u(1) assms(1) lim by (subst parseUnits.simps) (simp add: pn u(2) dw Let_def parseUnits_Nil)
  have h: "is_digit (hd (dec_digits n))" using dec_digits_is_digit [of n] by (simp add: hd_in_set)
  obtain c s where s: "dec_digits n @ u = c # s" by (cases "dec_digits n @ u") auto
  then have c: "is_digit c" using h by (cases "dec_digits n") auto
  have "s \<noteq> []" using s u(1) by (cases "dec_digits n") auto
  then have z: "dec_digits n @ u \<noteq> ''0''" using s by simp
  have "c \<noteq> CHR ''-''" "c \<noteq> CHR ''+''" using c by (auto simp: is_digit_def)
  then show ?thesis
    using pu z assms(2) unfolding ParseDuration_def s by (auto simp: Let_def)
qed

end
