(* ===== verification/Constants.thy ===== *)
theory Constants
  imports Prelude
begin

text \<open>
  \<open>constants.go\<close>: the string constants of the contract and \<open>moduleConstants\<close>, the flat map
  of names to values that the module exports. Time units are nanosecond counts.
\<close>

section \<open>Values\<close>


text \<open>Compression codecs.\<close>

definition codecGzip :: string where "codecGzip = ''gzip''"
definition codecSnappy :: string where "codecSnappy = ''snappy''"
definition codecLz4 :: string where "codecLz4 = ''lz4''"
definition codecZstd :: string where "codecZstd = ''zstd''"

text \<open>SASL mechanisms.\<close>

definition saslNone :: string where "saslNone = ''none''"
definition saslPlain :: string where "saslPlain = ''sasl_plain''"
definition saslScramSha256 :: string where "saslScramSha256 = ''sasl_scram_sha256''"
definition saslScramSha512 :: string where "saslScramSha512 = ''sasl_scram_sha512''"
definition saslSsl :: string where "saslSsl = ''sasl_ssl''"
definition saslAwsIam :: string where "saslAwsIam = ''sasl_aws_iam''"

text \<open>TLS versions.\<close>

definition tls10 :: string where "tls10 = ''tlsv1.0''"
definition tls11 :: string where "tls11 = ''tlsv1.1''"
definition tls12 :: string where "tls12 = ''tlsv1.2''"
definition tls13 :: string where "tls13 = ''tlsv1.3''"

text \<open>Element types.\<close>

definition elementKey :: string where "elementKey = ''key''"
definition elementValue :: string where "elementValue = ''value''"

text \<open>Isolation levels.\<close>

definition isolationReadUncommitted :: string where "isolationReadUncommitted = ''isolation_level_read_uncommitted''"
definition isolationReadCommitted :: string where "isolationReadCommitted = ''isolation_level_read_committed''"

text \<open>Start offsets.\<close>

definition startOffsetFirst :: string where "startOffsetFirst = ''start_offsets_first_offset''"
definition startOffsetLast :: string where "startOffsetLast = ''start_offsets_last_offset''"

text \<open>Subject name strategies.\<close>

definition topicNameStrategy :: string where "topicNameStrategy = ''TopicNameStrategy''"
definition recordNameStrategy :: string where "recordNameStrategy = ''RecordNameStrategy''"
definition topicRecordNameStrategy :: string where "topicRecordNameStrategy = ''TopicRecordNameStrategy''"

text \<open>Balancers.\<close>

definition balancerRoundRobin :: string where "balancerRoundRobin = ''balancer_roundrobin''"
definition balancerLeastBytes :: string where "balancerLeastBytes = ''balancer_leastbytes''"
definition balancerHash :: string where "balancerHash = ''balancer_hash''"
definition balancerCrc32 :: string where "balancerCrc32 = ''balancer_crc32''"
definition balancerMurmur2 :: string where "balancerMurmur2 = ''balancer_murmur2''"

text \<open>Group balancers.\<close>

definition groupBalancerRange :: string where "groupBalancerRange = ''group_balancer_range''"
definition groupBalancerRoundRobin :: string where "groupBalancerRoundRobin = ''group_balancer_round_robin''"
definition groupBalancerRackAffinity :: string where "groupBalancerRackAffinity = ''group_balancer_rack_affinity''"

text \<open>Schema types.\<close>

definition schemaTypeString :: string where "schemaTypeString = ''STRING''"
definition schemaTypeBytes :: string where "schemaTypeBytes = ''BYTES''"
definition schemaTypeAvro :: string where "schemaTypeAvro = ''AVRO''"
definition schemaTypeJSON :: string where "schemaTypeJSON = ''JSON''"
definition schemaTypeProtobuf :: string where "schemaTypeProtobuf = ''PROTOBUF''"

lemmas constant_defs [simp] =
  codecGzip_def codecSnappy_def codecLz4_def codecZstd_def
  saslNone_def saslPlain_def saslScramSha256_def saslScramSha512_def
  saslSsl_def saslAwsIam_def tls10_def tls11_def
  tls12_def tls13_def elementKey_def elementValue_def
  isolationReadUncommitted_def isolationReadCommitted_def startOffsetFirst_def startOffsetLast_def
  topicNameStrategy_def recordNameStrategy_def topicRecordNameStrategy_def balancerRoundRobin_def
  balancerLeastBytes_def balancerHash_def balancerCrc32_def balancerMurmur2_def
  groupBalancerRange_def groupBalancerRoundRobin_def groupBalancerRackAffinity_def schemaTypeString_def
  schemaTypeBytes_def schemaTypeAvro_def schemaTypeJSON_def schemaTypeProtobuf_def

section \<open>Exports\<close>

datatype const_value = CStr string | CInt int

definition moduleConstants :: "(string \<times> const_value) list" where
  "moduleConstants = [
     (''CODEC_GZIP'', CStr codecGzip),
     (''CODEC_SNAPPY'', CStr codecSnappy),
     (''CODEC_LZ4'', CStr codecLz4),
     (''CODEC_ZSTD'', CStr codecZstd),
     (''NONE'', CStr saslNone),
     (''SASL_PLAIN'', CStr saslPlain),
     (''SASL_SCRAM_SHA256'', CStr saslScramSha256),
     (''SASL_SCRAM_SHA512'', CStr saslScramSha512),
     (''SASL_SSL'', CStr saslSsl),
     (''SASL_AWS_IAM'', CStr saslAwsIam),
     (''TLS_1_0'', CStr tls10),
     (''TLS_1_1'', CStr tls11),
     (''TLS_1_2'', CStr tls12),
     (''TLS_1_3'', CStr tls13),
     (''KEY'', CStr elementKey),
     (''VALUE'', CStr elementValue),
     (''ISOLATION_LEVEL_READ_UNCOMMITTED'', CStr isolationReadUncommitted),
     (''ISOLATION_LEVEL_READ_COMMITTED'', CStr isolationReadCommitted),
     (''START_OFFSETS_FIRST_OFFSET'', CStr startOffsetFirst),
     (''START_OFFSETS_LAST_OFFSET'', CStr startOffsetLast),
     (''FIRST_OFFSET'', CStr startOffsetFirst),
     (''LAST_OFFSET'', CStr startOffsetLast),
     (''TOPIC_NAME_STRATEGY'', CStr topicNameStrategy),
     (''RECORD_NAME_STRATEGY'', CStr recordNameStrategy),
     (''TOPIC_RECORD_NAME_STRATEGY'', CStr topicRecordNameStrategy),
     (''BALANCER_ROUND_ROBIN'', CStr balancerRoundRobin),
     (''BALANCER_LEAST_BYTES'', CStr balancerLeastBytes),
     (''BALANCER_HASH'', CStr balancerHash),
     (''BALANCER_CRC32'', CStr balancerCrc32),
     (''BALANCER_MURMUR2'', CStr balancerMurmur2),
     (''GROUP_BALANCER_RANGE'', CStr groupBalancerRange),
     (''GROUP_BALANCER_ROUND_ROBIN'', CStr groupBalancerRoundRobin),
     (''GROUP_BALANCER_RACK_AFFINITY'', CStr groupBalancerRackAffinity),
     (''SCHEMA_TYPE_STRING'', CStr schemaTypeString),
     (''SCHEMA_TYPE_BYTES'', CStr schemaTypeBytes),
     (''SCHEMA_TYPE_AVRO'', CStr schemaTypeAvro),
     (''SCHEMA_TYPE_JSON'', CStr schemaTypeJSON),
     (''SCHEMA_TYPE_PROTOBUF'', CStr schemaTypeProtobuf),
     (''NANOSECOND'', CInt 1),
     (''MICROSECOND'', CInt 1000),
     (''MILLISECOND'', CInt 1000000),
     (''SECOND'', CInt 1000000000),
     (''MINUTE'', CInt 60000000000),
     (''HOUR'', CInt 3600000000000)]"

end
