(* ===== verification/Client.thy ===== *)
theory Client
  imports Constants
begin

text \<open>
  \<open>config.go\<close>, \<open>sasl.go\<close>, \<open>tlsconfig.go\<close> and \<open>client.go\<close>: the authentication settings, the
  choice of a SASL mechanism, the TLS configuration and the client options every class of the
  module starts from. The locale \<open>client_builder\<close> is the contract of the three classes that
  build a client: their options extend those of \<open>clientOptions\<close> and add no security option
  of their own.
\<close>

section \<open>Configuration\<close>

record SASLConfig =
  saslUsername :: string
  saslPassword :: string
  saslAlgorithm :: string
  saslAWSProfile :: string

record TLSConfig =
  tlsEnableTLS :: bool
  tlsInsecureSkipTLSVerify :: bool
  tlsMinVersion :: string
  tlsClientCertPem :: string
  tlsClientKeyPem :: string
  tlsServerCaPem :: string

section \<open>Library values\<close>

text \<open>
  The values the code asks franz-go and crypto/tls to build; a constructor stands for the call
  that makes the value.
\<close>

datatype sasl_mechanism =
    PlainMechanism string string
  | ScramSha256Mechanism string string
  | ScramSha512Mechanism string string

datatype certificate = X509KeyPair string string
datatype cert_pool = CertPool string

record tls_Config =
  cfgInsecureSkipVerify :: bool
  cfgMinVersion :: int
  cfgCertificates :: "certificate list"
  cfgRootCAs :: "cert_pool option"

datatype acks = AllISRAcks | NoAck | LeaderAck
datatype compression = GzipCompression | SnappyCompression | Lz4Compression | ZstdCompression
datatype partitioner = RoundRobinPartitioner | LeastBackupPartitioner | StickyKeyPartitioner
datatype isolation = ReadCommitted | ReadUncommitted
datatype offset = AtStart | AtEnd | At int
datatype group_balancer = RangeBalancer | RoundRobinBalancer

datatype kgo_opt =
    SeedBrokers "string list"
  | DialTLSConfig tls_Config
  | SASL sasl_mechanism
  | WithHooks
  | DefaultProduceTopic string
  | AllowAutoTopicCreation
  | ProducerBatchCompression compression
  | RecordPartitioner partitioner
  | DisableIdempotentWrite
  | RequiredAcks acks
  | RecordRetries int
  | UnknownTopicRetries int
  | ProducerBatchMaxBytes int
  | ProducerLinger int
  | ProduceRequestTimeout int
  | FetchMinBytes int
  | FetchMaxBytes int
  | FetchMaxWait int
  | FetchIsolationLevel isolation
  | RequestRetries int
  | ConsumerGroup string
  | ConsumeTopics "string list"
  | ConsumeResetOffset offset
  | Balancers "group_balancer list"
  | HeartbeatInterval int
  | SessionTimeout int
  | RebalanceTimeout int
  | AutoCommitInterval int
  | ConsumePartitions "(string \<times> (int \<times> offset) list) list"

text \<open>
  Whether a certificate and key form a pair, and whether a PEM text holds a certificate, is the
  business of crypto/tls and crypto/x509: \<open>keyPairErr\<close> is the error of \<open>tls.X509KeyPair\<close>
  (\<open>None\<close> for success) and \<open>pemHasCerts\<close> the result of \<open>AppendCertsFromPEM\<close>.
\<close>

record crypto =
  keyPairErr :: "string \<Rightarrow> string \<Rightarrow> go_error option"
  pemHasCerts :: "string \<Rightarrow> bool"

section \<open>SASL\<close>

definition errAWSIAMNotImplemented :: go_error where
  "errAWSIAMNotImplemented = ErrNew ''SASL_AWS_IAM is not yet implemented''"

definition buildSASL :: "SASLConfig option \<Rightarrow> bool \<Rightarrow> sasl_mechanism option res" where
  "buildSASL sc tlsEnabled =
     (case sc of
        None \<Rightarrow> Inr None
      | Some c \<Rightarrow>
          if saslAlgorithm c = '''' \<or> saslAlgorithm c = saslNone then Inr None
          else if saslAlgorithm c = saslPlain
          then Inr (Some (PlainMechanism (saslUsername c) (saslPassword c)))
          else if saslAlgorithm c = saslSsl
          then (if \<not> tlsEnabled then Inl (ErrNew ''sasl_ssl requires TLS to be enabled'')
                else Inr (Some (PlainMechanism (saslUsername c) (saslPassword c))))
          else if saslAlgorithm c = saslScramSha256
          then Inr (Some (ScramSha256Mechanism (saslUsername c) (saslPassword c)))
          else if saslAlgorithm c = saslScramSha512
          then Inr (Some (ScramSha512Mechanism (saslUsername c) (saslPassword c)))
          else if saslAlgorithm c = saslAwsIam then Inl errAWSIAMNotImplemented
          else Inl (Errorf ''unknown SASL algorithm %q'' [AStr (saslAlgorithm c)]))"

section \<open>TLS\<close>

definition tlsVersion :: "string \<Rightarrow> int res" where
  "tlsVersion name =
     (if name = tls10 then Inr 0x0301
      else if name = tls11 then Inr 0x0302
      else if name = tls12 then Inr 0x0303
      else if name = tls13 then Inr 0x0304
      else Inl (Errorf ''unknown TLS version %q'' [AStr name]))"

definition emptyTLSConfig :: tls_Config where
  "emptyTLSConfig = \<lparr>cfgInsecureSkipVerify = False, cfgMinVersion = 0, cfgCertificates = [], cfgRootCAs = None\<rparr>"

definition tlsConfigFrom :: "crypto \<Rightarrow> TLSConfig \<Rightarrow> tls_Config res" where
  "tlsConfigFrom cr tc =
     (let cfg = emptyTLSConfig;
          cfg = (if tlsInsecureSkipTLSVerify tc then cfg\<lparr>cfgInsecureSkipVerify := True\<rparr> else cfg);
          r1 = (if tlsMinVersion tc \<noteq> '''' then
                  (case tlsVersion (tlsMinVersion tc) of
                     Inl err \<Rightarrow> Inl err
                   | Inr v \<Rightarrow> Inr (cfg\<lparr>cfgMinVersion := v\<rparr>))
                else Inr cfg);
          r2 = (case r1 of Inl err \<Rightarrow> Inl err | Inr cfg \<Rightarrow>
                  if tlsClientCertPem tc \<noteq> '''' \<or> tlsClientKeyPem tc \<noteq> '''' then
                    (case keyPairErr cr (tlsClientCertPem tc) (tlsClientKeyPem tc) of
                       Some err \<Rightarrow> Inl (Wrapf ''loading client certificate and key: %w'' [] err)
                     | None \<Rightarrow> Inr (cfg\<lparr>cfgCertificates :=
                                  [X509KeyPair (tlsClientCertPem tc) (tlsClientKeyPem tc)]\<rparr>))
                  else Inr cfg)
      in case r2 of Inl err \<Rightarrow> Inl err | Inr cfg \<Rightarrow>
           if tlsServerCaPem tc \<noteq> '''' then
             (if \<not> pemHasCerts cr (tlsServerCaPem tc) then Inl (ErrNew ''invalid server CA PEM'')
              else Inr (cfg\<lparr>cfgRootCAs := Some (CertPool (tlsServerCaPem tc))\<rparr>))
           else Inr cfg)"

definition buildTLSConfig :: "crypto \<Rightarrow> TLSConfig option \<Rightarrow> tls_Config option res" where
  "buildTLSConfig cr tc =
     (case tc of
        None \<Rightarrow> Inr None
      | Some c \<Rightarrow>
          if \<not> tlsEnableTLS c then Inr None
          else (case tlsConfigFrom cr c of Inl err \<Rightarrow> Inl err | Inr cfg \<Rightarrow> Inr (Some cfg)))"

section \<open>Client options\<close>

definition clientOptions ::
  "crypto \<Rightarrow> string list \<Rightarrow> SASLConfig option \<Rightarrow> TLSConfig option \<Rightarrow> kgo_opt list res" where
  "clientOptions cr brokers sc tc =
     (let opts = [SeedBrokers brokers] in
      case buildTLSConfig cr tc of
        Inl err \<Rightarrow> Inl err
      | Inr tlsCfg \<Rightarrow>
          (let opts = (case tlsCfg of None \<Rightarrow> opts | Some t \<Rightarrow> opts @ [DialTLSConfig t]) in
           case buildSASL sc (tlsCfg \<noteq> None) of
             Inl err \<Rightarrow> Inl err
           | Inr mech \<Rightarrow> Inr (case mech of None \<Rightarrow> opts | Some m \<Rightarrow> opts @ [SASL m])))"

section \<open>Specification of the TLS settings\<close>

text \<open>What a TLS configuration must be, field by field, and when it can be built at all.\<close>

definition min_version_ok :: "string \<Rightarrow> bool" where
  "min_version_ok v \<longleftrightarrow> v \<in> {'''', tls10, tls11, tls12, tls13}"

definition min_version_number :: "string \<Rightarrow> int" where
  "min_version_number v =
     (if v = tls10 then 0x0301 else if v = tls11 then 0x0302
      else if v = tls12 then 0x0303 else if v = tls13 then 0x0304 else 0)"

definition tls_material_ok :: "crypto \<Rightarrow> TLSConfig \<Rightarrow> bool" where
  "tls_material_ok cr tc \<longleftrightarrow>
     min_version_ok (tlsMinVersion tc) \<and>
     (tlsClientCertPem tc = '''' \<and> tlsClientKeyPem tc = '''' \<or>
      keyPairErr cr (tlsClientCertPem tc) (tlsClientKeyPem tc) = None) \<and>
     (tlsServerCaPem tc = '''' \<or> pemHasCerts cr (tlsServerCaPem tc))"

definition tls_config_spec :: "TLSConfig \<Rightarrow> tls_Config" where
  "tls_config_spec tc =
     \<lparr>cfgInsecureSkipVerify = tlsInsecureSkipTLSVerify tc,
      cfgMinVersion = min_version_number (tlsMinVersion tc),
      cfgCertificates =
        (if tlsClientCertPem tc = '''' \<and> tlsClientKeyPem tc = '''' then []
         else [X509KeyPair (tlsClientCertPem tc) (tlsClientKeyPem tc)]),
      cfgRootCAs = (if tlsServerCaPem tc = '''' then None else Some (CertPool (tlsServerCaPem tc)))\<rparr>"

lemma tlsVersion_cases:
  "v \<noteq> '''' \<Longrightarrow> tlsVersion v =
     (if min_version_ok v then Inr (min_version_number v) else Inl (Errorf ''unknown TLS version %q'' [AStr v]))"
  by (simp add: tlsVersion_def min_version_ok_def min_version_number_def del: constant_defs)

lemma tlsConfigFrom_ok:
  "tlsConfigFrom cr tc = Inr cfg \<longleftrightarrow> tls_material_ok cr tc \<and> cfg = tls_config_spec tc"
proof -
  have mv: "min_version_ok []" "min_version_number [] = 0"
    by (simp_all add: min_version_ok_def min_version_number_def)
  show ?thesis
    by (cases "tlsMinVersion tc = []"; cases "tlsClientCertPem tc = [] \<and> tlsClientKeyPem tc = []";
        cases "tlsServerCaPem tc = []"; cases "tlsInsecureSkipTLSVerify tc";
        cases "keyPairErr cr (tlsClientCertPem tc) (tlsClientKeyPem tc)";
        auto simp: tlsConfigFrom_def emptyTLSConfig_def tls_material_ok_def tls_config_spec_def
          tlsVersion_cases mv Let_def simp del: constant_defs)
qed

lemma clientOptions_ok:
  "clientOptions cr b sc tc = Inr opts \<longleftrightarrow>
     (\<exists>t m. buildTLSConfig cr tc = Inr t \<and> buildSASL sc (t \<noteq> None) = Inr m \<and>
       opts = SeedBrokers b # map DialTLSConfig (case t of None \<Rightarrow> [] | Some x \<Rightarrow> [x])
                @ map SASL (case m of None \<Rightarrow> [] | Some x \<Rightarrow> [x]))"
  by (auto simp: clientOptions_def Let_def split: sum.splits option.splits)

section \<open>The contract of a client builder\<close>

fun security_opt :: "kgo_opt \<Rightarrow> bool" where
  "security_opt (SeedBrokers _) = True"
| "security_opt (DialTLSConfig _) = True"
| "security_opt (SASL _) = True"
| "security_opt _ = False"

locale client_builder =
  fixes build :: "'cfg \<Rightarrow> kgo_opt list res"
    and brokers_of :: "'cfg \<Rightarrow> string list"
    and sasl_of :: "'cfg \<Rightarrow> SASLConfig option"
    and tls_of :: "'cfg \<Rightarrow> TLSConfig option"
    and cr :: crypto
  assumes extends: "build cfg = Inr opts \<Longrightarrow>
      \<exists>base rest. clientOptions cr (brokers_of cfg) (sasl_of cfg) (tls_of cfg) = Inr base \<and>
        opts = base @ rest \<and> list_all (\<lambda>x. \<not> security_opt x) rest"
    and base_error: "clientOptions cr (brokers_of cfg) (sasl_of cfg) (tls_of cfg) = Inl e \<Longrightarrow> build cfg = Inl e"
begin

text \<open>The security options of the client are exactly those of \<open>clientOptions\<close>.\<close>

lemma security_exact:
  assumes "build cfg = Inr opts"
  shows "clientOptions cr (brokers_of cfg) (sasl_of cfg) (tls_of cfg) = Inr (filter security_opt opts)"
proof -
  obtain base rest where b: "clientOptions cr (brokers_of cfg) (sasl_of cfg) (tls_of cfg) = Inr base"
    and o: "opts = base @ rest" and r: "list_all (\<lambda>x. \<not> security_opt x) rest"
    using extends [OF assms] by blast
  have "filter security_opt rest = []" using r by (simp add: filter_empty_conv list_all_iff)
  moreover have "filter security_opt base = base"
    using b by (auto simp: clientOptions_ok filter_id_conv split: option.splits)
  ultimately show ?thesis using b o by simp
qed

lemma tls_used_iff:
  assumes "build cfg = Inr opts"
  shows "(\<exists>t. DialTLSConfig t \<in> set opts) \<longleftrightarrow> (\<exists>c. tls_of cfg = Some c \<and> tlsEnableTLS c)"
proof -
  define F where "F = filter security_opt opts"
  have s: "clientOptions cr (brokers_of cfg) (sasl_of cfg) (tls_of cfg) = Inr F"
    using security_exact [OF assms] by (simp add: F_def)
  have "(\<exists>t. DialTLSConfig t \<in> set opts) \<longleftrightarrow> (\<exists>t. DialTLSConfig t \<in> set F)"
    by (auto simp: F_def)
  also have "\<dots> \<longleftrightarrow> (\<exists>c. tls_of cfg = Some c \<and> tlsEnableTLS c)"
    using s by (auto simp: clientOptions_ok buildTLSConfig_def split: option.splits if_splits sum.splits)
  finally show ?thesis .
qed

text \<open>Credentials of \<open>sasl_ssl\<close> are never sent on an unencrypted connection.\<close>

lemma sasl_ssl_encrypted:
  assumes "build cfg = Inr opts" and "sasl_of cfg = Some sc" and "saslAlgorithm sc = saslSsl"
  shows "\<exists>t. DialTLSConfig t \<in> set opts"
proof -
  from security_exact [OF assms(1)] obtain t m
    where "buildTLSConfig cr (tls_of cfg) = Inr t" and m: "buildSASL (Some sc) (t \<noteq> None) = Inr m"
      and f: "filter security_opt opts = SeedBrokers (brokers_of cfg) #
            map DialTLSConfig (case t of None \<Rightarrow> [] | Some x \<Rightarrow> [x]) @ map SASL (case m of None \<Rightarrow> [] | Some x \<Rightarrow> [x])"
    using assms(2) by (auto simp: clientOptions_ok)
  from m assms(3) obtain x where "t = Some x" by (cases t) (auto simp: buildSASL_def)
  then have "DialTLSConfig x \<in> set (filter security_opt opts)" using f by simp
  then show ?thesis by auto
qed

end

section \<open>Properties\<close>

text \<open>C27: \<open>tlsConfigFrom\<close> succeeds exactly on usable material (a known or empty minimum version, a
  matching certificate and key when either is given, a CA text with a certificate when one is
  given), and the configuration then has exactly the requested version, client certificate, CA
  pool and verification switch; nothing is dropped.\<close>

theorem tls_config_exact:
  "(is_ok (tlsConfigFrom cr tc) \<longleftrightarrow> tls_material_ok cr tc) \<and>
   (tls_material_ok cr tc \<longrightarrow> tlsConfigFrom cr tc = Inr (tls_config_spec tc))"
  by (auto simp: is_ok_iff tlsConfigFrom_ok)

theorem tls_config_exact_witness:
  "tlsConfigFrom \<lparr>keyPairErr = (\<lambda>_ _. None), pemHasCerts = (\<lambda>_. True)\<rparr>
     \<lparr>tlsEnableTLS = False, tlsInsecureSkipTLSVerify = True, tlsMinVersion = ''tlsv1.3'',
      tlsClientCertPem = ''c'', tlsClientKeyPem = ''k'', tlsServerCaPem = ''ca''\<rparr> =
   Inr \<lparr>cfgInsecureSkipVerify = True, cfgMinVersion = 0x0304,
        cfgCertificates = [X509KeyPair ''c'' ''k''], cfgRootCAs = Some (CertPool ''ca'')\<rparr>"
  using tls_config_exact [of "\<lparr>keyPairErr = (\<lambda>_ _. None), pemHasCerts = (\<lambda>_. True)\<rparr>"
     "\<lparr>tlsEnableTLS = False, tlsInsecureSkipTLSVerify = True, tlsMinVersion = ''tlsv1.3'',
      tlsClientCertPem = ''c'', tlsClientKeyPem = ''k'', tlsServerCaPem = ''ca''\<rparr>"]
  by (simp add: tls_material_ok_def tls_config_spec_def min_version_ok_def min_version_number_def)

end
