(* ===== verification/Metrics.thy ===== *)
theory Metrics
  imports GoValue
begin

text \<open>
  \<open>metrics.go\<close>: the k6 metric handles, the collector that franz-go hooks fill off the VU
  goroutine and that produce, consume and close drain into samples. Each hook and the draining
  loop run under the collector's mutex, so an execution is an interleaving of atomic events;
  \<open>collector_run\<close> is such an interleaving. The locale \<open>drained_metric\<close> states what it means
  that nothing observed is lost or reported twice, and is interpreted for every hook metric.
\<close>

section \<open>Metric handles\<close>

datatype metric_type = Counter | Trend
datatype value_type = DefaultValue | TimeValue | DataValue

text \<open>A handle is what \<open>MustNewMetric\<close> returns for a name, a type and a kind of value.\<close>

datatype metric = Metric string metric_type value_type

record kafkaMetrics =
  kmWriterMessageCount :: metric
  kmWriterMessageBytes :: metric
  kmWriterWriteCount :: metric
  kmWriterErrorCount :: metric
  kmWriterBatchSize :: metric
  kmWriterBatchBytes :: metric
  kmWriterDialCount :: metric
  kmWriterDialSeconds :: metric
  kmWriterWriteSeconds :: metric
  kmWriterWaitSeconds :: metric
  kmReaderMessageCount :: metric
  kmReaderMessageBytes :: metric
  kmReaderFetchesCount :: metric
  kmReaderErrorCount :: metric
  kmReaderTimeoutsCount :: metric
  kmReaderFetchSize :: metric
  kmReaderFetchBytes :: metric
  kmReaderLag :: metric
  kmReaderOffset :: metric
  kmReaderDialCount :: metric
  kmReaderDialSeconds :: metric
  kmReaderReadSeconds :: metric
  kmReaderWaitSeconds :: metric

definition registerMetrics :: kafkaMetrics where
  "registerMetrics =
     \<lparr>kmWriterMessageCount = Metric ''kafka_writer_message_count'' Counter DefaultValue,
      kmWriterMessageBytes = Metric ''kafka_writer_message_bytes'' Counter DataValue,
      kmWriterWriteCount = Metric ''kafka_writer_write_count'' Counter DefaultValue,
      kmWriterErrorCount = Metric ''kafka_writer_error_count'' Counter DefaultValue,
      kmWriterBatchSize = Metric ''kafka_writer_batch_size'' Trend DefaultValue,
      kmWriterBatchBytes = Metric ''kafka_writer_batch_bytes'' Trend DataValue,
      kmWriterDialCount = Metric ''kafka_writer_dial_count'' Counter DefaultValue,
      kmWriterDialSeconds = Metric ''kafka_writer_dial_seconds'' Trend TimeValue,
      kmWriterWriteSeconds = Metric ''kafka_writer_write_seconds'' Trend TimeValue,
      kmWriterWaitSeconds = Metric ''kafka_writer_wait_seconds'' Trend TimeValue,
      kmReaderMessageCount = Metric ''kafka_reader_message_count'' Counter DefaultValue,
      kmReaderMessageBytes = Metric ''kafka_reader_message_bytes'' Counter DataValue,
      kmReaderFetchesCount = Metric ''kafka_reader_fetches_count'' Counter DefaultValue,
      kmReaderErrorCount = Metric ''kafka_reader_error_count'' Counter DefaultValue,
      kmReaderTimeoutsCount = Metric ''kafka_reader_timeouts_count'' Counter DefaultValue,
      kmReaderFetchSize = Metric ''kafka_reader_fetch_size'' Trend DefaultValue,
      kmReaderFetchBytes = Metric ''kafka_reader_fetch_bytes'' Trend DataValue,
      kmReaderLag = Metric ''kafka_reader_lag'' Trend DefaultValue,
      kmReaderOffset = Metric ''kafka_reader_offset'' Trend DefaultValue,
      kmReaderDialCount = Metric ''kafka_reader_dial_count'' Counter DefaultValue,
      kmReaderDialSeconds = Metric ''kafka_reader_dial_seconds'' Trend TimeValue,
      kmReaderReadSeconds = Metric ''kafka_reader_read_seconds'' Trend TimeValue,
      kmReaderWaitSeconds = Metric ''kafka_reader_wait_seconds'' Trend TimeValue\<rparr>"

section \<open>The collector\<close>

datatype metricRole = RoleWriter | RoleReader

record perTopicTrend =
  ptTopic :: string
  ptValue :: float64

record metricsCollector =
  mcMetrics :: kafkaMetrics
  mcRole :: metricRole
  dialCount :: int
  dialFlushed :: int
  dialSeconds :: "float64 list"
  rwSeconds :: "float64 list"
  waitSeconds :: "float64 list"
  batchCount :: "int gomap"
  batchFlushed :: "int gomap"
  batchSize :: "perTopicTrend list"
  batchBytes :: "perTopicTrend list"

definition newMetricsCollector :: "kafkaMetrics \<Rightarrow> metricRole \<Rightarrow> metricsCollector" where
  "newMetricsCollector m role =
     \<lparr>mcMetrics = m, mcRole = role, dialCount = 0, dialFlushed = 0, dialSeconds = [], rwSeconds = [],
      waitSeconds = [], batchCount = [], batchFlushed = [], batchSize = [], batchBytes = []\<rparr>"

section \<open>Hooks\<close>

definition apiKeyProduce :: int where "apiKeyProduce = 0"
definition apiKeyFetch :: int where "apiKeyFetch = 1"

text \<open>\<open>Duration.Milliseconds\<close>: nanoseconds divided by a million, truncated towards zero.\<close>

definition milliseconds :: "int \<Rightarrow> int" where
  "milliseconds d = (if d \<ge> 0 then d div 1000000 else - ((- d) div 1000000))"

definition OnBrokerConnect :: "metricsCollector \<Rightarrow> int \<Rightarrow> go_error option \<Rightarrow> metricsCollector" where
  "OnBrokerConnect mc initDur err =
     (if err \<noteq> None then mc
      else mc\<lparr>dialCount := dialCount mc + 1,
              dialSeconds := dialSeconds mc @ [f64_of_int (milliseconds initDur)]\<rparr>)"

definition OnBrokerWrite :: "metricsCollector \<Rightarrow> int \<Rightarrow> int \<Rightarrow> int \<Rightarrow> go_error option \<Rightarrow> metricsCollector" where
  "OnBrokerWrite mc key writeWait timeToWrite err =
     (if mcRole mc \<noteq> RoleWriter \<or> key \<noteq> apiKeyProduce \<or> err \<noteq> None then mc
      else mc\<lparr>rwSeconds := rwSeconds mc @ [f64_of_int (milliseconds timeToWrite)],
              waitSeconds := waitSeconds mc @ [f64_of_int (milliseconds writeWait)]\<rparr>)"

definition OnBrokerRead :: "metricsCollector \<Rightarrow> int \<Rightarrow> int \<Rightarrow> int \<Rightarrow> go_error option \<Rightarrow> metricsCollector" where
  "OnBrokerRead mc key readWait timeToRead err =
     (if mcRole mc \<noteq> RoleReader \<or> key \<noteq> apiKeyFetch \<or> err \<noteq> None then mc
      else mc\<lparr>rwSeconds := rwSeconds mc @ [f64_of_int (milliseconds timeToRead)],
              waitSeconds := waitSeconds mc @ [f64_of_int (milliseconds readWait)]\<rparr>)"

definition OnProduceBatchWritten :: "metricsCollector \<Rightarrow> string \<Rightarrow> int \<Rightarrow> int \<Rightarrow> metricsCollector" where
  "OnProduceBatchWritten mc topic numRecords uncompressedBytes =
     mc\<lparr>batchCount := gm_add topic 1 (batchCount mc),
        batchSize := batchSize mc @ [\<lparr>ptTopic = topic, ptValue = f64_of_int numRecords\<rparr>],
        batchBytes := batchBytes mc @ [\<lparr>ptTopic = topic, ptValue = f64_of_int uncompressedBytes\<rparr>]\<rparr>"

definition OnFetchBatchRead :: "metricsCollector \<Rightarrow> string \<Rightarrow> int \<Rightarrow> int \<Rightarrow> metricsCollector" where
  "OnFetchBatchRead mc topic numRecords uncompressedBytes =
     mc\<lparr>batchCount := gm_add topic 1 (batchCount mc),
        batchSize := batchSize mc @ [\<lparr>ptTopic = topic, ptValue = f64_of_int numRecords\<rparr>],
        batchBytes := batchBytes mc @ [\<lparr>ptTopic = topic, ptValue = f64_of_int uncompressedBytes\<rparr>]\<rparr>"

text \<open>The calls franz-go makes into the collector (its \<open>hooks()\<close> registers the collector itself).\<close>

datatype hook_event =
    BrokerConnect int "go_error option"
  | BrokerWrite int int int "go_error option"
  | BrokerRead int int int "go_error option"
  | ProduceBatchWritten string int int
  | FetchBatchRead string int int

fun hooks :: "metricsCollector \<Rightarrow> hook_event \<Rightarrow> metricsCollector" where
  "hooks mc (BrokerConnect d err) = OnBrokerConnect mc d err"
| "hooks mc (BrokerWrite key w t err) = OnBrokerWrite mc key w t err"
| "hooks mc (BrokerRead key w t err) = OnBrokerRead mc key w t err"
| "hooks mc (ProduceBatchWritten topic n b) = OnProduceBatchWritten mc topic n b"
| "hooks mc (FetchBatchRead topic n b) = OnFetchBatchRead mc topic n b"

section \<open>Samples and the VU\<close>

text \<open>
  The tags of a sample are the VU's current tags, possibly extended with \<open>With(key, value)\<close>.
  A VU has a state (with tags) only in the VU context, never in init; \<open>vuNow\<close> is the clock
  reading a call makes and \<open>vuCtxErr\<close> the error of the VU's context. \<open>vuPushes\<close> is whether \<open>PushIfNotDone\<close>, called
  with that context, pushes the samples it is given; \<open>push_law\<close> is what k6 documents of it: it drops them
  exactly when the context is done.
\<close>

datatype tag_set = CurrentTags string | With tag_set string string

record sample =
  smMetric :: metric
  smTags :: tag_set
  smTime :: int
  smValue :: float64

record vu =
  vuState :: "tag_set option"
  vuNow :: int
  vuCtxErr :: "go_error option"
  vuPushes :: bool

definition push_law :: "vu \<Rightarrow> bool" where
  "push_law v \<longleftrightarrow> (vuPushes v \<longleftrightarrow> vuCtxErr v = None)"

text \<open>A VU with a state, if there is one, takes the samples a flush pushes.\<close>

definition live :: "vu option \<Rightarrow> bool" where
  "live vo \<longleftrightarrow> (case vo of None \<Rightarrow> True | Some v \<Rightarrow> vuState v \<noteq> None \<longrightarrow> vuPushes v)"

text \<open>The order in which a \<open>range\<close> loop visits a map is up to the runtime: a function that
  permutes the entries.\<close>

type_synonym range_order = "int gomap \<Rightarrow> int gomap"

definition order_ok :: "range_order \<Rightarrow> bool" where
  "order_ok ord \<longleftrightarrow> (\<forall>m. mset (ord m) = mset m)"

type_synonym sampleAdder = "int \<Rightarrow> tag_set \<Rightarrow> sample list \<Rightarrow> sample list"

definition addSample :: "sample list \<Rightarrow> metric \<Rightarrow> tag_set \<Rightarrow> float64 \<Rightarrow> int \<Rightarrow> sample list" where
  "addSample out m tags value now = out @ [\<lparr>smMetric = m, smTags = tags, smTime = now, smValue = value\<rparr>]"

section \<open>Draining\<close>

fun drain_values :: "metric \<Rightarrow> tag_set \<Rightarrow> int \<Rightarrow> float64 list \<Rightarrow> sample list \<Rightarrow> sample list" where
  "drain_values m tags now [] out = out"
| "drain_values m tags now (v # vs) out = drain_values m tags now vs (addSample out m tags v now)"

fun drain_trends :: "metric \<Rightarrow> tag_set \<Rightarrow> int \<Rightarrow> perTopicTrend list \<Rightarrow> sample list \<Rightarrow> sample list" where
  "drain_trends m base now [] out = out"
| "drain_trends m base now (pt # pts) out =
     drain_trends m base now pts (addSample out m (With base ''topic'' (ptTopic pt)) (ptValue pt) now)"

fun drain_counts ::
  "metric \<Rightarrow> tag_set \<Rightarrow> int \<Rightarrow> int gomap \<Rightarrow> int gomap \<Rightarrow> sample list \<Rightarrow> int gomap \<times> sample list" where
  "drain_counts m base now [] flushed out = (flushed, out)"
| "drain_counts m base now ((topic, tot) # rest) flushed out =
     (let d = tot - gm_get flushed topic in
      if d > 0
      then drain_counts m base now rest (AList.update topic tot flushed)
             (addSample out m (With base ''topic'' topic) (f64_of_int d) now)
      else drain_counts m base now rest flushed out)"

fun dialCountM :: "kafkaMetrics \<Rightarrow> metricRole \<Rightarrow> metric" where
  "dialCountM km RoleWriter = kmWriterDialCount km" | "dialCountM km RoleReader = kmReaderDialCount km"
fun dialSecM :: "kafkaMetrics \<Rightarrow> metricRole \<Rightarrow> metric" where
  "dialSecM km RoleWriter = kmWriterDialSeconds km" | "dialSecM km RoleReader = kmReaderDialSeconds km"
fun rwSecM :: "kafkaMetrics \<Rightarrow> metricRole \<Rightarrow> metric" where
  "rwSecM km RoleWriter = kmWriterWriteSeconds km" | "rwSecM km RoleReader = kmReaderReadSeconds km"
fun waitSecM :: "kafkaMetrics \<Rightarrow> metricRole \<Rightarrow> metric" where
  "waitSecM km RoleWriter = kmWriterWaitSeconds km" | "waitSecM km RoleReader = kmReaderWaitSeconds km"
fun batchCountM :: "kafkaMetrics \<Rightarrow> metricRole \<Rightarrow> metric" where
  "batchCountM km RoleWriter = kmWriterWriteCount km" | "batchCountM km RoleReader = kmReaderFetchesCount km"
fun batchSizeM :: "kafkaMetrics \<Rightarrow> metricRole \<Rightarrow> metric" where
  "batchSizeM km RoleWriter = kmWriterBatchSize km" | "batchSizeM km RoleReader = kmReaderFetchSize km"
fun batchBytesM :: "kafkaMetrics \<Rightarrow> metricRole \<Rightarrow> metric" where
  "batchBytesM km RoleWriter = kmWriterBatchBytes km" | "batchBytesM km RoleReader = kmReaderFetchBytes km"

definition drainHooks ::
  "range_order \<Rightarrow> metricsCollector \<Rightarrow> tag_set \<Rightarrow> int \<Rightarrow> sample list \<Rightarrow> metricsCollector \<times> sample list" where
  "drainHooks ord mc base now out =
     (let km = mcMetrics mc; role = mcRole mc;
          d = dialCount mc - dialFlushed mc;
          (mc, out) = (if d > 0
             then (mc\<lparr>dialFlushed := dialCount mc\<rparr>, addSample out (dialCountM km role) base (f64_of_int d) now)
             else (mc, out));
          out = drain_values (dialSecM km role) base now (dialSeconds mc) out;
          out = drain_values (rwSecM km role) base now (rwSeconds mc) out;
          out = drain_values (waitSecM km role) base now (waitSeconds mc) out;
          mc = mc\<lparr>dialSeconds := [], rwSeconds := [], waitSeconds := []\<rparr>;
          (flushed, out) = drain_counts (batchCountM km role) base now (ord (batchCount mc)) (batchFlushed mc) out;
          mc = mc\<lparr>batchFlushed := flushed\<rparr>;
          out = drain_trends (batchSizeM km role) base now (batchSize mc) out;
          out = drain_trends (batchBytesM km role) base now (batchBytes mc) out
      in (mc\<lparr>batchSize := [], batchBytes := []\<rparr>, out))"

text \<open>
  \<open>flush\<close> returns the collector and the samples that are pushed, \<open>None\<close> when there are none or
  \<open>PushIfNotDone\<close> drops them. A nil collector and a nil VU are \<open>None\<close>.
\<close>

definition flush ::
  "range_order \<Rightarrow> metricsCollector option \<Rightarrow> vu option \<Rightarrow> sampleAdder option
   \<Rightarrow> metricsCollector option \<times> sample list option" where
  "flush ord mco vuo callSite =
     (case (mco, vuo) of
        (Some mc, Some v) \<Rightarrow>
          (case vuState v of
             None \<Rightarrow> (mco, None)
           | Some base \<Rightarrow>
               (let now = vuNow v;
                    out = (case callSite of None \<Rightarrow> [] | Some f \<Rightarrow> f now base []);
                    (mc', out) = drainHooks ord mc base now out
                in (Some mc', if out = [] \<or> \<not> vuPushes v then None else Some out)))
      | _ \<Rightarrow> (mco, None))"

section \<open>Flushing a produce, consume or close call\<close>

fun add_counts :: "metric \<Rightarrow> metric \<Rightarrow> int gomap \<Rightarrow> tag_set \<Rightarrow> int \<Rightarrow> int gomap \<Rightarrow> sample list \<Rightarrow> sample list" where
  "add_counts cm bm msgBytes base now [] out = out"
| "add_counts cm bm msgBytes base now ((topic, n) # rest) out =
     (let tt = With base ''topic'' topic;
          out = addSample out cm tt (f64_of_int n) now;
          out = addSample out bm tt (f64_of_int (gm_get msgBytes topic)) now
      in add_counts cm bm msgBytes base now rest out)"

definition produceSamples :: "range_order \<Rightarrow> kafkaMetrics \<Rightarrow> int gomap \<Rightarrow> int gomap \<Rightarrow> int \<Rightarrow> sampleAdder" where
  "produceSamples ord km msgCount msgBytes errCount now base out =
     (let out = add_counts (kmWriterMessageCount km) (kmWriterMessageBytes km) msgBytes base now (ord msgCount) out
      in if errCount > 0 then addSample out (kmWriterErrorCount km) base (f64_of_int errCount) now else out)"

definition flushProduce ::
  "range_order \<Rightarrow> metricsCollector option \<Rightarrow> vu \<Rightarrow> int gomap \<Rightarrow> int gomap \<Rightarrow> int
   \<Rightarrow> metricsCollector option \<times> sample list option" where
  "flushProduce ord mco v msgCount msgBytes errCount =
     flush ord mco (Some v)
       (Some (\<lambda>now base out. case mco of None \<Rightarrow> out
                | Some mc \<Rightarrow> produceSamples ord (mcMetrics mc) msgCount msgBytes errCount now base out))"

definition consumeSamples ::
  "range_order \<Rightarrow> kafkaMetrics \<Rightarrow> int gomap \<Rightarrow> int gomap \<Rightarrow> perTopicTrend list \<Rightarrow> perTopicTrend list
   \<Rightarrow> bool \<Rightarrow> bool \<Rightarrow> sampleAdder" where
  "consumeSamples ord km msgCount msgBytes lags offsets fetchErr timedOut now base out =
     (let out = add_counts (kmReaderMessageCount km) (kmReaderMessageBytes km) msgBytes base now (ord msgCount) out;
          out = drain_trends (kmReaderLag km) base now lags out;
          out = drain_trends (kmReaderOffset km) base now offsets out;
          out = (if fetchErr then addSample out (kmReaderErrorCount km) base (f64_of_int 1) now else out)
      in if timedOut then addSample out (kmReaderTimeoutsCount km) base (f64_of_int 1) now else out)"

definition flushConsume ::
  "range_order \<Rightarrow> metricsCollector option \<Rightarrow> vu \<Rightarrow> int gomap \<Rightarrow> int gomap \<Rightarrow> perTopicTrend list
   \<Rightarrow> perTopicTrend list \<Rightarrow> bool \<Rightarrow> bool \<Rightarrow> metricsCollector option \<times> sample list option" where
  "flushConsume ord mco v msgCount msgBytes lags offsets fetchErr timedOut =
     flush ord mco (Some v)
       (Some (\<lambda>now base out. case mco of None \<Rightarrow> out
                | Some mc \<Rightarrow> consumeSamples ord (mcMetrics mc) msgCount msgBytes lags offsets fetchErr timedOut
                              now base out))"

definition flushClose ::
  "range_order \<Rightarrow> metricsCollector option \<Rightarrow> vu option \<Rightarrow> metricsCollector option \<times> sample list option" where
  "flushClose ord mco vuo = flush ord mco vuo None"

section \<open>Executions of a collector\<close>

text \<open>
  One event is a hook call or a flush by the VU; hooks and flushes interleave in any order,
  and every flush meets its own map order and its own VU.
\<close>

datatype collector_event =
    Hook hook_event
  | FlushProduce range_order vu "int gomap" "int gomap" int
  | FlushConsume range_order vu "int gomap" "int gomap" "perTopicTrend list" "perTopicTrend list" bool bool
  | FlushClose range_order "vu option"

definition flushed_out :: "metricsCollector \<Rightarrow> metricsCollector option \<times> sample list option
    \<Rightarrow> metricsCollector \<times> sample list" where
  "flushed_out mc r = (case fst r of None \<Rightarrow> mc | Some mc' \<Rightarrow> mc', case snd r of None \<Rightarrow> [] | Some out \<Rightarrow> out)"

fun collector_step :: "metricsCollector \<Rightarrow> collector_event \<Rightarrow> metricsCollector \<times> sample list" where
  "collector_step mc (Hook h) = (hooks mc h, [])"
| "collector_step mc (FlushProduce ord v mcnt mbytes ec) =
     flushed_out mc (flushProduce ord (Some mc) v mcnt mbytes ec)"
| "collector_step mc (FlushConsume ord v mcnt mbytes lags offs fe to) =
     flushed_out mc (flushConsume ord (Some mc) v mcnt mbytes lags offs fe to)"
| "collector_step mc (FlushClose ord vo) = flushed_out mc (flushClose ord (Some mc) vo)"

fun collector_run :: "metricsCollector \<Rightarrow> collector_event list \<Rightarrow> metricsCollector \<times> sample list" where
  "collector_run mc [] = (mc, [])"
| "collector_run mc (e # es) =
     (let (mc1, out1) = collector_step mc e; (mc2, out2) = collector_run mc1 es in (mc2, out1 @ out2))"

fun event_ok :: "collector_event \<Rightarrow> bool" where
  "event_ok (Hook h) = True"
| "event_ok (FlushProduce ord v _ _ _) = (order_ok ord \<and> live (Some v))"
| "event_ok (FlushConsume ord v _ _ _ _ _ _) = (order_ok ord \<and> live (Some v))"
| "event_ok (FlushClose ord vo) = (order_ok ord \<and> live vo)"

section \<open>Closed forms of the draining loops\<close>

named_theorems drain_simps \<open>closed forms of the loops that append samples\<close>

definition mk_sample :: "metric \<Rightarrow> tag_set \<Rightarrow> int \<Rightarrow> float64 \<Rightarrow> sample" where
  "mk_sample m tags now v = \<lparr>smMetric = m, smTags = tags, smTime = now, smValue = v\<rparr>"

lemma mk_sample_sel [simp]:
  "smMetric (mk_sample m t n v) = m" "smTags (mk_sample m t n v) = t" "smValue (mk_sample m t n v) = v"
  by (simp_all add: mk_sample_def)

lemma addSample_eq [drain_simps]: "addSample out m tags v now = out @ [mk_sample m tags now v]"
  by (simp add: addSample_def mk_sample_def)

lemma drain_values_eq [drain_simps]:
  "drain_values m tags now vs out = out @ map (mk_sample m tags now) vs"
  by (induction vs arbitrary: out) (simp_all add: drain_simps)

lemma drain_trends_eq [drain_simps]:
  "drain_trends m base now pts out =
     out @ map (\<lambda>pt. mk_sample m (With base ''topic'' (ptTopic pt)) now (ptValue pt)) pts"
  by (induction pts arbitrary: out) (simp_all add: drain_simps)

lemma drain_counts_out:
  assumes "distinct (map fst xs)"
  shows "snd (drain_counts m base now xs fl out) =
     out @ map (\<lambda>(t, n). mk_sample m (With base ''topic'' t) now (f64_of_int (n - gm_get fl t)))
             (filter (\<lambda>(t, n). n > gm_get fl t) xs)"
  using assms
proof (induction xs arbitrary: fl out)
  case (Cons x xs)
  obtain t n where x: "x = (t, n)" by (cases x)
  have other: "gm_get (AList.update t n fl) t' = gm_get fl t'" if "t' \<in> fst ` set xs" for t'
    using that Cons.prems x by (auto simp: gomap_simps)
  have "map (\<lambda>(t', n'). mk_sample m (With base ''topic'' t') now (f64_of_int (n' - gm_get (AList.update t n fl) t')))
          (filter (\<lambda>(t', n'). n' > gm_get (AList.update t n fl) t') xs) =
        map (\<lambda>(t, n). mk_sample m (With base ''topic'' t) now (f64_of_int (n - gm_get fl t)))
          (filter (\<lambda>(t, n). n > gm_get fl t) xs)"
    by (intro map_cong filter_cong) (auto simp: other rev_image_eqI)
  with Cons x show ?case by (simp add: Let_def drain_simps)
qed simp

lemma drain_counts_flushed:
  assumes "distinct (map fst xs)"
  shows "gm_get (fst (drain_counts m base now xs fl out)) t =
     (case map_of xs t of None \<Rightarrow> gm_get fl t | Some n \<Rightarrow> max n (gm_get fl t))"
  using assms
proof (induction xs arbitrary: fl out)
  case (Cons x xs)
  obtain t' n where x: "x = (t', n)" by (cases x)
  then have "map_of xs t' = None" using Cons.prems by (simp add: map_of_eq_None_iff)
  with Cons x show ?case by (auto simp: Let_def gomap_simps max_def split: option.splits)
qed simp

text \<open>The flushed totals do not depend on the samples collected so far.\<close>

fun flushed_totals :: "int gomap \<Rightarrow> int gomap \<Rightarrow> int gomap" where
  "flushed_totals [] fl = fl"
| "flushed_totals ((t, n) # xs) fl = flushed_totals xs (if n > gm_get fl t then AList.update t n fl else fl)"

lemma fst_drain_counts: "fst (drain_counts m base now xs fl out) = flushed_totals xs fl"
  by (induction xs fl arbitrary: out rule: flushed_totals.induct) (auto simp: Let_def)

lemma drain_counts_wf: "gm_wf fl \<Longrightarrow> gm_wf (fst (drain_counts m base now xs fl out))"
  by (induction xs arbitrary: fl out) (auto simp: Let_def)

lemma add_counts_eq [drain_simps]:
  "add_counts cm bm mb base now xs out =
     out @ concat (map (\<lambda>(t, n). [mk_sample cm (With base ''topic'' t) now (f64_of_int n),
                                  mk_sample bm (With base ''topic'' t) now (f64_of_int (gm_get mb t))]) xs)"
  by (induction xs arbitrary: out) (auto simp: Let_def drain_simps)

definition drained :: "range_order \<Rightarrow> metricsCollector \<Rightarrow> tag_set \<Rightarrow> int \<Rightarrow> sample list" where
  "drained ord mc base now =
     (let km = mcMetrics mc; r = mcRole mc in
      (if dialCount mc > dialFlushed mc
       then [mk_sample (dialCountM km r) base now (f64_of_int (dialCount mc - dialFlushed mc))] else []) @
      map (mk_sample (dialSecM km r) base now) (dialSeconds mc) @
      map (mk_sample (rwSecM km r) base now) (rwSeconds mc) @
      map (mk_sample (waitSecM km r) base now) (waitSeconds mc) @
      map (\<lambda>(t, n). mk_sample (batchCountM km r) (With base ''topic'' t) now
                      (f64_of_int (n - gm_get (batchFlushed mc) t)))
        (filter (\<lambda>(t, n). n > gm_get (batchFlushed mc) t) (ord (batchCount mc))) @
      map (\<lambda>pt. mk_sample (batchSizeM km r) (With base ''topic'' (ptTopic pt)) now (ptValue pt)) (batchSize mc) @
      map (\<lambda>pt. mk_sample (batchBytesM km r) (With base ''topic'' (ptTopic pt)) now (ptValue pt)) (batchBytes mc))"

lemma drainHooks_out:
  assumes "distinct (map fst (ord (batchCount mc)))"
  shows "snd (drainHooks ord mc base now out) = out @ drained ord mc base now"
proof -
  note dc = drain_counts_out [OF assms, of _ _ _ "batchFlushed mc"]
  show ?thesis
    by (cases "dialCount mc > dialFlushed mc")
       (simp_all add: drainHooks_def drained_def Let_def drain_simps dc case_prod_beta)
qed

section \<open>Invariant of the collector\<close>

definition collector_inv :: "metricRole \<Rightarrow> metricsCollector \<Rightarrow> bool" where
  "collector_inv r mc \<longleftrightarrow>
     mcRole mc = r \<and> mcMetrics mc = registerMetrics \<and>
     0 \<le> dialFlushed mc \<and> dialFlushed mc \<le> dialCount mc \<and>
     gm_wf (batchCount mc) \<and> gm_wf (batchFlushed mc) \<and>
     (\<forall>t. 0 \<le> gm_get (batchFlushed mc) t \<and> gm_get (batchFlushed mc) t \<le> gm_get (batchCount mc) t)"

lemmas hook_defs = OnBrokerConnect_def OnBrokerWrite_def OnBrokerRead_def OnProduceBatchWritten_def
  OnFetchBatchRead_def

lemma collector_inv_new: "collector_inv r (newMetricsCollector registerMetrics r)"
  by (simp add: collector_inv_def newMetricsCollector_def)

lemma collector_inv_hooks: "collector_inv r mc \<Longrightarrow> collector_inv r (hooks mc h)"
  by (cases h) (auto simp: collector_inv_def hook_defs gomap_simps intro: add_increasing2)

lemma order_keys:
  assumes "order_ok ord" and "gm_wf m"
  shows "distinct (map fst (ord m))" and "map_of (ord m) = map_of m" and "mset (ord m) = mset m"
proof -
  show ms: "mset (ord m) = mset m" using assms(1) by (simp add: order_ok_def)
  then have "mset (map fst (ord m)) = mset (map fst m)" by simp
  then show d: "distinct (map fst (ord m))"
    using assms(2) by (metis gm_wf_def mset_eq_imp_distinct_iff)
  have "set (ord m) = set m" using ms by (metis set_mset_mset)
  then show "map_of (ord m) = map_of m"
    using d assms(2) by (simp add: map_of_inject_set gm_wf_def)
qed

lemma drain_counts_all:
  assumes "collector_inv r mc" and "order_ok ord"
  shows "gm_get (fst (drain_counts m base now (ord (batchCount mc)) (batchFlushed mc) out)) t = gm_get (batchCount mc) t"
proof -
  have wf: "gm_wf (batchCount mc)" and le: "gm_get (batchFlushed mc) t \<le> gm_get (batchCount mc) t"
    and ge: "0 \<le> gm_get (batchFlushed mc) t"
    using assms(1) by (simp_all add: collector_inv_def)
  show ?thesis
    unfolding drain_counts_flushed [OF order_keys(1) [OF assms(2) wf]] order_keys(2) [OF assms(2) wf]
    using le ge by (auto simp: gm_get_def max_def split: option.splits)
qed

lemma drainHooks_state:
  assumes "collector_inv r mc" and "order_ok ord"
    and "mc' = fst (drainHooks ord mc base now out)"
  shows "mcRole mc' = mcRole mc" "mcMetrics mc' = mcMetrics mc"
    and "dialCount mc' = dialCount mc" "dialFlushed mc' = dialCount mc"
    and "dialSeconds mc' = []" "rwSeconds mc' = []" "waitSeconds mc' = []"
    and "batchCount mc' = batchCount mc" "gm_wf (batchFlushed mc')"
    and "gm_get (batchFlushed mc') t = gm_get (batchCount mc) t"
    and "batchSize mc' = []" "batchBytes mc' = []"
  unfolding assms(3) using assms(1) drain_counts_all [OF assms(1,2)]
  by (auto simp: drainHooks_def Let_def case_prod_beta collector_inv_def drain_counts_wf)

lemma collector_inv_drain:
  assumes "collector_inv r mc" and "order_ok ord"
  shows "collector_inv r (fst (drainHooks ord mc base now out))"
proof -
  note st = drainHooks_state [OF assms refl, of base now out]
  from assms(1) show ?thesis by (simp add: collector_inv_def st) (meson order_trans)
qed

section \<open>What a flush emits\<close>

definition call_site_metrics :: "metric set" where
  "call_site_metrics = (let km = registerMetrics in
     {kmWriterMessageCount km, kmWriterMessageBytes km, kmWriterErrorCount km, kmReaderMessageCount km,
      kmReaderMessageBytes km, kmReaderLag km, kmReaderOffset km, kmReaderErrorCount km, kmReaderTimeoutsCount km})"

definition call_site :: "sample list \<Rightarrow> bool" where
  "call_site cs \<longleftrightarrow> (\<forall>s\<in>set cs. smMetric s \<in> call_site_metrics)"

lemma call_site_produce: "call_site (produceSamples ord registerMetrics mcnt mb ec now base [])"
  by (auto simp: call_site_def call_site_metrics_def Let_def produceSamples_def drain_simps)

lemma call_site_consume: "call_site (consumeSamples ord registerMetrics mcnt mb lg off fe to now base [])"
  by (auto simp: call_site_def call_site_metrics_def Let_def consumeSamples_def drain_simps)

lemma flushed_out_flush:
  assumes "collector_inv r mc" and "order_ok ord" and "live vo"
  shows "flushed_out mc (flush ord (Some mc) vo cb) = (mc, []) \<or>
    (\<exists>base now. flushed_out mc (flush ord (Some mc) vo cb) =
       (fst (drainHooks ord mc base now []),
        (case cb of None \<Rightarrow> [] | Some f \<Rightarrow> f now base []) @ drained ord mc base now))"
proof -
  have "gm_wf (batchCount mc)" using assms(1) by (simp add: collector_inv_def)
  note out = drainHooks_out [of ord mc, OF order_keys(1) [OF assms(2) this]]
  have st: "fst (drainHooks ord mc base now out') = fst (drainHooks ord mc base now [])" for base now out'
    by (simp add: drainHooks_def Let_def case_prod_beta fst_drain_counts)
  show ?thesis
  proof (cases "vo = None \<or> vuState (the vo) = None")
    case True
    then show ?thesis by (auto simp: flush_def flushed_out_def split: option.splits)
  next
    case False
    then obtain v base where v: "vo = Some v" "vuState v = Some base" by auto
    define cs where "cs = (case cb of None \<Rightarrow> [] | Some f \<Rightarrow> f (vuNow v) base [])"
    have "flushed_out mc (flush ord (Some mc) vo cb) =
        (fst (drainHooks ord mc base (vuNow v) cs), snd (drainHooks ord mc base (vuNow v) cs))"
      using v assms(3) by (simp add: flush_def flushed_out_def Let_def case_prod_beta cs_def prod_eq_iff live_def)
    then have "flushed_out mc (flush ord (Some mc) vo cb) =
        (fst (drainHooks ord mc base (vuNow v) []), cs @ drained ord mc base (vuNow v))"
      by (simp only: out st [of base "vuNow v" cs])
    then show ?thesis unfolding cs_def by blast
  qed
qed

lemma collector_step_flush:
  assumes "collector_inv r mc" and "event_ok e" and "\<And>h. e \<noteq> Hook h"
  shows "collector_step mc e = (mc, []) \<or>
    (\<exists>ord base now cs. order_ok ord \<and> call_site cs \<and>
       collector_step mc e = (fst (drainHooks ord mc base now []), cs @ drained ord mc base now))"
proof -
  have m: "mcMetrics mc = registerMetrics" using assms(1) by (simp add: collector_inv_def)
  have nil: "call_site []" by (simp add: call_site_def)
  show ?thesis
  proof (cases e)
    case (FlushProduce ord v a b c)
    with assms(2) flushed_out_flush [OF assms(1), of ord "Some v"] show ?thesis
      by (fastforce simp: flushProduce_def m intro: call_site_produce)
  next
    case (FlushConsume ord v a b c d f g)
    with assms(2) flushed_out_flush [OF assms(1), of ord "Some v"] show ?thesis
      by (fastforce simp: flushConsume_def m intro: call_site_consume)
  next
    case (FlushClose ord vo)
    with assms(2) flushed_out_flush [OF assms(1), of ord vo None] nil show ?thesis
      by (fastforce simp: flushClose_def)
  qed (use assms(3) in blast)
qed

lemma collector_inv_step:
  assumes "collector_inv r mc" and "event_ok e"
  shows "collector_inv r (fst (collector_step mc e))"
proof (cases "\<exists>h. e = Hook h")
  case True
  then show ?thesis using assms(1) by (auto simp: collector_inv_hooks)
next
  case False
  then show ?thesis
    using collector_step_flush [OF assms] assms(1) collector_inv_drain [OF assms(1)] by fastforce
qed

section \<open>Nothing lost, nothing twice\<close>

text \<open>
  A hook metric is \<open>drained\<close> when the values it still holds (\<open>pending\<close>) grow by what each
  hook observes and, at a flush, either stay or are handed over as samples in full. Values are
  combined by \<open>comb\<close>: counters add up, trends are sequences. \<open>bnd\<close> is a bound that, if it
  holds at the end of an execution, held all along.
\<close>

locale drained_metric =
  fixes r :: metricRole
    and pending :: "metricsCollector \<Rightarrow> 'v"
    and observe :: "hook_event \<Rightarrow> 'v"
    and reported :: "sample list \<Rightarrow> 'v"
    and comb :: "'v \<Rightarrow> 'v \<Rightarrow> 'v"
    and unit :: 'v
    and bnd :: "metricsCollector \<Rightarrow> bool"
  assumes comb_assoc: "comb (comb a b) c = comb a (comb b c)"
    and comb_unit: "comb unit a = a" "comb a unit = a"
    and reported_append: "reported (xs @ ys) = comb (reported xs) (reported ys)"
    and reported_call_site: "call_site cs \<Longrightarrow> reported cs = unit"
    and pending_hook: "collector_inv r mc \<Longrightarrow> pending (hooks mc h) = comb (pending mc) (observe h)"
    and bnd_hook: "bnd (hooks mc h) \<Longrightarrow> bnd mc"
    and bnd_drain: "collector_inv r mc \<Longrightarrow> order_ok ord \<Longrightarrow>
        bnd (fst (drainHooks ord mc base now [])) \<Longrightarrow> bnd mc"
    and drain_all: "collector_inv r mc \<Longrightarrow> bnd mc \<Longrightarrow> order_ok ord \<Longrightarrow> reported (drained ord mc base now) = pending mc"
    and drain_resets: "collector_inv r mc \<Longrightarrow> order_ok ord \<Longrightarrow> pending (fst (drainHooks ord mc base now [])) = unit"
begin

lemma reported_nil [simp]: "reported [] = unit"
  by (rule reported_call_site) (simp add: call_site_def)

lemma bnd_run:
  "collector_inv r mc \<Longrightarrow> list_all event_ok es \<Longrightarrow> bnd (fst (collector_run mc es)) \<Longrightarrow> bnd mc"
proof (induction es arbitrary: mc)
  case (Cons e es)
  from Cons.prems have e: "event_ok e" by simp
  have "bnd (fst (collector_step mc e))"
    using Cons collector_inv_step [OF Cons.prems(1) e] by (auto simp: Let_def case_prod_beta)
  then show ?case
    using collector_step_flush [OF Cons.prems(1) e] bnd_hook bnd_drain [OF Cons.prems(1)]
    by (cases "\<exists>h. e = Hook h") auto
qed simp

lemma step_conserves:
  assumes "collector_inv r mc" and "event_ok e" and "bnd mc"
  shows "comb (reported (snd (collector_step mc e))) (pending (fst (collector_step mc e))) =
         comb (pending mc) (case e of Hook h \<Rightarrow> observe h | _ \<Rightarrow> unit)"
proof (cases "\<exists>h. e = Hook h")
  case True
  then show ?thesis
    using assms(1) by (auto simp: comb_unit pending_hook)
next
  case False
  then have e: "(case e of Hook h \<Rightarrow> observe h | _ \<Rightarrow> unit) = unit" by (cases e) auto
  from False collector_step_flush [OF assms(1,2)] consider
    "collector_step mc e = (mc, [])"
  | ord base now cs where "order_ok ord" "call_site cs"
      "collector_step mc e = (fst (drainHooks ord mc base now []), cs @ drained ord mc base now)"
    by blast
  then show ?thesis
  proof cases
    case 1
    then show ?thesis using e by (simp add: comb_unit)
  next
    case 2
    then show ?thesis
      using e assms by (simp add: reported_append reported_call_site comb_unit drain_all drain_resets)
  qed
qed

fun observed :: "collector_event list \<Rightarrow> 'v" where
  "observed [] = unit"
| "observed (e # es) = comb (case e of Hook h \<Rightarrow> observe h | _ \<Rightarrow> unit) (observed es)"

lemma run_conserves:
  "collector_inv r mc \<Longrightarrow> list_all event_ok es \<Longrightarrow> bnd (fst (collector_run mc es)) \<Longrightarrow>
   comb (reported (snd (collector_run mc es))) (pending (fst (collector_run mc es))) =
   comb (pending mc) (observed es)"
proof (induction es arbitrary: mc)
  case Nil
  then show ?case by (simp add: comb_unit)
next
  case (Cons e es)
  define mc1 where "mc1 = fst (collector_step mc e)"
  have e: "event_ok e" and es: "list_all event_ok es" using Cons.prems by simp_all
  have inv1: "collector_inv r mc1" using collector_inv_step [OF Cons.prems(1) e] by (simp add: mc1_def)
  have b1: "bnd (fst (collector_run mc1 es))"
    using Cons.prems(3) by (simp add: mc1_def Let_def case_prod_beta)
  have b: "bnd mc" by (rule bnd_run [OF Cons.prems])
  note IH = Cons.IH [OF inv1 es b1] and st = step_conserves [OF Cons.prems(1) e b]
  have "comb (reported (snd (collector_run mc (e # es)))) (pending (fst (collector_run mc (e # es)))) =
        comb (reported (snd (collector_step mc e)))
          (comb (reported (snd (collector_run mc1 es))) (pending (fst (collector_run mc1 es))))"
    by (simp add: mc1_def Let_def case_prod_beta reported_append comb_assoc)
  also have "\<dots> = comb (comb (reported (snd (collector_step mc e))) (pending mc1)) (observed es)"
    by (simp only: IH comb_assoc)
  also have "\<dots> = comb (pending mc) (observed (e # es))"
    using st by (simp add: mc1_def comb_assoc)
  finally show ?case .
qed

end

section \<open>What each metric reports\<close>

definition f64_val :: "float64 \<Rightarrow> rat" where
  "f64_val f = (case f of Fin x \<Rightarrow> x | _ \<Rightarrow> 0)"

lemma f64_val_of_int: "\<bar>n\<bar> \<le> 2 ^ 53 \<Longrightarrow> f64_val (f64_of_int n) = of_int n"
  by (simp add: f64_of_int_exact f64_val_def)

text \<open>The sum k6 makes of a counter's samples (of those whose tags satisfy \<open>P\<close>), and the
  sequence of values of a trend, alone or with their topic tag.\<close>

definition counter_total :: "metric \<Rightarrow> (tag_set \<Rightarrow> bool) \<Rightarrow> sample list \<Rightarrow> rat" where
  "counter_total m P out = sum_list (map (\<lambda>s. if smMetric s = m \<and> P (smTags s) then f64_val (smValue s) else 0) out)"

definition trend_values :: "metric \<Rightarrow> sample list \<Rightarrow> float64 list" where
  "trend_values m out = map smValue (filter (\<lambda>s. smMetric s = m) out)"

fun tag_topic :: "tag_set \<Rightarrow> string option" where
  "tag_topic (With b k v) = (if k = ''topic'' then Some v else None)"
| "tag_topic _ = None"

definition topic_values :: "metric \<Rightarrow> sample list \<Rightarrow> (string option \<times> float64) list" where
  "topic_values m out = map (\<lambda>s. (tag_topic (smTags s), smValue s)) (filter (\<lambda>s. smMetric s = m) out)"

lemma report_simps [simp]:
  "counter_total m P [] = 0" "trend_values m [] = []" "topic_values m [] = []"
  "counter_total m P (xs @ ys) = counter_total m P xs + counter_total m P ys"
  "trend_values m (xs @ ys) = trend_values m xs @ trend_values m ys"
  "topic_values m (xs @ ys) = topic_values m xs @ topic_values m ys"
  by (simp_all add: counter_total_def trend_values_def topic_values_def)

lemma report_other:
  assumes "\<forall>s\<in>set xs. smMetric s \<noteq> m"
  shows "counter_total m P xs = 0" "trend_values m xs = []" "topic_values m xs = []"
proof -
  show "counter_total m P xs = 0"
    using assms unfolding counter_total_def by (induction xs) auto
  show "trend_values m xs = []" "topic_values m xs = []"
    using assms by (simp_all add: trend_values_def topic_values_def filter_empty_conv)
qed

lemma report_map_other:
  assumes "m' \<noteq> m"
  shows "counter_total m P (map (\<lambda>x. mk_sample m' (f x) now (g x)) xs) = 0"
    and "trend_values m (map (\<lambda>x. mk_sample m' (f x) now (g x)) xs) = []"
    and "topic_values m (map (\<lambda>x. mk_sample m' (f x) now (g x)) xs) = []"
  using assms by (intro report_other; simp)+

lemma report_one [simp]:
  "counter_total m P [mk_sample m' t now v] = (if m' = m \<and> P t then f64_val v else 0)"
  "trend_values m [mk_sample m' t now v] = (if m' = m then [v] else [])"
  "topic_values m [mk_sample m' t now v] = (if m' = m then [(tag_topic t, v)] else [])"
  by (simp_all add: counter_total_def trend_values_def topic_values_def)

lemmas report_map_others = report_map_other report_map_other [OF not_sym]

lemma report_map_same:
  "trend_values m (map (\<lambda>x. mk_sample m (f x) now (g x)) xs) = map g xs"
  "topic_values m (map (\<lambda>x. mk_sample m (f x) now (g x)) xs) = map (\<lambda>x. (tag_topic (f x), g x)) xs"
  by (simp_all add: trend_values_def topic_values_def comp_def filter_map)

text \<open>The metric names are pairwise different, so no sample is counted under two metrics.\<close>

lemma hook_metrics_distinct:
  "distinct [dialCountM registerMetrics r, dialSecM registerMetrics r, rwSecM registerMetrics r,
     waitSecM registerMetrics r, batchCountM registerMetrics r, batchSizeM registerMetrics r,
     batchBytesM registerMetrics r]"
  by (cases r) (simp_all add: registerMetrics_def)

lemma hook_metrics_not_call_site:
  "dialCountM registerMetrics r \<notin> call_site_metrics" "dialSecM registerMetrics r \<notin> call_site_metrics"
  "rwSecM registerMetrics r \<notin> call_site_metrics" "waitSecM registerMetrics r \<notin> call_site_metrics"
  "batchCountM registerMetrics r \<notin> call_site_metrics" "batchSizeM registerMetrics r \<notin> call_site_metrics"
  "batchBytesM registerMetrics r \<notin> call_site_metrics"
  by (cases r; simp add: registerMetrics_def call_site_metrics_def Let_def)+

lemma report_call_site:
  assumes "call_site cs" and "m \<notin> call_site_metrics"
  shows "counter_total m P cs = 0" "trend_values m cs = []" "topic_values m cs = []"
  using assms by (intro report_other; auto simp: call_site_def)+

section \<open>What each hook observes\<close>

fun dial_obs :: "hook_event \<Rightarrow> float64 list" where
  "dial_obs (BrokerConnect d None) = [f64_of_int (milliseconds d)]"
| "dial_obs _ = []"

fun rw_obs :: "metricRole \<Rightarrow> hook_event \<Rightarrow> float64 list" where
  "rw_obs RoleWriter (BrokerWrite key w t None) = (if key = apiKeyProduce then [f64_of_int (milliseconds t)] else [])"
| "rw_obs RoleReader (BrokerRead key w t None) = (if key = apiKeyFetch then [f64_of_int (milliseconds t)] else [])"
| "rw_obs _ _ = []"

fun wait_obs :: "metricRole \<Rightarrow> hook_event \<Rightarrow> float64 list" where
  "wait_obs RoleWriter (BrokerWrite key w t None) = (if key = apiKeyProduce then [f64_of_int (milliseconds w)] else [])"
| "wait_obs RoleReader (BrokerRead key w t None) = (if key = apiKeyFetch then [f64_of_int (milliseconds w)] else [])"
| "wait_obs _ _ = []"

fun batch_obs :: "hook_event \<Rightarrow> (string \<times> int \<times> int) list" where
  "batch_obs (ProduceBatchWritten topic n b) = [(topic, n, b)]"
| "batch_obs (FetchBatchRead topic n b) = [(topic, n, b)]"
| "batch_obs _ = []"

definition dial_count_obs :: "hook_event \<Rightarrow> rat" where
  "dial_count_obs h = of_nat (length (dial_obs h))"

definition batch_count_obs :: "string \<Rightarrow> hook_event \<Rightarrow> rat" where
  "batch_count_obs t h = of_nat (length (filter (\<lambda>(t', _). t' = t) (batch_obs h)))"

definition batch_size_obs :: "hook_event \<Rightarrow> (string option \<times> float64) list" where
  "batch_size_obs h = map (\<lambda>(t, n, b). (Some t, f64_of_int n)) (batch_obs h)"

definition batch_bytes_obs :: "hook_event \<Rightarrow> (string option \<times> float64) list" where
  "batch_bytes_obs h = map (\<lambda>(t, n, b). (Some t, f64_of_int b)) (batch_obs h)"

definition pt_pair :: "perTopicTrend \<Rightarrow> string option \<times> float64" where
  "pt_pair pt = (Some (ptTopic pt), ptValue pt)"

lemma hooks_effect:
  assumes "mcRole mc = r"
  shows "dialSeconds (hooks mc h) = dialSeconds mc @ dial_obs h"
    and "rwSeconds (hooks mc h) = rwSeconds mc @ rw_obs r h"
    and "waitSeconds (hooks mc h) = waitSeconds mc @ wait_obs r h"
    and "map pt_pair (batchSize (hooks mc h)) = map pt_pair (batchSize mc) @ batch_size_obs h"
    and "map pt_pair (batchBytes (hooks mc h)) = map pt_pair (batchBytes mc) @ batch_bytes_obs h"
    and "dialCount (hooks mc h) = dialCount mc + int (length (dial_obs h))"
    and "dialFlushed (hooks mc h) = dialFlushed mc"
    and "gm_get (batchCount (hooks mc h)) t =
           gm_get (batchCount mc) t + int (length (filter (\<lambda>(t', _). t' = t) (batch_obs h)))"
    and "batchFlushed (hooks mc h) = batchFlushed mc"
  using assms
  by (cases h; cases r; cases "case h of BrokerConnect d e \<Rightarrow> e | BrokerWrite k w t e \<Rightarrow> e | BrokerRead k w t e \<Rightarrow> e | _ \<Rightarrow> None";
      auto simp: hook_defs pt_pair_def batch_size_obs_def batch_bytes_obs_def gomap_simps)+

section \<open>What one drain reports\<close>

lemma drained_trends:
  assumes "collector_inv r mc"
  shows "trend_values (dialSecM registerMetrics r) (drained ord mc base now) = dialSeconds mc"
    and "trend_values (rwSecM registerMetrics r) (drained ord mc base now) = rwSeconds mc"
    and "trend_values (waitSecM registerMetrics r) (drained ord mc base now) = waitSeconds mc"
    and "topic_values (batchSizeM registerMetrics r) (drained ord mc base now) = map pt_pair (batchSize mc)"
    and "topic_values (batchBytesM registerMetrics r) (drained ord mc base now) = map pt_pair (batchBytes mc)"
  using assms hook_metrics_distinct [of r]
  by (simp_all add: drained_def Let_def collector_inv_def report_map_others report_map_same
        pt_pair_def [abs_def] case_prod_unfold)

lemma counter_total_same:
  "counter_total m P (map (\<lambda>x. mk_sample m (f x) now (g x)) xs) = (\<Sum>x\<leftarrow>xs. if P (f x) then f64_val (g x) else 0)"
  by (induction xs) (auto simp: counter_total_def)

lemma drained_dials:
  assumes "collector_inv r mc" and "dialCount mc \<le> 2 ^ 53"
  shows "counter_total (dialCountM registerMetrics r) (\<lambda>_. True) (drained ord mc base now) =
           of_int (dialCount mc - dialFlushed mc)"
proof -
  have "f64_val (f64_of_int (dialCount mc - dialFlushed mc)) = of_int (dialCount mc - dialFlushed mc)"
    using assms by (intro f64_val_of_int) (auto simp: collector_inv_def)
  then have "counter_total (dialCountM registerMetrics r) (\<lambda>_. True)
      (if dialCount mc > dialFlushed mc
       then [mk_sample (dialCountM registerMetrics r) base now (f64_of_int (dialCount mc - dialFlushed mc))] else [])
      = of_int (dialCount mc - dialFlushed mc)"
    using assms by (auto simp: counter_total_def collector_inv_def)
  then show ?thesis
    using assms(1) hook_metrics_distinct [of r]
    by (simp add: drained_def Let_def collector_inv_def report_map_others case_prod_unfold)
qed

lemma sum_list_one_key:
  assumes "distinct (map fst xs)"
  shows "(\<Sum>x\<leftarrow>xs. if fst x = t then (f x :: rat) else 0) =
     (case map_of xs t of None \<Rightarrow> 0 | Some n \<Rightarrow> f (t, n))"
  using assms
proof (induction xs)
  case (Cons x xs)
  have "(\<Sum>x\<leftarrow>xs. if fst x = t then f x else 0) = 0" if "t \<notin> fst ` set xs"
    using that by (induction xs) auto
  with Cons show ?case by (cases x) (auto simp: map_of_eq_None_iff)
qed simp

lemma drained_batches:
  assumes "collector_inv r mc" and "order_ok ord" and "gm_get (batchCount mc) t \<le> 2 ^ 53"
  shows "counter_total (batchCountM registerMetrics r) (\<lambda>x. tag_topic x = Some t) (drained ord mc base now) =
           of_int (gm_get (batchCount mc) t - gm_get (batchFlushed mc) t)"
proof -
  let ?fl = "gm_get (batchFlushed mc)" and ?xs = "ord (batchCount mc)"
  let ?M = "batchCountM registerMetrics r"
  have wf: "gm_wf (batchCount mc)" using assms(1) by (simp add: collector_inv_def)
  note k = order_keys [OF assms(2) wf]
  have bounds: "0 \<le> ?fl t" "?fl t \<le> gm_get (batchCount mc) t" using assms(1) by (simp_all add: collector_inv_def)
  have sel: "(\<Sum>x\<leftarrow>filter (\<lambda>x. snd x > ?fl (fst x)) ys. if fst x = t then f64_val (f64_of_int (snd x - ?fl (fst x))) else 0) =
      (\<Sum>x\<leftarrow>ys. if fst x = t then (if snd x > ?fl t then f64_val (f64_of_int (snd x - ?fl t)) else 0) else 0)" for ys
    by (induction ys) auto
  have key: "(\<Sum>x\<leftarrow>?xs. if fst x = t then (if snd x > ?fl t then f64_val (f64_of_int (snd x - ?fl t)) else 0) else 0) =
      (case map_of ?xs t of None \<Rightarrow> 0 | Some n \<Rightarrow> if n > ?fl t then f64_val (f64_of_int (n - ?fl t)) else 0)"
    using sum_list_one_key [OF k(1), of t "\<lambda>x. if snd x > ?fl t then f64_val (f64_of_int (snd x - ?fl t)) else 0"]
    unfolding fst_conv snd_conv .
  have "counter_total ?M (\<lambda>x. tag_topic x = Some t)
      (map (\<lambda>x. mk_sample ?M (With base ''topic'' (fst x)) now (f64_of_int (snd x - ?fl (fst x))))
        (filter (\<lambda>x. snd x > ?fl (fst x)) ?xs)) =
      (case map_of ?xs t of None \<Rightarrow> 0 | Some n \<Rightarrow> if n > ?fl t then f64_val (f64_of_int (n - ?fl t)) else 0)"
    by (simp add: counter_total_same sel key)
  also have "\<dots> = of_int (gm_get (batchCount mc) t - ?fl t)"
    using bounds assms(3) f64_val_of_int [of "gm_get (batchCount mc) t - ?fl t"]
    unfolding k(2) by (auto simp: gm_get_def split: option.splits)
  finally show ?thesis
    using assms(1) hook_metrics_distinct [of r]
    by (auto simp: drained_def Let_def collector_inv_def report_map_others case_prod_unfold)
qed

section \<open>Every hook metric is drained\<close>

definition dials_bounded :: "metricsCollector \<Rightarrow> bool" where
  "dials_bounded mc \<longleftrightarrow> dialCount mc \<le> 2 ^ 53"

definition batches_bounded :: "string \<Rightarrow> metricsCollector \<Rightarrow> bool" where
  "batches_bounded t mc \<longleftrightarrow> gm_get (batchCount mc) t \<le> 2 ^ 53"

lemmas drainHooks_fields = drainHooks_state [OF _ _ refl]
lemmas hooks_fields = hooks_effect [OF refl]

lemma inv_role: "collector_inv r mc \<Longrightarrow> mcRole mc = r"
  by (simp add: collector_inv_def)

interpretation dial_count: drained_metric r
  "\<lambda>mc. of_int (dialCount mc - dialFlushed mc) :: rat" dial_count_obs
  "counter_total (dialCountM registerMetrics r) (\<lambda>_. True)" "(+)" 0 dials_bounded for r
  by unfold_locales
     (auto simp: report_call_site hook_metrics_not_call_site hooks_fields dial_count_obs_def dials_bounded_def
        drained_dials drainHooks_fields)

interpretation dial_seconds: drained_metric r dialSeconds dial_obs
  "trend_values (dialSecM registerMetrics r)" "(@)" "[]" "\<lambda>_. True" for r
  by unfold_locales
     (auto simp: report_call_site hook_metrics_not_call_site hooks_fields drained_trends drainHooks_fields)

interpretation rw_seconds: drained_metric r rwSeconds "rw_obs r"
  "trend_values (rwSecM registerMetrics r)" "(@)" "[]" "\<lambda>_. True" for r
  by unfold_locales
     (auto simp: report_call_site hook_metrics_not_call_site hooks_fields inv_role drained_trends drainHooks_fields)

interpretation wait_seconds: drained_metric r waitSeconds "wait_obs r"
  "trend_values (waitSecM registerMetrics r)" "(@)" "[]" "\<lambda>_. True" for r
  by unfold_locales
     (auto simp: report_call_site hook_metrics_not_call_site hooks_fields inv_role drained_trends drainHooks_fields)

interpretation batch_count: drained_metric r
  "\<lambda>mc. of_int (gm_get (batchCount mc) t - gm_get (batchFlushed mc) t) :: rat" "batch_count_obs t"
  "counter_total (batchCountM registerMetrics r) (\<lambda>x. tag_topic x = Some t)" "(+)" 0 "batches_bounded t" for r t
  by unfold_locales
     (auto simp: report_call_site hook_metrics_not_call_site hooks_fields batch_count_obs_def batches_bounded_def
        drained_batches drainHooks_fields)

interpretation batch_size: drained_metric r "\<lambda>mc. map pt_pair (batchSize mc)" batch_size_obs
  "topic_values (batchSizeM registerMetrics r)" "(@)" "[]" "\<lambda>_. True" for r
  by unfold_locales
     (auto simp: report_call_site hook_metrics_not_call_site hooks_fields drained_trends drainHooks_fields)

interpretation batch_bytes: drained_metric r "\<lambda>mc. map pt_pair (batchBytes mc)" batch_bytes_obs
  "topic_values (batchBytesM registerMetrics r)" "(@)" "[]" "\<lambda>_. True" for r
  by unfold_locales
     (auto simp: report_call_site hook_metrics_not_call_site hooks_fields drained_trends drainHooks_fields)

section \<open>Executions as a whole\<close>

fun hooks_of :: "collector_event list \<Rightarrow> hook_event list" where
  "hooks_of [] = []"
| "hooks_of (Hook h # es) = h # hooks_of es"
| "hooks_of (_ # es) = hooks_of es"

lemma observed_lists:
  "dial_seconds.observed es = concat (map dial_obs (hooks_of es))"
  "rw_seconds.observed r es = concat (map (rw_obs r) (hooks_of es))"
  "wait_seconds.observed r es = concat (map (wait_obs r) (hooks_of es))"
  "batch_size.observed es = concat (map batch_size_obs (hooks_of es))"
  "batch_bytes.observed es = concat (map batch_bytes_obs (hooks_of es))"
  by (induction es rule: hooks_of.induct) simp_all

lemma observed_counts:
  "dial_count.observed es = of_nat (length (concat (map dial_obs (hooks_of es))))"
  "batch_count.observed t es =
     of_nat (length (filter (\<lambda>(t', _). t' = t) (concat (map batch_obs (hooks_of es)))))"
  by (induction es rule: hooks_of.induct) (simp_all add: dial_count_obs_def batch_count_obs_def)

lemma hooks_of_Cons: "hooks_of (e # es) = hooks_of [e] @ hooks_of es"
  by (cases e) simp_all

lemma counts_step:
  assumes "collector_inv r mc" and "event_ok e"
  shows "dialCount (fst (collector_step mc e)) = dialCount mc + int (length (concat (map dial_obs (hooks_of [e]))))"
    and "gm_get (batchCount (fst (collector_step mc e))) t = gm_get (batchCount mc) t +
           int (length (filter (\<lambda>(t', _). t' = t) (concat (map batch_obs (hooks_of [e])))))"
  using collector_step_flush [OF assms] assms(1)
  by (cases e; auto simp: hooks_fields drainHooks_fields)+

lemma counts_run:
  assumes "collector_inv r mc" and "list_all event_ok es"
  shows "dialCount (fst (collector_run mc es)) = dialCount mc + int (length (concat (map dial_obs (hooks_of es)))) \<and>
    gm_get (batchCount (fst (collector_run mc es))) t = gm_get (batchCount mc) t +
           int (length (filter (\<lambda>(t', _). t' = t) (concat (map batch_obs (hooks_of es)))))"
  using assms
proof (induction es arbitrary: mc)
  case (Cons e es)
  then have e: "event_ok e" by simp
  show ?case
    using Cons.IH [OF collector_inv_step [OF Cons.prems(1) e]] Cons.prems(2) counts_step [OF Cons.prems(1) e]
    by (subst (1 2) hooks_of_Cons) (simp add: Let_def case_prod_unfold)
qed simp

lemma obs_length:
  "length (concat (map dial_obs hs)) \<le> length hs"
  "length (filter P (concat (map batch_obs hs))) \<le> length hs"
proof -
  have d: "length (dial_obs h) \<le> 1" for h by (cases h rule: dial_obs.cases) auto
  have b: "length (filter P (batch_obs h)) \<le> 1" for h by (cases h) auto
  show "length (concat (map dial_obs hs)) \<le> length hs"
  proof (induction hs)
    case (Cons h hs)
    then show ?case using d [of h] by simp
  qed simp
  show "length (filter P (concat (map batch_obs hs))) \<le> length hs"
  proof (induction hs)
    case (Cons h hs)
    then show ?case using b [of h] by simp
  qed simp
qed

lemma run_bounded:
  assumes "list_all event_ok es" and "length (hooks_of es) \<le> 2 ^ 53"
    and "collector_run (newMetricsCollector registerMetrics r) es = (mc, out)"
  shows "dials_bounded mc" and "batches_bounded t mc"
proof -
  note c = counts_run [OF collector_inv_new assms(1), of r t]
  have "int (length (concat (map dial_obs (hooks_of es)))) \<le> 2 ^ 53"
    using obs_length(1) [of "hooks_of es"] assms(2) by simp
  then show "dials_bounded mc" using c assms(3) by (simp add: dials_bounded_def newMetricsCollector_def)
  have "int (length (filter (\<lambda>(t', _). t' = t) (concat (map batch_obs (hooks_of es))))) \<le> 2 ^ 53"
    using obs_length(2) [of "\<lambda>(t', _). t' = t" "hooks_of es"] assms(2) by simp
  then show "batches_bounded t mc" using c assms(3) by (simp add: batches_bounded_def newMetricsCollector_def)
qed

section \<open>Properties\<close>

text \<open>C3: Counters report true totals. In every interleaving of hook calls and flushes from a new
  collector, the sum k6 makes of the dial-count samples plus what is not yet flushed equals the
  number of successful broker connections, and likewise per topic for the batch (fetch) count:
  each flush emits the increase since the previous one, never a running total, and a flush
  without VU state loses nothing. (Flushes in a VU context that is done are excluded: k6 drops their samples.)\<close>

theorem counters_conserved:
  assumes "list_all event_ok es" and "length (hooks_of es) \<le> 2 ^ 53"
    and "collector_run (newMetricsCollector registerMetrics r) es = (mc, out)"
  shows "counter_total (dialCountM registerMetrics r) (\<lambda>_. True) out + of_int (dialCount mc - dialFlushed mc) =
           of_nat (length (concat (map dial_obs (hooks_of es)))) \<and>
         counter_total (batchCountM registerMetrics r) (\<lambda>x. tag_topic x = Some t) out +
           of_int (gm_get (batchCount mc) t - gm_get (batchFlushed mc) t) =
           of_nat (length (filter (\<lambda>(t', _). t' = t) (concat (map batch_obs (hooks_of es)))))"
  using dial_count.run_conserves [OF collector_inv_new assms(1), of r]
    batch_count.run_conserves [OF collector_inv_new assms(1), of t r] run_bounded [OF assms] assms(3)
  unfolding observed_counts
  by (simp add: newMetricsCollector_def)

theorem counters_conserved_witness:
  "counter_total (dialCountM registerMetrics RoleWriter) (\<lambda>_. True)
     (snd (collector_run (newMetricsCollector registerMetrics RoleWriter)
       [Hook (BrokerConnect 5000000 None), FlushClose id (Some \<lparr>vuState = Some (CurrentTags ''v''), vuNow = 0, vuCtxErr = None, vuPushes = True\<rparr>)])) = 1"
proof -
  let ?es = "[Hook (BrokerConnect 5000000 None),
      FlushClose id (Some \<lparr>vuState = Some (CurrentTags ''v''), vuNow = 0, vuCtxErr = None, vuPushes = True\<rparr>)]"
  let ?r = "collector_run (newMetricsCollector registerMetrics RoleWriter) ?es"
  have ok: "list_all event_ok ?es" "length (hooks_of ?es) \<le> 2 ^ 53" by (simp_all add: order_ok_def live_def)
  have f: "dialCount (fst ?r) - dialFlushed (fst ?r) = 0"
    by (simp add: OnBrokerConnect_def newMetricsCollector_def flushClose_def flush_def flushed_out_def drainHooks_def)
  have "?r = (fst ?r, snd ?r)" by simp
  from counters_conserved [OF ok this] f show ?thesis by (simp only: f) (simp add: dial_obs.simps)
qed

text \<open>C26: Trend metrics report every observed value exactly once and in order: in every interleaving (with flushes
  only while the VU context is not done),
  the values emitted followed by the values still buffered are exactly the values the hooks
  observed, for dial, read/write and wait durations and for the per-topic batch sizes and bytes,
  each under its own topic.\<close>

theorem trends_exactly_once:
  assumes "list_all event_ok es"
    and "collector_run (newMetricsCollector registerMetrics r) es = (mc, out)"
  shows "trend_values (dialSecM registerMetrics r) out @ dialSeconds mc = concat (map dial_obs (hooks_of es)) \<and>
         trend_values (rwSecM registerMetrics r) out @ rwSeconds mc = concat (map (rw_obs r) (hooks_of es)) \<and>
         trend_values (waitSecM registerMetrics r) out @ waitSeconds mc = concat (map (wait_obs r) (hooks_of es)) \<and>
         topic_values (batchSizeM registerMetrics r) out @ map pt_pair (batchSize mc) =
           concat (map batch_size_obs (hooks_of es)) \<and>
         topic_values (batchBytesM registerMetrics r) out @ map pt_pair (batchBytes mc) =
           concat (map batch_bytes_obs (hooks_of es))"
  using dial_seconds.run_conserves [OF collector_inv_new assms(1) TrueI, of r]
    rw_seconds.run_conserves [OF collector_inv_new assms(1) TrueI, of r]
    wait_seconds.run_conserves [OF collector_inv_new assms(1) TrueI, of r]
    batch_size.run_conserves [OF collector_inv_new assms(1) TrueI, of r]
    batch_bytes.run_conserves [OF collector_inv_new assms(1) TrueI, of r] assms(2)
  unfolding observed_lists
  by (simp add: newMetricsCollector_def)

theorem trends_exactly_once_witness:
  "trend_values (dialSecM registerMetrics RoleWriter)
     (snd (collector_run (newMetricsCollector registerMetrics RoleWriter) [Hook (BrokerConnect 5000000 None)])) @
   dialSeconds (fst (collector_run (newMetricsCollector registerMetrics RoleWriter) [Hook (BrokerConnect 5000000 None)]))
     = [f64_of_int 5]"
  using trends_exactly_once [of "[Hook (BrokerConnect 5000000 None)]" RoleWriter, OF _ prod.collapse [symmetric]]
  by (simp add: milliseconds_def)

lemma collector_run_snoc:
  "collector_run mc (es @ [e]) =
     (fst (collector_step (fst (collector_run mc es)) e),
      snd (collector_run mc es) @ snd (collector_step (fst (collector_run mc es)) e))"
  by (induction es arbitrary: mc) (simp_all add: Let_def case_prod_beta)

lemma collector_inv_run:
  "collector_inv r mc \<Longrightarrow> list_all event_ok es \<Longrightarrow> collector_inv r (fst (collector_run mc es))"
  by (induction es arbitrary: mc) (auto simp: Let_def case_prod_beta collector_inv_step)

lemma step_close_fields:
  assumes "collector_inv r mc" and "order_ok ord" and "vuState v = Some base"
  defines "mc' \<equiv> fst (collector_step mc (FlushClose ord (Some v)))"
  shows "dialCount mc' = dialFlushed mc'" and "gm_get (batchCount mc') t = gm_get (batchFlushed mc') t"
    and "dialSeconds mc' = []" "rwSeconds mc' = []" "waitSeconds mc' = []" "batchSize mc' = []" "batchBytes mc' = []"
  using assms(3) drainHooks_fields [OF assms(1,2)]
  by (simp_all add: mc'_def flushClose_def flush_def flushed_out_def Let_def case_prod_beta)

text \<open>Closing in the VU context reports everything: after any interleaving that ends with a close
  flush in the VU context, the summed dial counter equals the number of connections, every batch
  counter its per-topic number of batches, and every buffer is empty.\<close>

theorem close_reports_everything:
  assumes "list_all event_ok es" and "order_ok ord" and "length (hooks_of es) \<le> 2 ^ 53"
    and "vuState v = Some base" and "vuPushes v"
    and "collector_run (newMetricsCollector registerMetrics r) (es @ [FlushClose ord (Some v)]) = (mc, out)"
  shows "counter_total (dialCountM registerMetrics r) (\<lambda>_. True) out =
           of_nat (length (concat (map dial_obs (hooks_of es)))) \<and>
         counter_total (batchCountM registerMetrics r) (\<lambda>x. tag_topic x = Some t) out =
           of_nat (length (filter (\<lambda>(t', _). t' = t) (concat (map batch_obs (hooks_of es))))) \<and>
         dialSeconds mc = [] \<and> rwSeconds mc = [] \<and> waitSeconds mc = [] \<and> batchSize mc = [] \<and> batchBytes mc = []"
proof -
  let ?es = "es @ [FlushClose ord (Some v)]"
  have h: "hooks_of ?es = hooks_of es" by (induction es rule: hooks_of.induct) simp_all
  have ok: "list_all event_ok ?es" using assms(1,2,5) by (simp add: live_def)
  let ?m = "fst (collector_run (newMetricsCollector registerMetrics r) es)"
  have inv: "collector_inv r ?m" by (rule collector_inv_run [OF collector_inv_new assms(1)])
  have mc: "mc = fst (collector_step ?m (FlushClose ord (Some v)))"
    using assms(6) by (simp add: collector_run_snoc)
  note f = step_close_fields [OF inv assms(2,4), folded mc]
  have b: "dials_bounded mc" "batches_bounded t mc"
    using run_bounded [OF ok _ assms(6)] h assms(3) by simp_all
  show ?thesis
    using dial_count.run_conserves [OF collector_inv_new ok, of r]
      batch_count.run_conserves [OF collector_inv_new ok, of t r] assms(6) b f
    unfolding observed_counts h by (simp add: newMetricsCollector_def)
qed

theorem close_reports_everything_witness:
  "counter_total (batchCountM registerMetrics RoleReader) (\<lambda>x. tag_topic x = Some ''t'')
     (snd (collector_run (newMetricsCollector registerMetrics RoleReader)
       ([Hook (FetchBatchRead ''t'' 3 40), Hook (FetchBatchRead ''u'' 1 9)] @
        [FlushClose id (Some \<lparr>vuState = Some (CurrentTags ''v''), vuNow = 0, vuCtxErr = None, vuPushes = True\<rparr>)]))) = 1"
  using close_reports_everything
    [of "[Hook (FetchBatchRead ''t'' 3 40), Hook (FetchBatchRead ''u'' 1 9)]" id
      "\<lparr>vuState = Some (CurrentTags ''v''), vuNow = 0, vuCtxErr = None, vuPushes = True\<rparr>" "CurrentTags ''v''" RoleReader _ _ "''t''",
     OF _ _ _ _ _ prod.collapse [symmetric]]
  by (simp add: order_ok_def)

section \<open>What produce and consume report themselves\<close>

definition pushed :: "sample list option \<Rightarrow> sample list" where
  "pushed out = (case out of None \<Rightarrow> [] | Some s \<Rightarrow> s)"

lemma pushed_simps [simp]: "pushed None = []" "pushed (Some s) = s"
  by (simp_all add: pushed_def)

lemma drained_hook_metrics:
  assumes "collector_inv r mc" and "s \<in> set (drained ord mc base now)"
  shows "smMetric s \<notin> call_site_metrics"
  using assms hook_metrics_not_call_site [of r]
  by (auto simp: drained_def Let_def collector_inv_def split: if_splits)

lemma drained_call_site_report:
  assumes "collector_inv r mc" and "m \<in> call_site_metrics"
  shows "counter_total m P (drained ord mc base now) = 0"
    and "topic_values m (drained ord mc base now) = []"
  using drained_hook_metrics [OF assms(1)] assms(2) by (auto intro!: report_other)

lemma pushed_flush:
  assumes "collector_inv r mc" and "order_ok ord" and "vuState v = Some base" and "vuPushes v"
  shows "pushed (snd (flush ord (Some mc) (Some v) (Some f))) = f (vuNow v) base [] @ drained ord mc base (vuNow v)"
proof -
  have "gm_wf (batchCount mc)" using assms(1) by (simp add: collector_inv_def)
  from drainHooks_out [of ord mc base "vuNow v" "f (vuNow v) base []", OF order_keys(1) [OF assms(2) this]]
  show ?thesis using assms(3,4) by (simp add: flush_def Let_def case_prod_beta)
qed

lemma flush_no_state: "vuState v = None \<Longrightarrow> flush ord mco (Some v) cb = (mco, None)"
  by (simp add: flush_def split: option.splits)

lemma add_counts_report:
  assumes "distinct (map fst xs)" and "cm \<noteq> bm"
  shows "counter_total cm (\<lambda>x. tag_topic x = Some t) (add_counts cm bm mb base now xs []) =
           (case map_of xs t of None \<Rightarrow> 0 | Some n \<Rightarrow> f64_val (f64_of_int n))"
    and "counter_total bm (\<lambda>x. tag_topic x = Some t) (add_counts cm bm mb base now xs []) =
           (case map_of xs t of None \<Rightarrow> 0 | Some n \<Rightarrow> f64_val (f64_of_int (gm_get mb t)))"
proof -
  let ?f = "\<lambda>(t, n). [mk_sample cm (With base ''topic'' t) now (f64_of_int n),
                       mk_sample bm (With base ''topic'' t) now (f64_of_int (gm_get mb t))]"
  have one: "counter_total m P (a # b # ys) = counter_total m P [a] + counter_total m P [b] + counter_total m P ys"
    for m P a b ys by (simp add: counter_total_def)
  have "counter_total cm (\<lambda>x. tag_topic x = Some t) (concat (map ?f ys)) =
        (\<Sum>x\<leftarrow>ys. if fst x = t then f64_val (f64_of_int (snd x)) else 0)" for ys
    using assms(2) by (induction ys) (auto simp: one)
  moreover have "counter_total bm (\<lambda>x. tag_topic x = Some t) (concat (map ?f ys)) =
        (\<Sum>x\<leftarrow>ys. if fst x = t then f64_val (f64_of_int (gm_get mb (fst x))) else 0)" for ys
    using assms(2) by (induction ys) (auto simp: one)
  ultimately show "counter_total cm (\<lambda>x. tag_topic x = Some t) (add_counts cm bm mb base now xs []) =
           (case map_of xs t of None \<Rightarrow> 0 | Some n \<Rightarrow> f64_val (f64_of_int n))"
    "counter_total bm (\<lambda>x. tag_topic x = Some t) (add_counts cm bm mb base now xs []) =
           (case map_of xs t of None \<Rightarrow> 0 | Some n \<Rightarrow> f64_val (f64_of_int (gm_get mb t)))"
    using sum_list_one_key [OF assms(1), of t "\<lambda>x. f64_val (f64_of_int (snd x))"]
      sum_list_one_key [OF assms(1), of t "\<lambda>x. f64_val (f64_of_int (gm_get mb (fst x)))"]
    by (simp_all add: add_counts_eq split: option.splits)
qed

lemma add_counts_metrics:
  "s \<in> set (add_counts cm bm mb base now xs []) \<Longrightarrow> smMetric s = cm \<or> smMetric s = bm"
  by (auto simp: add_counts_eq)

end
