(* ===== verification/Lifecycle.thy ===== *)
theory Lifecycle
  imports Metrics Client
begin

text \<open>
  What the three classes that own a franz-go client share: the client as the options it was
  built from (absent once closed), the effects of closing it, and the locale \<open>closable\<close> with
  the contract of \<open>Close\<close>.
\<close>

section \<open>Clients and effects\<close>

type_synonym client = "kgo_opt list"

datatype go_context = BackgroundContext | VUContext

text \<open>A franz-go record; a timestamp is \<open>None\<close> when it is Go's zero time.\<close>

record kgo_Record =
  rTopic :: string
  rKey :: gobytes
  rValue :: gobytes
  rHeaders :: "(string \<times> gobytes) list"
  rTimestamp :: "int option"
  rPartition :: int
  rOffset :: int

text \<open>Calls on the client and on the VU's sample buffer, in the order they are made.\<close>

datatype client_effect =
    ClientFlush go_context
  | PushSamples "sample list"
  | CommitUncommittedOffsets go_context int
  | ClientClose

definition push_effect :: "sample list option \<Rightarrow> client_effect list" where
  "push_effect out = (case out of None \<Rightarrow> [] | Some s \<Rightarrow> [PushSamples s])"

definition close_context :: "vu option \<Rightarrow> go_context" where
  "close_context vo = (case vo of None \<Rightarrow> BackgroundContext | Some _ \<Rightarrow> VUContext)"

text \<open>Hooks that fire while the client works, seen by an optional collector.\<close>

definition run_hooks :: "metricsCollector option \<Rightarrow> hook_event list \<Rightarrow> metricsCollector option" where
  "run_hooks mco hs = map_option (\<lambda>mc. foldl hooks mc hs) mco"

lemma collector_inv_run_hooks:
  "collector_inv r mc \<Longrightarrow> collector_inv r (foldl hooks mc hs)"
  by (induction hs arbitrary: mc) (simp_all add: collector_inv_hooks)

section \<open>What a close reports\<close>

text \<open>What a close pushes: samples for everything the hooks observed since the last flush, unless there is nothing, no
  state, or the samples are dropped.\<close>

definition close_push :: "range_order \<Rightarrow> metricsCollector option \<Rightarrow> vu option \<Rightarrow> client_effect list" where
  "close_push ord mco vo =
     (case (mco, vo) of
        (Some mc, Some v) \<Rightarrow>
          (case vuState v of
             None \<Rightarrow> []
           | Some base \<Rightarrow>
              if drained ord mc base (vuNow v) = [] \<or> \<not> vuPushes v then []
              else [PushSamples (drained ord mc base (vuNow v))])
      | _ \<Rightarrow> [])"

lemma flushClose_push:
  assumes "order_ok ord" and "\<And>mc. mco = Some mc \<Longrightarrow> collector_inv r mc"
  shows "push_effect (snd (flushClose ord mco vo)) = close_push ord mco vo"
proof (cases mco)
  case (Some mc)
  then have "gm_wf (batchCount mc)" using assms(2) by (simp add: collector_inv_def)
  then have "snd (drainHooks ord mc base now []) = drained ord mc base now" for base now
    using drainHooks_out [of ord mc base now "[]"] order_keys(1) [OF assms(1)] by simp
  then show ?thesis
    by (auto simp: Some flushClose_def flush_def close_push_def push_effect_def Let_def case_prod_beta split: option.split)
qed (simp add: flushClose_def flush_def close_push_def push_effect_def)

lemma close_push_no_close [simp]: "ClientClose \<notin> set (close_push ord mco vo)"
  by (auto simp: close_push_def split: option.split)

section \<open>Conditional options\<close>

text \<open>\<open>if cond { opts = append(opts, x) }\<close>.\<close>

definition opt_list :: "bool \<Rightarrow> kgo_opt \<Rightarrow> kgo_opt list" where
  "opt_list b x = (if b then [x] else [])"

lemma opt_list_simps [simp]: "opt_list True x = [x]" "opt_list False x = []"
  by (simp_all add: opt_list_def)

lemma set_opt_list [simp]: "y \<in> set (opt_list b x) \<longleftrightarrow> b \<and> y = x"
  by (cases b) simp_all

section \<open>The contract of closing\<close>

fun close_times :: "('s \<Rightarrow> 's \<times> client_effect list) \<Rightarrow> nat \<Rightarrow> 's \<Rightarrow> 's \<times> client_effect list" where
  "close_times close 0 s = (s, [])"
| "close_times close (Suc n) s =
     (let (s1, e1) = close s; (s2, e2) = close_times close n s1 in (s2, e1 @ e2))"

locale closable =
  fixes close :: "'s \<Rightarrow> 's \<times> client_effect list"
    and opened :: "'s \<Rightarrow> bool"
  assumes close_closed: "\<not> opened s \<Longrightarrow> close s = (s, [])"
    and close_opened: "opened s \<Longrightarrow> \<not> opened (fst (close s)) \<and>
          (\<exists>es. snd (close s) = es @ [ClientClose] \<and> ClientClose \<notin> set es)"
begin

lemma close_times_closed: "\<not> opened s \<Longrightarrow> close_times close n s = (s, [])"
  by (induction n) (simp_all add: close_closed)

text \<open>However often an object is closed, its client is closed once and everything else comes before.\<close>

lemma close_once:
  assumes "opened s" and "0 < n"
  shows "close_times close n s = close s"
    and "count_list (snd (close_times close n s)) ClientClose = 1"
    and "last (snd (close_times close n s)) = ClientClose"
proof -
  from assms(2) obtain k where n: "n = Suc k" by (cases n) auto
  have "close_times close k (fst (close s)) = (fst (close s), [])"
    using close_opened [OF assms(1)] by (intro close_times_closed) simp
  then show eq: "close_times close n s = close s"
    by (simp add: n case_prod_beta)
  obtain es where es: "snd (close s) = es @ [ClientClose]" "ClientClose \<notin> set es"
    using close_opened [OF assms(1)] by blast
  then have "count_list es ClientClose = 0" by (simp add: count_list_0_iff)
  then show "count_list (snd (close_times close n s)) ClientClose = 1"
    and "last (snd (close_times close n s)) = ClientClose"
    using es by (simp_all add: eq)
qed

end

end
