(* ===== verification/Producer.thy ===== *)
theory Producer
  imports Lifecycle
begin

text \<open>
  \<open>producer.go\<close>: the writer's configuration and client options, marshalling of messages,
  \<open>Produce\<close> with its per-record accounting, and \<open>Close\<close>. The broker is franz-go: \<open>produceSync\<close>
  gives the per-record results of a call together with the hooks that fired during it.
\<close>

section \<open>Data\<close>

record WriterConfig =
  wBrokers :: "string list"
  wTopic :: string
  wAutoCreateTopic :: bool
  wBalancer :: gval
  wMaxAttempts :: "int option"
  wBatchSize :: int
  wBatchBytes :: int
  wBatchTimeout :: int
  wReadTimeout :: int
  wRequiredAcks :: "int option"
  wWriteTimeout :: int
  wCompression :: string
  wSASL :: "SASLConfig option"
  wTLS :: "TLSConfig option"
  wConnectLogger :: bool

record ProduceMessage =
  pmTopic :: string
  pmKey :: gval
  pmValue :: gval
  pmHeaders :: "(string \<times> gval) list"
  pmTime :: "int option"

record ProduceConfig =
  pcMessages :: "ProduceMessage list"

record Writer =
  wrClient :: "client option"
  wrCollector :: "metricsCollector option"
  wrDefaultTopic :: string

section \<open>Options\<close>

definition acksFromInt :: "int \<Rightarrow> acks res" where
  "acksFromInt n =
     (if n = -1 then Inr AllISRAcks
      else if n = 0 then Inr NoAck
      else if n = 1 then Inr LeaderAck
      else Inl (Errorf ''invalid requiredAcks %d (must be -1, 0, or 1)'' [AInt n]))"

definition compressionCodec :: "string \<Rightarrow> compression option" where
  "compressionCodec name =
     (if name = codecGzip then Some GzipCompression
      else if name = codecSnappy then Some SnappyCompression
      else if name = codecLz4 then Some Lz4Compression
      else if name = codecZstd then Some ZstdCompression
      else None)"

definition partitioner :: "gval \<Rightarrow> partitioner option" where
  "partitioner balancer =
     (case balancer of
        GString name \<Rightarrow>
          if name = balancerRoundRobin then Some RoundRobinPartitioner
          else if name = balancerLeastBytes then Some LeastBackupPartitioner
          else if name = balancerHash \<or> name = balancerMurmur2 then Some StickyKeyPartitioner
          else None
      | _ \<Rightarrow> None)"

definition writerOptions :: "crypto \<Rightarrow> WriterConfig \<Rightarrow> metricsCollector option \<Rightarrow> kgo_opt list res" where
  "writerOptions cr cfg collector =
     (case clientOptions cr (wBrokers cfg) (wSASL cfg) (wTLS cfg) of
        Inl err \<Rightarrow> Inl err
      | Inr opts \<Rightarrow>
         (let opts = opts @ opt_list (collector \<noteq> None) WithHooks;
              opts = opts @ opt_list (wTopic cfg \<noteq> '''') (DefaultProduceTopic (wTopic cfg));
              opts = opts @ opt_list (wAutoCreateTopic cfg) AllowAutoTopicCreation;
              opts = (case compressionCodec (wCompression cfg) of
                        Some codec \<Rightarrow> opts @ [ProducerBatchCompression codec] | None \<Rightarrow> opts);
              opts = (case partitioner (wBalancer cfg) of
                        Some p \<Rightarrow> opts @ [RecordPartitioner p] | None \<Rightarrow> opts)
          in case (case wRequiredAcks cfg of
                     None \<Rightarrow> Inr (AllISRAcks, opts)
                   | Some n \<Rightarrow>
                       (case acksFromInt n of
                          Inl err \<Rightarrow> Inl err
                        | Inr a \<Rightarrow> Inr (a, opts @ opt_list (n \<noteq> -1) DisableIdempotentWrite))) of
               Inl err \<Rightarrow> Inl err
             | Inr (acks, opts) \<Rightarrow>
                (let opts = opts @ [RequiredAcks acks] in
                 case (case wMaxAttempts cfg of
                         None \<Rightarrow> Inr opts
                       | Some n \<Rightarrow>
                           if n < 0 then Inl (Errorf ''invalid maxAttempts %d (must be >= 0)'' [AInt n])
                           else Inr (opts @ [RecordRetries n, UnknownTopicRetries n])) of
                   Inl err \<Rightarrow> Inl err
                 | Inr opts \<Rightarrow>
                    (let opts = opts @ opt_list (wBatchBytes cfg > 0 \<and> wBatchBytes cfg \<le> maxInt32)
                                         (ProducerBatchMaxBytes (wBatchBytes cfg));
                         opts = opts @ opt_list (wBatchTimeout cfg > 0) (ProducerLinger (wBatchTimeout cfg));
                         opts = opts @ opt_list (wWriteTimeout cfg > 0) (ProduceRequestTimeout (wWriteTimeout cfg))
                     in Inr opts))))"

definition openWriter ::
  "crypto \<Rightarrow> (kgo_opt list \<Rightarrow> go_error option) \<Rightarrow> WriterConfig \<Rightarrow> metricsCollector option \<Rightarrow> Writer res" where
  "openWriter cr newClient cfg collector =
     (if wBrokers cfg = [] then Inl (ErrNew ''at least one broker is required'')
      else case writerOptions cr cfg collector of
             Inl err \<Rightarrow> Inl err
           | Inr opts \<Rightarrow>
               (case newClient opts of
                  Some err \<Rightarrow> Inl (Wrapf ''creating producer: %w'' [] err)
                | None \<Rightarrow> Inr \<lparr>wrClient = Some opts, wrCollector = collector, wrDefaultTopic = wTopic cfg\<rparr>))"

section \<open>Producing\<close>

definition marshalRecord :: "fmt_env \<Rightarrow> ProduceMessage \<Rightarrow> kgo_Record" where
  "marshalRecord e m =
     \<lparr>rTopic = pmTopic m, rKey = toBytes e (pmKey m), rValue = toBytes e (pmValue m),
      rHeaders = map (\<lambda>(key, value). (key, toBytes e value)) (pmHeaders m),
      rTimestamp = pmTime m, rPartition = 0, rOffset = 0\<rparr>"

type_synonym produce_result = "kgo_Record \<times> go_error option"

text \<open>The broker side of a produce is a parameter that maps the records and a world to a result for each
  record, the hooks that fire meanwhile and the next world.\<close>

record 'w kgo_producer =
  produceSync :: "kgo_Record list \<Rightarrow> 'w \<Rightarrow> produce_result list \<times> hook_event list \<times> 'w"
  firstErr :: "produce_result list \<Rightarrow> go_error option"

definition effective_topic :: "string \<Rightarrow> kgo_Record \<Rightarrow> string" where
  "effective_topic defaultTopic rec = (if rTopic rec = '''' then defaultTopic else rTopic rec)"

fun count_results ::
  "string \<Rightarrow> produce_result list \<Rightarrow> int gomap \<times> int gomap \<times> int \<Rightarrow> int gomap \<times> int gomap \<times> int" where
  "count_results dt [] acc = acc"
| "count_results dt ((rec, err) # rest) (msgCount, msgBytes, errCount) =
     (if err \<noteq> None then count_results dt rest (msgCount, msgBytes, errCount + 1)
      else let topic = effective_topic dt rec in
           count_results dt rest
             (gm_add topic 1 msgCount,
              gm_add topic (int (length (slice_of (rKey rec)) + length (slice_of (rValue rec)))) msgBytes,
              errCount))"

definition Produce ::
  "fmt_env \<Rightarrow> range_order \<Rightarrow> 'w kgo_producer \<Rightarrow> vu \<Rightarrow> Writer \<Rightarrow> ProduceConfig \<Rightarrow> 'w
   \<Rightarrow> go_error option \<times> Writer \<times> sample list option \<times> 'w" where
  "Produce e ord kp v w config b =
     (if vuState v = None
      then (Some (ErrNew ''produce must be called in the VU context (default/setup/teardown function), not in init''), w, None, b)
      else if wrClient w = None then (Some (ErrNew ''writer is closed''), w, None, b)
      else
        let records = map (marshalRecord e) (pcMessages config);
            (results, hs, b) = produceSync kp records b;
            (msgCount, msgBytes, errCount) = count_results (wrDefaultTopic w) results ([], [], 0);
            (mc, out) = flushProduce ord (run_hooks (wrCollector w) hs) v msgCount msgBytes errCount;
            w = w\<lparr>wrCollector := mc\<rparr>
        in case firstErr kp results of
             Some err \<Rightarrow> (Some (Wrapf ''producing messages: %w'' [] err), w, out, b)
           | None \<Rightarrow> (None, w, out, b))"

section \<open>Closing\<close>

text \<open>\<open>hs\<close> are the hooks that fire while the client flushes.\<close>

definition WriterClose ::
  "range_order \<Rightarrow> hook_event list \<Rightarrow> vu option \<Rightarrow> Writer \<Rightarrow> Writer \<times> client_effect list" where
  "WriterClose ord hs vo w =
     (if wrClient w = None then (w, [])
      else
        let (mc, out) = flushClose ord (run_hooks (wrCollector w) hs) vo
        in (w\<lparr>wrCollector := mc, wrClient := None\<rparr>,
            [ClientFlush (close_context vo)] @ push_effect out @ [ClientClose]))"

section \<open>Options: what is built and when\<close>

definition writer_extra :: "WriterConfig \<Rightarrow> metricsCollector option \<Rightarrow> acks \<Rightarrow> kgo_opt list" where
  "writer_extra cfg collector a =
     opt_list (collector \<noteq> None) WithHooks @
     opt_list (wTopic cfg \<noteq> '''') (DefaultProduceTopic (wTopic cfg)) @
     opt_list (wAutoCreateTopic cfg) AllowAutoTopicCreation @
     map ProducerBatchCompression (case compressionCodec (wCompression cfg) of None \<Rightarrow> [] | Some c \<Rightarrow> [c]) @
     map RecordPartitioner (case partitioner (wBalancer cfg) of None \<Rightarrow> [] | Some p \<Rightarrow> [p]) @
     opt_list (a \<noteq> AllISRAcks) DisableIdempotentWrite @
     [RequiredAcks a] @
     (case wMaxAttempts cfg of None \<Rightarrow> [] | Some n \<Rightarrow> [RecordRetries n, UnknownTopicRetries n]) @
     opt_list (wBatchBytes cfg > 0 \<and> wBatchBytes cfg \<le> maxInt32) (ProducerBatchMaxBytes (wBatchBytes cfg)) @
     opt_list (wBatchTimeout cfg > 0) (ProducerLinger (wBatchTimeout cfg)) @
     opt_list (wWriteTimeout cfg > 0) (ProduceRequestTimeout (wWriteTimeout cfg))"

definition acks_of :: "int option \<Rightarrow> acks option" where
  "acks_of n = (case n of None \<Rightarrow> Some AllISRAcks
     | Some k \<Rightarrow> if k = -1 then Some AllISRAcks else if k = 0 then Some NoAck
                else if k = 1 then Some LeaderAck else None)"

lemma writerOptions_ok:
  "writerOptions cr cfg collector = Inr opts \<longleftrightarrow>
     (\<exists>base a. clientOptions cr (wBrokers cfg) (wSASL cfg) (wTLS cfg) = Inr base \<and>
        acks_of (wRequiredAcks cfg) = Some a \<and>
        (\<forall>n. wMaxAttempts cfg = Some n \<longrightarrow> 0 \<le> n) \<and>
        opts = base @ writer_extra cfg collector a)"
  unfolding writerOptions_def writer_extra_def acks_of_def acksFromInt_def
  by (cases "clientOptions cr (wBrokers cfg) (wSASL cfg) (wTLS cfg)"; cases "wRequiredAcks cfg";
      cases "wMaxAttempts cfg"; cases "compressionCodec (wCompression cfg)"; cases "partitioner (wBalancer cfg)";
      auto simp: Let_def)

lemma writer_extra_not_security: "list_all (\<lambda>x. \<not> security_opt x) (writer_extra cfg collector a)"
  by (auto simp: writer_extra_def opt_list_def list_all_iff split: option.splits)

interpretation writer_client: client_builder "\<lambda>cfg. writerOptions cr cfg collector" wBrokers wSASL wTLS cr
  for cr collector
proof unfold_locales
  fix cfg :: WriterConfig and opts
  assume "writerOptions cr cfg collector = Inr opts"
  then show "\<exists>base rest. clientOptions cr (wBrokers cfg) (wSASL cfg) (wTLS cfg) = Inr base \<and>
      opts = base @ rest \<and> list_all (\<lambda>x. \<not> security_opt x) rest"
    unfolding writerOptions_ok using writer_extra_not_security by blast
next
  fix cfg :: WriterConfig and e
  assume "clientOptions cr (wBrokers cfg) (wSASL cfg) (wTLS cfg) = Inl e"
  then show "writerOptions cr cfg collector = Inl e" by (simp add: writerOptions_def)
qed

section \<open>Accounting of a produce call\<close>

definition successes :: "string \<Rightarrow> string \<Rightarrow> produce_result list \<Rightarrow> produce_result list" where
  "successes dt t rs = filter (\<lambda>(rec, err). err = None \<and> effective_topic dt rec = t) rs"

definition failures :: "produce_result list \<Rightarrow> produce_result list" where
  "failures rs = filter (\<lambda>(rec, err). err \<noteq> None) rs"

definition record_bytes :: "kgo_Record \<Rightarrow> nat" where
  "record_bytes rec = length (slice_of (rKey rec)) + length (slice_of (rValue rec))"

definition result_bytes :: "produce_result list \<Rightarrow> nat" where
  "result_bytes rs = sum_list (map (\<lambda>(rec, err). record_bytes rec) rs)"

lemma count_results_spec:
  "count_results dt rs (c, b, n) = (c', b', n') \<Longrightarrow>
     gm_get c' t = gm_get c t + int (length (successes dt t rs)) \<and>
     gm_get b' t = gm_get b t + int (result_bytes (successes dt t rs)) \<and>
     n' = n + int (length (failures rs)) \<and> (gm_wf c \<longrightarrow> gm_wf c')"
proof (induction rs arbitrary: c b n)
  case (Cons x rs)
  obtain rec err where x: "x = (rec, err)" by (cases x)
  show ?case
    using Cons.prems Cons.IH
    by (cases err; cases "effective_topic dt rec = t")
       (fastforce simp: x Let_def gomap_simps successes_def failures_def result_bytes_def record_bytes_def)+
qed (simp add: successes_def failures_def result_bytes_def)

lemma count_results_present:
  "count_results dt rs (c, b, n) = (c', b', n') \<Longrightarrow>
     map_of c' t = None \<longleftrightarrow> map_of c t = None \<and> successes dt t rs = []"
proof (induction rs arbitrary: c b n)
  case (Cons x rs)
  obtain rec err where x: "x = (rec, err)" by (cases x)
  show ?case
    using Cons.prems Cons.IH
    by (cases err) (fastforce simp: x Let_def successes_def gm_add_def update_conv split: if_splits)+
qed (simp add: successes_def)

lemma writer_call_site_metrics:
  "kmWriterMessageCount registerMetrics \<noteq> kmWriterMessageBytes registerMetrics"
  "kmWriterMessageCount registerMetrics \<noteq> kmWriterErrorCount registerMetrics"
  "kmWriterMessageBytes registerMetrics \<noteq> kmWriterErrorCount registerMetrics"
  "kmWriterMessageCount registerMetrics \<in> call_site_metrics"
  "kmWriterMessageBytes registerMetrics \<in> call_site_metrics"
  "kmWriterErrorCount registerMetrics \<in> call_site_metrics"
  by (simp_all add: registerMetrics_def call_site_metrics_def Let_def)

lemma produceSamples_report:
  assumes "order_ok ord" and "gm_wf c"
    and out: "out = produceSamples ord registerMetrics c b n now base []"
  shows "counter_total (kmWriterMessageCount registerMetrics) (\<lambda>x. tag_topic x = Some t) out =
           (case map_of c t of None \<Rightarrow> 0 | Some k \<Rightarrow> f64_val (f64_of_int k))"
    and "counter_total (kmWriterMessageBytes registerMetrics) (\<lambda>x. tag_topic x = Some t) out =
           (case map_of c t of None \<Rightarrow> 0 | Some k \<Rightarrow> f64_val (f64_of_int (gm_get b t)))"
    and "counter_total (kmWriterErrorCount registerMetrics) (\<lambda>_. True) out =
           (if n > 0 then f64_val (f64_of_int n) else 0)"
proof -
  note k = order_keys [OF assms(1,2)] and w = writer_call_site_metrics
  note ac = add_counts_report [OF k(1) w(1), of t b base now, unfolded k(2)]
  let ?ac = "add_counts (kmWriterMessageCount registerMetrics) (kmWriterMessageBytes registerMetrics) b base now (ord c) []"
  have "counter_total (kmWriterErrorCount registerMetrics) (\<lambda>_. True) ?ac = 0"
    using w add_counts_metrics by (intro report_other) metis
  then show "counter_total (kmWriterMessageCount registerMetrics) (\<lambda>x. tag_topic x = Some t) out =
           (case map_of c t of None \<Rightarrow> 0 | Some k \<Rightarrow> f64_val (f64_of_int k))"
    "counter_total (kmWriterMessageBytes registerMetrics) (\<lambda>x. tag_topic x = Some t) out =
           (case map_of c t of None \<Rightarrow> 0 | Some k \<Rightarrow> f64_val (f64_of_int (gm_get b t)))"
    "counter_total (kmWriterErrorCount registerMetrics) (\<lambda>_. True) out =
           (if n > 0 then f64_val (f64_of_int n) else 0)"
    using ac w by (auto simp: out produceSamples_def Let_def addSample_eq)
qed

lemma Produce_unfold:
  assumes "vuState v = Some base" and "wrClient w \<noteq> None" and "wrCollector w = Some mc"
    and "produceSync kp (map (marshalRecord e) (pcMessages cfg)) bw = (rs, hs, bw')"
    and "count_results (wrDefaultTopic w) rs ([], [], 0) = (c, b, n)"
  shows "fst (snd (snd (Produce e ord kp v w cfg bw))) = snd (flushProduce ord (Some (foldl hooks mc hs)) v c b n)"
  using assms by (auto simp: Produce_def run_hooks_def Let_def case_prod_beta split: option.splits)

section \<open>Closing\<close>

interpretation writer_close: closable "WriterClose ord hs vo" "\<lambda>w. wrClient w \<noteq> None" for ord hs vo
  by unfold_locales
     (auto simp: WriterClose_def push_effect_def Let_def case_prod_beta split: option.splits)

section \<open>Properties\<close>

text \<open>C7: A produce call in a VU context that is not done reports exactly what happened: for each topic, the message
  counter grows by the number of records that succeeded under that topic (a record without a
  topic counts under the writer's default topic) and the byte counter by their key and value
  bytes; the error counter grows by the number of failed records. Partial failures are not
  reported as written.\<close>

theorem produce_accounting:
  assumes "vuState v = Some base" and "wrClient w \<noteq> None"
    and "wrCollector w = Some mc" and "collector_inv RoleWriter mc" and "order_ok ord"
    and "produceSync kp (map (marshalRecord e) (pcMessages cfg)) bw = (rs, hs, bw')"
    and "length rs \<le> 2 ^ 53" and "result_bytes (successes (wrDefaultTopic w) t rs) \<le> 2 ^ 53" and "vuPushes v"
  shows "let out = pushed (fst (snd (snd (Produce e ord kp v w cfg bw)))) in
         counter_total (kmWriterMessageCount registerMetrics) (\<lambda>x. tag_topic x = Some t) out =
           of_nat (length (successes (wrDefaultTopic w) t rs)) \<and>
         counter_total (kmWriterMessageBytes registerMetrics) (\<lambda>x. tag_topic x = Some t) out =
           of_nat (result_bytes (successes (wrDefaultTopic w) t rs)) \<and>
         counter_total (kmWriterErrorCount registerMetrics) (\<lambda>_. True) out =
           of_nat (length (failures rs))"
proof -
  define out where "out = fst (snd (snd (Produce e ord kp v w cfg bw)))"
  obtain c b n where cr: "count_results (wrDefaultTopic w) rs ([], [], 0) = (c, b, n)"
    by (cases "count_results (wrDefaultTopic w) rs ([], [], 0)") auto
  note sp = count_results_spec [OF cr, of t] and pr = count_results_present [OF cr, of t]
  let ?mc = "foldl hooks mc hs" and ?dt = "wrDefaultTopic w"
  have inv: "collector_inv RoleWriter ?mc" by (rule collector_inv_run_hooks [OF assms(4)])
  have m: "mcMetrics ?mc = registerMetrics" using inv by (simp add: collector_inv_def)
  have "out = snd (flushProduce ord (Some ?mc) v c b n)"
    using Produce_unfold [OF assms(1,2,3,6) cr, of ord] by (simp add: out_def)
  then have out: "pushed out = produceSamples ord registerMetrics c b n (vuNow v) base [] @ drained ord ?mc base (vuNow v)"
    using pushed_flush [OF inv assms(5,1,9)] by (simp add: flushProduce_def m)
  have len: "length (successes ?dt t rs) \<le> 2 ^ 53" "length (failures rs) \<le> 2 ^ 53"
    unfolding successes_def failures_def by (rule order_trans [OF length_filter_le assms(7)])+
  have v1: "f64_val (f64_of_int (int k)) = of_nat k" if "k \<le> 2 ^ 53" for k
    using that by (subst f64_val_of_int) simp_all
  have cnt: "map_of c t = Some (gm_get c t)" if "successes ?dt t rs \<noteq> []"
    using that pr by (auto simp: gm_get_def split: option.splits)
  have "gm_wf c" using sp by (simp add: gomap_simps)
  note rep = produceSamples_report(1,2) [OF assms(5) this refl, of t b n]
    produceSamples_report(3) [OF assms(5) this refl, of b n]
  show ?thesis
    using rep sp pr cnt v1 [OF len(1)] v1 [OF len(2)] v1 [OF assms(8)] writer_call_site_metrics(4-6)
      drained_call_site_report(1) [OF inv, of _ _ ord base "vuNow v"]
    unfolding out_def [symmetric] Let_def
    by (cases "successes ?dt t rs = []") (simp_all add: out result_bytes_def)
qed

text \<open>A small setting for concrete instances: a VU context, a broker that fails every record, a writer.\<close>

definition example_vu :: vu where
  "example_vu = \<lparr>vuState = Some (CurrentTags ''vu''), vuNow = 0, vuCtxErr = None, vuPushes = True\<rparr>"

definition example_fmt :: fmt_env where
  "example_fmt = \<lparr>fmtOther = (\<lambda>_. ''?'')\<rparr>"

definition example_broker :: "go_error option \<Rightarrow> nat kgo_producer" where
  "example_broker err = \<lparr>produceSync = (\<lambda>rs k. (map (\<lambda>x. (x, err)) rs, [], k + length rs)),
     firstErr = (\<lambda>rs. case find (\<lambda>r. snd r \<noteq> None) rs of None \<Rightarrow> None | Some r \<Rightarrow> snd r)\<rparr>"

definition example_writer :: Writer where
  "example_writer = \<lparr>wrClient = Some [], wrCollector = Some (newMetricsCollector registerMetrics RoleWriter),
     wrDefaultTopic = ''d''\<rparr>"

definition example_message :: ProduceMessage where
  "example_message = \<lparr>pmTopic = [], pmKey = GNil, pmValue = GString ''x'', pmHeaders = [], pmTime = None\<rparr>"

lemmas example_defs = example_vu_def example_fmt_def example_broker_def example_writer_def example_message_def

theorem produce_accounting_witness:
  "counter_total (kmWriterErrorCount registerMetrics) (\<lambda>_. True)
     (pushed (fst (snd (snd (Produce example_fmt id (example_broker (Some Canceled)) example_vu example_writer
        \<lparr>pcMessages = [example_message]\<rparr> 0))))) = 1"
proof -
  let ?rs = "[(marshalRecord example_fmt example_message, Some Canceled)]"
  have "order_ok id" by (simp add: order_ok_def)
  from produce_accounting [of example_vu "CurrentTags ''vu''" example_writer _ id "example_broker (Some Canceled)"
      example_fmt "\<lparr>pcMessages = [example_message]\<rparr>" 0 ?rs "[]" 1 "''d''", OF _ _ _ collector_inv_new this]
  show ?thesis by (simp add: example_defs Let_def successes_def failures_def result_bytes_def)
qed

text \<open>C28: \<open>Produce\<close> in the VU context on an open writer hands exactly the marshalled messages to the client, once, and
  succeeds exactly when every record succeeded (for a client whose \<open>FirstErr\<close> finds an error when there is
  one). In the init context and after close it does nothing at all: it fails, the broker is left as it
  was, no sample is pushed and the writer is unchanged.\<close>

theorem produce_outcome:
  assumes first: "\<And>rs. firstErr kp rs = None \<longleftrightarrow> failures rs = []"
  shows "if vuState v \<noteq> None \<and> wrClient w \<noteq> None
         then (case (Produce e ord kp v w cfg b, produceSync kp (map (marshalRecord e) (pcMessages cfg)) b) of
                 ((err, w', out, b'), (rs, hs, b1)) \<Rightarrow>
                   b' = b1 \<and> (err = None \<longleftrightarrow> failures rs = []) \<and> wrClient w' = wrClient w)
         else (\<exists>err. Produce e ord kp v w cfg b = (Some err, w, None, b))"
  using first [of "fst (produceSync kp (map (marshalRecord e) (pcMessages cfg)) b)"]
  by (auto simp: Produce_def Let_def case_prod_beta split: option.splits)

theorem produce_outcome_witness:
  "(\<exists>out w'. Produce example_fmt id (example_broker None) example_vu example_writer
        \<lparr>pcMessages = [example_message]\<rparr> 5 = (None, w', out, 6)) \<and>
   (\<exists>err. Produce example_fmt id (example_broker None) (example_vu\<lparr>vuState := None\<rparr>) example_writer
        \<lparr>pcMessages = [example_message]\<rparr> 5 = (Some err, example_writer, None, 5))"
proof -
  have "firstErr (example_broker None) rs = None \<longleftrightarrow> failures rs = []" for rs
    by (induction rs) (auto simp: example_defs failures_def)
  note th = produce_outcome [OF this, where e = example_fmt and ord = id and w = example_writer and b = 5
      and cfg = "\<lparr>pcMessages = [example_message]\<rparr>"]
  show ?thesis
    using th [of example_vu] th [of "example_vu\<lparr>vuState := None\<rparr>"]
    by (auto simp: example_defs failures_def split: prod.splits)
qed

text \<open>The options of a writer are built exactly when the client options can be built, the
  acknowledgement level is -1, 0, 1 or unset and the retry budget is not negative; the client
  then has exactly one acknowledgement option, all in-sync replicas by default, and idempotent
  writes are disabled precisely when fewer acknowledgements were asked for.\<close>

theorem writer_options_acks:
  "(is_ok (writerOptions cr cfg col) \<longleftrightarrow>
      is_ok (clientOptions cr (wBrokers cfg) (wSASL cfg) (wTLS cfg)) \<and>
      acks_of (wRequiredAcks cfg) \<noteq> None \<and> (\<forall>n. wMaxAttempts cfg = Some n \<longrightarrow> 0 \<le> n)) \<and>
   (\<forall>opts. writerOptions cr cfg col = Inr opts \<longrightarrow>
      (\<exists>a. acks_of (wRequiredAcks cfg) = Some a \<and>
        filter (\<lambda>x. \<exists>b. x = RequiredAcks b) opts = [RequiredAcks a] \<and>
        (DisableIdempotentWrite \<in> set opts \<longleftrightarrow> a \<noteq> AllISRAcks)))"
proof -
  have base: "\<not> (\<exists>b. x = RequiredAcks b) \<and> x \<noteq> DisableIdempotentWrite"
    if "clientOptions cr (wBrokers cfg) (wSASL cfg) (wTLS cfg) = Inr base" "x \<in> set base" for base x
    using that by (auto simp: clientOptions_ok split: option.splits)
  have extra: "filter (\<lambda>x. \<exists>b. x = RequiredAcks b) (writer_extra cfg col a) = [RequiredAcks a]"
    "DisableIdempotentWrite \<in> set (writer_extra cfg col a) \<longleftrightarrow> a \<noteq> AllISRAcks" for a
    by (auto simp: writer_extra_def opt_list_def split: option.splits)
  have empty: "filter (\<lambda>x. \<exists>b. x = RequiredAcks b) base = []"
    if "clientOptions cr (wBrokers cfg) (wSASL cfg) (wTLS cfg) = Inr base" for base
    using base [OF that] by (auto simp: filter_empty_conv)
  have nod: "DisableIdempotentWrite \<notin> set base"
    if "clientOptions cr (wBrokers cfg) (wSASL cfg) (wTLS cfg) = Inr base" for base
    using base [OF that] by auto
  show ?thesis
    using nod empty by (auto simp: is_ok_iff writerOptions_ok extra)
qed

theorem writer_options_acks_witness:
  "is_ok (writerOptions \<lparr>keyPairErr = (\<lambda>_ _. None), pemHasCerts = (\<lambda>_. True)\<rparr>
     \<lparr>wBrokers = [''b:9092''], wTopic = ''t'', wAutoCreateTopic = True, wBalancer = GString ''balancer_hash'',
      wMaxAttempts = Some 3, wBatchSize = 0, wBatchBytes = 100, wBatchTimeout = 0, wReadTimeout = 0,
      wRequiredAcks = Some 1, wWriteTimeout = 0, wCompression = ''gzip'', wSASL = None, wTLS = None,
      wConnectLogger = False\<rparr> None)"
  by (subst writer_options_acks [THEN conjunct1])
     (simp add: clientOptions_def buildTLSConfig_def buildSASL_def acks_of_def)

text \<open>C29: Closing an open writer flushes the client first, while hooks fire, then pushes the samples of everything these
  and earlier hooks observed and no flush has reported (none without a metrics registry, a VU state or
  anything to report, or when the VU's context is done), then closes the client. However often it is closed this
  happens once, and afterwards every produce call is rejected and leaves the broker and the writer as they are.\<close>

theorem writer_close_once:
  assumes "wrClient w \<noteq> None" and "0 < n" and "order_ok ord"
    and "\<And>mc. wrCollector w = Some mc \<Longrightarrow> collector_inv RoleWriter mc"
  shows "let (w', es) = close_times (WriterClose ord hs vo) n w in
           es = [ClientFlush (close_context vo)] @ close_push ord (run_hooks (wrCollector w) hs) vo @ [ClientClose] \<and>
           wrClient w' = None \<and> (\<exists>err. Produce e ord' kp v w' cfg b = (Some err, w', None, b))"
proof -
  note o = writer_close.close_once(1) [OF assms(1,2), of ord hs vo]
  have "push_effect (snd (flushClose ord (run_hooks (wrCollector w) hs) vo)) = close_push ord (run_hooks (wrCollector w) hs) vo"
    using assms(4) collector_inv_run_hooks
    by (intro flushClose_push [OF assms(3), where r = RoleWriter]) (auto simp: run_hooks_def)
  then have "snd (WriterClose ord hs vo w) =
      [ClientFlush (close_context vo)] @ close_push ord (run_hooks (wrCollector w) hs) vo @ [ClientClose]"
    and "wrClient (fst (WriterClose ord hs vo w)) = None"
    using assms(1) by (auto simp: WriterClose_def Let_def case_prod_beta)
  then show ?thesis using o by (auto simp: case_prod_beta Let_def Produce_def)
qed

theorem writer_close_once_witness:
  "\<exists>s. snd (close_times (WriterClose id [BrokerConnect 5000000 None] (Some example_vu)) 2 example_writer) =
     [ClientFlush VUContext, PushSamples s, ClientClose] \<and> map smValue s = [f64_of_int 1, f64_of_int 5]"
proof -
  have inv: "wrCollector example_writer = Some mc \<Longrightarrow> collector_inv RoleWriter mc" for mc
    using collector_inv_new by (auto simp: example_writer_def)
  have "order_ok id" by (simp add: order_ok_def)
  from writer_close_once [of example_writer 2 id, OF _ _ this inv, of "[BrokerConnect 5000000 None]" "Some example_vu"
      example_fmt id "example_broker None" example_vu "\<lparr>pcMessages = []\<rparr>" 0]
  show ?thesis
    by (auto simp: example_defs close_push_def close_context_def run_hooks_def drained_def newMetricsCollector_def
        OnBrokerConnect_def milliseconds_def case_prod_beta Let_def)
qed

end
