(* ===== verification/Consumer.thy ===== *)
theory Consumer
  imports Lifecycle GoTime
begin

text \<open>
  \<open>consumer.go\<close>: the reader's configuration and client options, the polling loop of
  \<open>Consume\<close> with its three ways to end (enough messages, the deadline or a cancellation, a
  fetch error), its metrics, and \<open>Close\<close>. The broker side of \<open>PollRecords\<close> is a parameter
  that maps a world and a maximum to what one poll returns and the next world. The loop is a
  \<open>partial_function\<close>: not returning is the value \<open>None\<close>, and that it returns is a theorem.
\<close>

section \<open>Data\<close>

record ReaderConfig =
  rcBrokers :: "string list"
  rcGroupID :: string
  rcGroupTopics :: "string list"
  rcTopic :: string
  rcPartition :: int
  rcMinBytes :: int
  rcMaxBytes :: int
  rcMaxWait :: string
  rcGroupBalancers :: "string list"
  rcHeartbeatInterval :: int
  rcCommitInterval :: int
  rcSessionTimeout :: int
  rcRebalanceTimeout :: int
  rcStartOffset :: string
  rcOffset :: "int option"
  rcMaxAttempts :: "int option"
  rcIsolationLevel :: string
  rcSASL :: "SASLConfig option"
  rcTLS :: "TLSConfig option"

record ConsumeConfig =
  ccLimit :: int
  ccNanoPrecision :: bool
  ccExpectTimeout :: bool

record ConsumedMessage =
  cmTopic :: string
  cmPartition :: int
  cmOffset :: int
  cmHighWaterMark :: int
  cmKey :: gobytes
  cmValue :: gobytes
  cmHeaders :: "gobytes gomap"
  cmTime :: string

record Reader =
  rdClient :: "client option"
  rdMaxWait :: int
  rdCollector :: "metricsCollector option"
  rdGroup :: bool

definition defaultMaxWait :: int where "defaultMaxWait = 5 * 1000000000"
definition commitTimeout :: int where "commitTimeout = 10 * 1000000000"

section \<open>Options\<close>

definition isolationLevel :: "string \<Rightarrow> isolation" where
  "isolationLevel name = (if name = isolationReadCommitted then ReadCommitted else ReadUncommitted)"

definition startOffsetReset :: "string \<Rightarrow> offset" where
  "startOffsetReset name = (if name = startOffsetLast then AtEnd else AtStart)"

definition directOffset :: "int \<Rightarrow> offset" where
  "directOffset off = (if off = -1 then AtEnd else if off > 0 then At off else AtStart)"

fun groupBalancers :: "string list \<Rightarrow> group_balancer list" where
  "groupBalancers [] = []"
| "groupBalancers (name # names) =
     (if name = groupBalancerRange then RangeBalancer # groupBalancers names
      else if name = groupBalancerRoundRobin then RoundRobinBalancer # groupBalancers names
      else groupBalancers names)"

definition effectiveGroupBalancers :: "string list \<Rightarrow> group_balancer list" where
  "effectiveGroupBalancers names =
     (let balancers = groupBalancers names in if balancers \<noteq> [] then balancers else [RangeBalancer])"

definition groupOptions :: "ReaderConfig \<Rightarrow> offset \<Rightarrow> kgo_opt list" where
  "groupOptions cfg reset =
     (let topics = (if rcGroupTopics cfg = [] then [rcTopic cfg] else rcGroupTopics cfg);
          opts = [ConsumerGroup (rcGroupID cfg), ConsumeTopics topics, ConsumeResetOffset reset,
                  Balancers (effectiveGroupBalancers (rcGroupBalancers cfg))];
          opts = opts @ opt_list (rcHeartbeatInterval cfg > 0) (HeartbeatInterval (rcHeartbeatInterval cfg));
          opts = opts @ opt_list (rcSessionTimeout cfg > 0) (SessionTimeout (rcSessionTimeout cfg));
          opts = opts @ opt_list (rcRebalanceTimeout cfg > 0) (RebalanceTimeout (rcRebalanceTimeout cfg))
      in opts @ opt_list (rcCommitInterval cfg > 0) (AutoCommitInterval (rcCommitInterval cfg)))"

definition directOption :: "ReaderConfig \<Rightarrow> offset \<Rightarrow> kgo_opt" where
  "directOption cfg reset =
     (let pos = (case rcOffset cfg of None \<Rightarrow> reset | Some off \<Rightarrow> directOffset off)
      in ConsumePartitions [(rcTopic cfg, [(rcPartition cfg, pos)])])"

definition readerOptions ::
  "crypto \<Rightarrow> ReaderConfig \<Rightarrow> int \<Rightarrow> metricsCollector option \<Rightarrow> kgo_opt list res" where
  "readerOptions cr cfg maxWait collector =
     (case clientOptions cr (rcBrokers cfg) (rcSASL cfg) (rcTLS cfg) of
        Inl err \<Rightarrow> Inl err
      | Inr opts \<Rightarrow>
         (let opts = opts @ opt_list (collector \<noteq> None) WithHooks;
              opts = opts @ opt_list (rcMinBytes cfg > 0 \<and> rcMinBytes cfg \<le> maxInt32) (FetchMinBytes (rcMinBytes cfg));
              opts = opts @ opt_list (rcMaxBytes cfg > 0 \<and> rcMaxBytes cfg \<le> maxInt32) (FetchMaxBytes (rcMaxBytes cfg));
              opts = opts @ [FetchMaxWait maxWait];
              opts = opts @ [FetchIsolationLevel (isolationLevel (rcIsolationLevel cfg))]
          in case (case rcMaxAttempts cfg of
                     None \<Rightarrow> Inr opts
                   | Some n \<Rightarrow>
                       if n < 0 then Inl (Errorf ''invalid maxAttempts %d (must be >= 0)'' [AInt n])
                       else Inr (opts @ [RequestRetries n])) of
               Inl err \<Rightarrow> Inl err
             | Inr opts \<Rightarrow>
                (let reset = startOffsetReset (rcStartOffset cfg) in
                 if rcGroupID cfg \<noteq> '''' then Inr (opts @ groupOptions cfg reset)
                 else Inr (opts @ [directOption cfg reset]))))"

definition openReader ::
  "crypto \<Rightarrow> (kgo_opt list \<Rightarrow> go_error option) \<Rightarrow> ReaderConfig \<Rightarrow> metricsCollector option \<Rightarrow> Reader res" where
  "openReader cr newClient cfg collector =
     (if rcBrokers cfg = [] then Inl (ErrNew ''at least one broker is required'')
      else if rcGroupID cfg \<noteq> '''' \<and> rcGroupTopics cfg = [] \<and> rcTopic cfg = ''''
      then Inl (ErrNew ''a consumer group requires groupTopics or topic'')
      else if rcGroupID cfg = '''' \<and> rcTopic cfg = ''''
      then Inl (ErrNew ''a topic is required for direct (non-group) consumption'')
      else if rcGroupID cfg = '''' \<and> rcOffset cfg \<noteq> None \<and> the (rcOffset cfg) < -1
      then Inl (Errorf ''invalid offset %d (must be >= -1)'' [AInt (the (rcOffset cfg))])
      else case (if rcMaxWait cfg \<noteq> ''''
                 then (case ParseDuration (rcMaxWait cfg) of
                         Inl err \<Rightarrow> Inl (Wrapf ''invalid maxWait %q: %w'' [AStr (rcMaxWait cfg)] err)
                       | Inr d \<Rightarrow> Inr d)
                 else Inr defaultMaxWait) of
             Inl err \<Rightarrow> Inl err
           | Inr maxWait \<Rightarrow>
              (case readerOptions cr cfg maxWait collector of
                 Inl err \<Rightarrow> Inl err
               | Inr opts \<Rightarrow>
                  (case newClient opts of
                     Some err \<Rightarrow> Inl (Wrapf ''creating consumer: %w'' [] err)
                   | None \<Rightarrow> Inr \<lparr>rdClient = Some opts, rdMaxWait = maxWait, rdCollector = collector,
                                   rdGroup = (rcGroupID cfg \<noteq> '''')\<rparr>)))"

section \<open>Records and messages\<close>

definition readerLag :: "int \<Rightarrow> int \<Rightarrow> int" where
  "readerLag highWatermark off = max 0 (wrap64 (wrap64 (highWatermark - off) - 1))"

text \<open>\<open>Format\<close> depends on the process's time zone, so the text of a timestamp is a parameter:
  \<open>timeFormat nano t\<close> is the RFC 3339 form with or without nanoseconds.\<close>

type_synonym time_format = "bool \<Rightarrow> int option \<Rightarrow> string"

definition decodeRecord :: "time_format \<Rightarrow> kgo_Record \<Rightarrow> int \<Rightarrow> bool \<Rightarrow> ConsumedMessage" where
  "decodeRecord timeFormat rec highWaterMark nano =
     (let headers = foldl (\<lambda>m (key, value). AList.update key value m) [] (rHeaders rec)
      in \<lparr>cmTopic = rTopic rec, cmPartition = rPartition rec, cmOffset = rOffset rec,
          cmHighWaterMark = highWaterMark, cmKey = rKey rec, cmValue = rValue rec,
          cmHeaders = headers, cmTime = timeFormat nano (rTimestamp rec)\<rparr>)"

section \<open>Consuming\<close>

record fetch_partition =
  fpHighWatermark :: int
  fpRecords :: "kgo_Record list"

record fetch_error =
  feTopic :: string
  feErr :: go_error

text \<open>
  What one poll gives: its partitions, its errors, the hooks that fired meanwhile, and what
  \<open>ctx.Err()\<close> reads right after it and, for a poll that ends the loop on errors, after the loop.
\<close>

record fetches =
  fsPartitions :: "fetch_partition list"
  fsErrors :: "fetch_error list"
  fsHooks :: "hook_event list"
  fsCtxErr :: "go_error option"
  fsCtxErrAfter :: "go_error option"

text \<open>\<open>withTimeout\<close> is what \<open>context.WithTimeout\<close> does to the world: the polls that follow end when the given time
  has passed.\<close>

record 'w kgo_consumer =
  withTimeout :: "int \<Rightarrow> 'w \<Rightarrow> 'w"
  pollRecords :: "'w \<Rightarrow> int \<Rightarrow> fetches \<times> 'w"

record consume_state =
  csMessages :: "ConsumedMessage list"
  csMsgCount :: "int gomap"
  csMsgBytes :: "int gomap"
  csLags :: "perTopicTrend list"
  csOffsets :: "perTopicTrend list"
  csCollector :: "metricsCollector option"

definition consume_record ::
  "time_format \<Rightarrow> bool \<Rightarrow> int \<Rightarrow> consume_state \<Rightarrow> kgo_Record \<Rightarrow> consume_state" where
  "consume_record tf nano hw st rec =
     \<lparr>csMessages = csMessages st @ [decodeRecord tf rec hw nano],
      csMsgCount = gm_add (rTopic rec) 1 (csMsgCount st),
      csMsgBytes = gm_add (rTopic rec) (int (length (slice_of (rKey rec)) + length (slice_of (rValue rec)))) (csMsgBytes st),
      csLags = csLags st @ [\<lparr>ptTopic = rTopic rec, ptValue = f64_of_int (readerLag hw (rOffset rec))\<rparr>],
      csOffsets = csOffsets st @ [\<lparr>ptTopic = rTopic rec, ptValue = f64_of_int (rOffset rec)\<rparr>],
      csCollector = csCollector st\<rparr>"

definition consume_partition :: "time_format \<Rightarrow> bool \<Rightarrow> consume_state \<Rightarrow> fetch_partition \<Rightarrow> consume_state" where
  "consume_partition tf nano st p = foldl (consume_record tf nano (fpHighWatermark p)) st (fpRecords p)"

definition consume_fetches :: "time_format \<Rightarrow> bool \<Rightarrow> consume_state \<Rightarrow> fetches \<Rightarrow> consume_state" where
  "consume_fetches tf nano st fs =
     foldl (consume_partition tf nano) (st\<lparr>csCollector := run_hooks (csCollector st) (fsHooks fs)\<rparr>) (fsPartitions fs)"

definition context_error :: "go_error \<Rightarrow> bool" where
  "context_error e \<longleftrightarrow> errors_Is e DeadlineExceeded \<or> errors_Is e Canceled"

text \<open>How the polling loop ends: with what \<open>ctx.Err()\<close> reads after it, or with a fetch error.\<close>

datatype loop_exit = LoopExit "go_error option" | FetchFailed fetch_error

partial_function (option) consume_loop ::
  "'w kgo_consumer \<Rightarrow> time_format \<Rightarrow> ConsumeConfig \<Rightarrow> 'w \<Rightarrow> consume_state
   \<Rightarrow> (loop_exit \<times> 'w \<times> consume_state) option" where
  "consume_loop cl tf cfg w st =
     (if int (length (csMessages st)) < ccLimit cfg then
        let polled = pollRecords cl w (ccLimit cfg - int (length (csMessages st)));
            fs = fst polled; w = snd polled;
            st = consume_fetches tf (ccNanoPrecision cfg) st fs
        in if fsCtxErr fs \<noteq> None then Some (LoopExit (fsCtxErr fs), w, st)
           else if fsErrors fs \<noteq> [] then
             (case find (\<lambda>e. \<not> context_error (feErr e)) (fsErrors fs) of
                Some e \<Rightarrow> Some (FetchFailed e, w, st)
              | None \<Rightarrow> Some (LoopExit (fsCtxErrAfter fs), w, st))
           else consume_loop cl tf cfg w st
      else Some (LoopExit None, w, st))"

definition empty_state :: "metricsCollector option \<Rightarrow> consume_state" where
  "empty_state mco = \<lparr>csMessages = [], csMsgCount = [], csMsgBytes = [], csLags = [], csOffsets = [], csCollector = mco\<rparr>"

text \<open>The closure \<open>flush(withMessages, fetchErr, timedOut)\<close>.\<close>

definition consume_flush ::
  "range_order \<Rightarrow> vu \<Rightarrow> consume_state \<Rightarrow> bool \<Rightarrow> bool \<Rightarrow> bool \<Rightarrow> metricsCollector option \<times> sample list option" where
  "consume_flush ord v st withMessages fetchErr timedOut =
     (let (mc, mb, lg, ofs) = (if withMessages then (csMsgCount st, csMsgBytes st, csLags st, csOffsets st)
                               else ([], [], [], []))
      in flushConsume ord (csCollector st) v mc mb lg ofs fetchErr timedOut)"

text \<open>What the call returns once the loop has ended, and the flags of its flush.\<close>

definition consume_result ::
  "ConsumeConfig \<Rightarrow> vu \<Rightarrow> int \<Rightarrow> loop_exit \<Rightarrow> ConsumedMessage list
   \<Rightarrow> ConsumedMessage list res \<times> bool \<times> bool \<times> bool" where
  "consume_result cfg v maxWait ex messages =
     (case ex of
        FetchFailed e \<Rightarrow> (Inl (Wrapf ''consuming from %s: %w'' [AStr (feTopic e)] (feErr e)), False, True, False)
      | LoopExit ctxErr \<Rightarrow>
         if int (length messages) < ccLimit cfg \<and> ctxErr \<noteq> None then
           (case vuCtxErr v of
              Some parentErr \<Rightarrow> (Inl (Wrapf ''consume canceled: %w'' [] parentErr), False, False, False)
            | None \<Rightarrow>
               if ccExpectTimeout cfg then (Inr messages, True, False, True)
               else (Inl (Errorf ''consume timed out after %s with %d of %d messages''
                            [ADur maxWait, AInt (int (length messages)), AInt (ccLimit cfg)]), False, False, True))
         else (Inr messages, True, False, False))"

definition Consume ::
  "'w kgo_consumer \<Rightarrow> time_format \<Rightarrow> range_order \<Rightarrow> vu \<Rightarrow> Reader \<Rightarrow> ConsumeConfig \<Rightarrow> 'w
   \<Rightarrow> (ConsumedMessage list res \<times> Reader \<times> sample list option \<times> 'w) option" where
  "Consume cl tf ord v r cfg w =
     (if vuState v = None
      then Some (Inl (ErrNew ''consume must be called in the VU context (default/setup/teardown function), not in init''), r, None, w)
      else if rdClient r = None then Some (Inl (ErrNew ''reader is closed''), r, None, w)
      else if ccLimit cfg \<le> 0 then Some (Inr [], r, None, w)
      else case consume_loop cl tf cfg (withTimeout cl (rdMaxWait r) w) (empty_state (rdCollector r)) of
        None \<Rightarrow> None
      | Some (ex, w', st) \<Rightarrow>
         (let (res, withMessages, fetchErr, timedOut) = consume_result cfg v (rdMaxWait r) ex (csMessages st);
              (mc, out) = consume_flush ord v st withMessages fetchErr timedOut
          in Some (res, r\<lparr>rdCollector := mc\<rparr>, out, w')))"

section \<open>Closing\<close>

text \<open>\<open>late\<close> are the hooks that fire after the metrics were flushed, while the client commits and closes.\<close>

definition ReaderClose ::
  "range_order \<Rightarrow> hook_event list \<Rightarrow> vu option \<Rightarrow> Reader \<Rightarrow> Reader \<times> client_effect list" where
  "ReaderClose ord late vo r =
     (if rdClient r = None then (r, [])
      else
        let (mc, out) = flushClose ord (rdCollector r) vo
        in (r\<lparr>rdCollector := run_hooks mc late, rdClient := None\<rparr>,
            push_effect out @ (if rdGroup r then [CommitUncommittedOffsets (close_context vo) commitTimeout] else []) @ [ClientClose]))"

section \<open>Options: what is built and when\<close>

definition reader_extra :: "ReaderConfig \<Rightarrow> int \<Rightarrow> metricsCollector option \<Rightarrow> kgo_opt list" where
  "reader_extra cfg maxWait collector =
     opt_list (collector \<noteq> None) WithHooks @
     opt_list (rcMinBytes cfg > 0 \<and> rcMinBytes cfg \<le> maxInt32) (FetchMinBytes (rcMinBytes cfg)) @
     opt_list (rcMaxBytes cfg > 0 \<and> rcMaxBytes cfg \<le> maxInt32) (FetchMaxBytes (rcMaxBytes cfg)) @
     [FetchMaxWait maxWait, FetchIsolationLevel (isolationLevel (rcIsolationLevel cfg))] @
     (case rcMaxAttempts cfg of None \<Rightarrow> [] | Some n \<Rightarrow> [RequestRetries n])"

definition reader_position :: "ReaderConfig \<Rightarrow> kgo_opt list" where
  "reader_position cfg =
     (if rcGroupID cfg \<noteq> '''' then groupOptions cfg (startOffsetReset (rcStartOffset cfg))
      else [directOption cfg (startOffsetReset (rcStartOffset cfg))])"

lemma readerOptions_ok:
  "readerOptions cr cfg maxWait collector = Inr opts \<longleftrightarrow>
     (\<exists>base. clientOptions cr (rcBrokers cfg) (rcSASL cfg) (rcTLS cfg) = Inr base \<and>
        (\<forall>n. rcMaxAttempts cfg = Some n \<longrightarrow> 0 \<le> n) \<and>
        opts = base @ reader_extra cfg maxWait collector @ reader_position cfg)"
  unfolding readerOptions_def reader_extra_def reader_position_def
  by (cases "clientOptions cr (rcBrokers cfg) (rcSASL cfg) (rcTLS cfg)"; cases "rcMaxAttempts cfg";
      cases "rcGroupID cfg = []"; auto simp: Let_def)

lemma reader_options_not_security:
  "list_all (\<lambda>x. \<not> security_opt x) (reader_extra cfg maxWait collector @ reader_position cfg)"
  by (auto simp: reader_extra_def reader_position_def groupOptions_def directOption_def opt_list_def
      list_all_iff Let_def split: option.splits)

interpretation reader_client: client_builder "\<lambda>cfg. readerOptions cr cfg maxWait collector" rcBrokers rcSASL rcTLS cr
  for cr maxWait collector
proof unfold_locales
  fix cfg :: ReaderConfig and opts
  assume "readerOptions cr cfg maxWait collector = Inr opts"
  then show "\<exists>base rest. clientOptions cr (rcBrokers cfg) (rcSASL cfg) (rcTLS cfg) = Inr base \<and>
      opts = base @ rest \<and> list_all (\<lambda>x. \<not> security_opt x) rest"
    unfolding readerOptions_ok using reader_options_not_security by blast
next
  fix cfg :: ReaderConfig and e
  assume "clientOptions cr (rcBrokers cfg) (rcSASL cfg) (rcTLS cfg) = Inl e"
  then show "readerOptions cr cfg maxWait collector = Inl e" by (simp add: readerOptions_def)
qed

interpretation reader_close: closable "ReaderClose ord late vo" "\<lambda>r. rdClient r \<noteq> None" for ord late vo
  by unfold_locales
     (auto simp: ReaderClose_def push_effect_def Let_def case_prod_beta split: option.splits)

section \<open>What the polls deliver\<close>

text \<open>The messages of one poll, in order.\<close>

definition fetched :: "time_format \<Rightarrow> bool \<Rightarrow> fetches \<Rightarrow> ConsumedMessage list" where
  "fetched tf nano fs =
     concat (map (\<lambda>p. map (\<lambda>rec. decodeRecord tf rec (fpHighWatermark p) nano) (fpRecords p)) (fsPartitions fs))"

definition record_count :: "fetches \<Rightarrow> nat" where
  "record_count fs = sum_list (map (\<lambda>p. length (fpRecords p)) (fsPartitions fs))"

lemma length_fetched: "length (fetched tf nano fs) = record_count fs"
  by (simp add: fetched_def record_count_def length_concat comp_def)

lemma consume_record_messages:
  "csMessages (foldl (consume_record tf nano hw) st rs) = csMessages st @ map (\<lambda>rec. decodeRecord tf rec hw nano) rs"
  "csCollector (foldl (consume_record tf nano hw) st rs) = csCollector st"
  by (induction rs arbitrary: st) (simp_all add: consume_record_def)

lemma consume_partition_messages:
  "csMessages (foldl (consume_partition tf nano) st ps) =
     csMessages st @ concat (map (\<lambda>p. map (\<lambda>rec. decodeRecord tf rec (fpHighWatermark p) nano) (fpRecords p)) ps)"
  "csCollector (foldl (consume_partition tf nano) st ps) = csCollector st"
  by (induction ps arbitrary: st) (simp_all add: consume_partition_def consume_record_messages)

lemma consume_fetches_fields [simp]:
  "csMessages (consume_fetches tf nano st fs) = csMessages st @ fetched tf nano fs"
  "csCollector (consume_fetches tf nano st fs) = run_hooks (csCollector st) (fsHooks fs)"
  by (simp_all add: consume_fetches_def consume_partition_messages fetched_def)

section \<open>The accumulated metrics are a function of the messages\<close>

definition message_bytes :: "ConsumedMessage \<Rightarrow> nat" where
  "message_bytes m = length (slice_of (cmKey m)) + length (slice_of (cmValue m))"

definition of_topic :: "string \<Rightarrow> ConsumedMessage list \<Rightarrow> ConsumedMessage list" where
  "of_topic t ms = filter (\<lambda>m. cmTopic m = t) ms"

definition total_bytes :: "ConsumedMessage list \<Rightarrow> nat" where
  "total_bytes ms = sum_list (map message_bytes ms)"

definition lag_trend :: "ConsumedMessage \<Rightarrow> perTopicTrend" where
  "lag_trend m = \<lparr>ptTopic = cmTopic m, ptValue = f64_of_int (readerLag (cmHighWaterMark m) (cmOffset m))\<rparr>"

definition offset_trend :: "ConsumedMessage \<Rightarrow> perTopicTrend" where
  "offset_trend m = \<lparr>ptTopic = cmTopic m, ptValue = f64_of_int (cmOffset m)\<rparr>"

definition consume_inv :: "consume_state \<Rightarrow> bool" where
  "consume_inv st \<longleftrightarrow>
     gm_wf (csMsgCount st) \<and>
     (\<forall>t. map_of (csMsgCount st) t =
        (if of_topic t (csMessages st) = [] then None else Some (int (length (of_topic t (csMessages st)))))) \<and>
     (\<forall>t. gm_get (csMsgBytes st) t = int (total_bytes (of_topic t (csMessages st)))) \<and>
     csLags st = map lag_trend (csMessages st) \<and> csOffsets st = map offset_trend (csMessages st)"

lemma decodeRecord_sel [simp]:
  "cmTopic (decodeRecord tf rec hw nano) = rTopic rec" "cmOffset (decodeRecord tf rec hw nano) = rOffset rec"
  "cmHighWaterMark (decodeRecord tf rec hw nano) = hw" "cmKey (decodeRecord tf rec hw nano) = rKey rec"
  "cmValue (decodeRecord tf rec hw nano) = rValue rec"
  by (simp_all add: decodeRecord_def Let_def)

lemma of_topic_simps [simp]:
  "of_topic t [] = []" "of_topic t (xs @ ys) = of_topic t xs @ of_topic t ys"
  "of_topic t [m] = (if cmTopic m = t then [m] else [])"
  by (simp_all add: of_topic_def)

lemma total_bytes_simps [simp]:
  "total_bytes [] = 0" "total_bytes (xs @ ys) = total_bytes xs + total_bytes ys" "total_bytes [m] = message_bytes m"
  by (simp_all add: total_bytes_def)

lemma consume_inv_empty: "consume_inv (empty_state mco)"
  by (simp add: consume_inv_def empty_state_def)

lemma consume_inv_record:
  assumes "consume_inv st"
  shows "consume_inv (consume_record tf nano hw st rec)"
proof -
  let ?t = "rTopic rec"
  have c: "gm_get (csMsgCount st) ?t = int (length (of_topic ?t (csMessages st)))"
    using assms by (simp add: gm_get_def consume_inv_def)
  show ?thesis
    using assms c unfolding consume_inv_def
    by (auto simp: consume_record_def gomap_simps gm_add_def update_conv lag_trend_def offset_trend_def message_bytes_def)
qed

lemma consume_inv_partition: "consume_inv st \<Longrightarrow> consume_inv (consume_partition tf nano st p)"
proof -
  have "consume_inv (foldl (consume_record tf nano hw) s rs)" if "consume_inv s" for hw s rs
    using that by (induction rs arbitrary: s) (simp_all add: consume_inv_record)
  then show "consume_inv st \<Longrightarrow> ?thesis" by (simp add: consume_partition_def)
qed

lemma consume_inv_fetches:
  assumes "consume_inv st"
  shows "consume_inv (consume_fetches tf nano st fs)"
proof -
  have "consume_inv (foldl (consume_partition tf nano) s ps)" if "consume_inv s" for s ps
    using that by (induction ps arbitrary: s) (simp_all add: consume_inv_partition)
  moreover have "consume_inv (st\<lparr>csCollector := run_hooks (csCollector st) (fsHooks fs)\<rparr>)"
    using assms by (simp add: consume_inv_def)
  ultimately show ?thesis by (simp add: consume_fetches_def)
qed

section \<open>The polling loop\<close>

text \<open>
  Specification of the loop's polls: each asks for what is still missing, starts in the world
  the previous one left, and happens only while messages are missing.
\<close>

fun polled :: "'w kgo_consumer \<Rightarrow> int \<Rightarrow> 'w \<Rightarrow> int \<Rightarrow> fetches list \<Rightarrow> 'w \<Rightarrow> bool" where
  "polled cl limit w n [] w' = (w = w')"
| "polled cl limit w n (fs # fss) w' =
     (n < limit \<and> fst (pollRecords cl w (limit - n)) = fs \<and>
      polled cl limit (snd (pollRecords cl w (limit - n))) (n + int (record_count fs)) fss w')"

text \<open>What franz-go documents of a poll: it returns when it has records, an error or a finished
  context, and never more records than asked for.\<close>

definition productive :: "'w kgo_consumer \<Rightarrow> bool" where
  "productive cl \<longleftrightarrow> (\<forall>w n. 0 < n \<longrightarrow> (let fs = fst (pollRecords cl w n) in
     record_count fs > 0 \<or> fsErrors fs \<noteq> [] \<or> fsCtxErr fs \<noteq> None))"

definition honours_max :: "'w kgo_consumer \<Rightarrow> bool" where
  "honours_max cl \<longleftrightarrow> (\<forall>w n. 0 < n \<longrightarrow> int (record_count (fst (pollRecords cl w n))) \<le> n)"

definition reports_deadline :: "'w kgo_consumer \<Rightarrow> bool" where
  "reports_deadline cl \<longleftrightarrow> (\<forall>w n. let fs = fst (pollRecords cl w n) in
     fsErrors fs \<noteq> [] \<and> list_all (\<lambda>e. context_error (feErr e)) (fsErrors fs) \<longrightarrow> fsCtxErrAfter fs \<noteq> None)"

lemma consume_loop_returns:
  assumes "productive cl"
  shows "\<exists>r. consume_loop cl tf cfg w st = Some r"
proof (induction "nat (ccLimit cfg - int (length (csMessages st)))" arbitrary: w st rule: less_induct)
  case less
  let ?n = "ccLimit cfg - int (length (csMessages st))"
  let ?fs = "fst (pollRecords cl w ?n)" and ?w = "snd (pollRecords cl w ?n)"
  let ?st = "consume_fetches tf (ccNanoPrecision cfg) st ?fs"
  show ?case
  proof (cases "0 < ?n \<and> fsCtxErr ?fs = None \<and> fsErrors ?fs = []")
    case True
    then have "record_count ?fs > 0" using assms unfolding productive_def Let_def by blast
    then have "nat (ccLimit cfg - int (length (csMessages ?st))) < nat ?n"
      using True by (simp add: length_fetched)
    from less.hyps [OF this] show ?thesis
      using True by (subst consume_loop.simps) (simp add: Let_def)
  next
    case False
    then show ?thesis by (subst consume_loop.simps) (auto simp: Let_def split: option.split)
  qed
qed

text \<open>How the loop may end after the polls \<open>fss\<close>: a fetch error of the last poll unless the context was
  done, otherwise with enough messages, with the context done, or on errors of the context only.\<close>

definition fetch_fails :: "fetches list \<Rightarrow> bool" where
  "fetch_fails fss \<longleftrightarrow> fss \<noteq> [] \<and> fsCtxErr (last fss) = None \<and>
     \<not> list_all (\<lambda>e. context_error (feErr e)) (fsErrors (last fss))"

definition loop_end :: "ConsumeConfig \<Rightarrow> consume_state \<Rightarrow> fetches list \<Rightarrow> loop_exit \<Rightarrow> bool" where
  "loop_end cfg st fss ex \<longleftrightarrow>
     (case ex of
        FetchFailed e \<Rightarrow> fetch_fails fss \<and> e \<in> set (fsErrors (last fss)) \<and> \<not> context_error (feErr e)
      | LoopExit c \<Rightarrow> \<not> fetch_fails fss \<and>
          (int (length (csMessages st)) \<ge> ccLimit cfg \<or>
           (fss \<noteq> [] \<and> c \<noteq> None \<and> c = fsCtxErr (last fss)) \<or>
           (fss \<noteq> [] \<and> fsCtxErr (last fss) = None \<and> c = fsCtxErrAfter (last fss) \<and> fsErrors (last fss) \<noteq> [] \<and>
            list_all (\<lambda>e. context_error (feErr e)) (fsErrors (last fss)))))"

text \<open>Everything the loop does, over the polls it makes.\<close>

lemma find_SomeD: "find P xs = Some x \<Longrightarrow> x \<in> set xs \<and> P x"
  by (induction xs) (auto split: if_splits)

definition ends_loop :: "fetches \<Rightarrow> bool" where
  "ends_loop fs \<longleftrightarrow> fsCtxErr fs \<noteq> None \<or> fsErrors fs \<noteq> []"

definition loop_spec ::
  "'w kgo_consumer \<Rightarrow> time_format \<Rightarrow> ConsumeConfig \<Rightarrow> 'w \<Rightarrow> consume_state
   \<Rightarrow> loop_exit \<times> 'w \<times> consume_state \<Rightarrow> fetches list \<Rightarrow> bool" where
  "loop_spec cl tf cfg w st r fss \<longleftrightarrow> (case r of (ex, w', st') \<Rightarrow>
     polled cl (ccLimit cfg) w (int (length (csMessages st))) fss w' \<and>
     csMessages st' = csMessages st @ concat (map (fetched tf (ccNanoPrecision cfg)) fss) \<and>
     csCollector st' = run_hooks (csCollector st) (concat (map fsHooks fss)) \<and>
     (consume_inv st \<longrightarrow> consume_inv st') \<and> loop_end cfg st' fss ex \<and>
     (\<forall>fs \<in> set (butlast fss). \<not> ends_loop fs))"

lemma consume_loop_spec:
  assumes "consume_loop cl tf cfg w st = Some r"
  shows "\<exists>fss. loop_spec cl tf cfg w st r fss"
proof (rule consume_loop.raw_induct [where P = "\<lambda>cl tf cfg w st r. \<exists>fss. loop_spec cl tf cfg w st r fss", OF _ assms],
    goal_cases)
  case (1 loop cl tf cfg w st r)
  let ?n = "ccLimit cfg - int (length (csMessages st))"
  let ?fs = "fst (pollRecords cl w ?n)" and ?w = "snd (pollRecords cl w ?n)"
  let ?st = "consume_fetches tf (ccNanoPrecision cfg) st ?fs"
  obtain ex w' st' where r: "r = (ex, w', st')" by (cases r)
  consider (stop) "\<not> 0 < ?n" | (ctx) "0 < ?n" "fsCtxErr ?fs \<noteq> None"
    | (err) "0 < ?n" "fsCtxErr ?fs = None" "fsErrors ?fs \<noteq> []"
    | (more) "0 < ?n" "fsCtxErr ?fs = None" "fsErrors ?fs = []" by blast
  then show ?case
  proof cases
    case stop
    then show ?thesis using "1"(2) unfolding r
      by (intro exI [of _ "[]"]) (auto simp: run_hooks_def loop_spec_def loop_end_def fetch_fails_def option.map_ident)
  next
    case ctx
    then show ?thesis using "1"(2) unfolding r
      by (intro exI [of _ "[?fs]"]) (auto simp: Let_def loop_spec_def loop_end_def fetch_fails_def consume_inv_fetches)
  next
    case err
    then show ?thesis using "1"(2) unfolding r
      by (intro exI [of _ "[?fs]"])
         (auto simp: Let_def loop_spec_def loop_end_def fetch_fails_def consume_inv_fetches find_None_iff list_all_iff
           dest!: find_SomeD split: option.splits)
  next
    case more
    then have "loop cl tf cfg ?w ?st = Some r" using "1"(2) by (simp add: Let_def)
    from "1"(1) [OF this] obtain fss where "loop_spec cl tf cfg ?w ?st r fss" by blast
    then show ?thesis using more consume_inv_fetches [of st] unfolding r
      by (intro exI [of _ "?fs # fss"])
         (auto simp: length_fetched loop_spec_def ends_loop_def loop_end_def fetch_fails_def run_hooks_def option.map_comp comp_def split: loop_exit.splits)
  qed
qed

section \<open>What a consume call reports\<close>

lemma reader_call_site_metrics:
  "distinct [kmReaderMessageCount registerMetrics, kmReaderMessageBytes registerMetrics, kmReaderLag registerMetrics,
     kmReaderOffset registerMetrics, kmReaderErrorCount registerMetrics, kmReaderTimeoutsCount registerMetrics]"
  "set [kmReaderMessageCount registerMetrics, kmReaderMessageBytes registerMetrics, kmReaderLag registerMetrics,
     kmReaderOffset registerMetrics, kmReaderErrorCount registerMetrics, kmReaderTimeoutsCount registerMetrics]
   \<subseteq> call_site_metrics"
  by (simp_all add: registerMetrics_def call_site_metrics_def Let_def)

lemma f64_val_1 [simp]: "f64_val (f64_of_int 1) = 1"
  by (simp add: f64_val_of_int)

lemma consumeSamples_report:
  assumes "order_ok ord" and "gm_wf c"
    and out: "out = consumeSamples ord registerMetrics c b lags offs fe to now base []"
  shows "counter_total (kmReaderMessageCount registerMetrics) (\<lambda>x. tag_topic x = Some t) out =
           (case map_of c t of None \<Rightarrow> 0 | Some k \<Rightarrow> f64_val (f64_of_int k))" (is ?count)
    and "counter_total (kmReaderMessageBytes registerMetrics) (\<lambda>x. tag_topic x = Some t) out =
           (case map_of c t of None \<Rightarrow> 0 | Some k \<Rightarrow> f64_val (f64_of_int (gm_get b t)))" (is ?bytes)
    and "topic_values (kmReaderLag registerMetrics) out = map pt_pair lags" (is ?lag)
    and "topic_values (kmReaderOffset registerMetrics) out = map pt_pair offs" (is ?off)
    and "counter_total (kmReaderErrorCount registerMetrics) (\<lambda>_. True) out = (if fe then 1 else 0)" (is ?err)
    and "counter_total (kmReaderTimeoutsCount registerMetrics) (\<lambda>_. True) out = (if to then 1 else 0)" (is ?to)
proof -
  let ?cm = "kmReaderMessageCount registerMetrics" and ?bm = "kmReaderMessageBytes registerMetrics"
  let ?ac = "add_counts ?cm ?bm b base now (ord c) []"
  note k = order_keys [OF assms(1,2)]
  note d = reader_call_site_metrics(1) [simplified]
  note rest = report_map_others report_map_same
  note ac = add_counts_report [OF k(1) d [THEN conjunct1], of t b base now, unfolded k(2)]
  have other: "counter_total m P ?ac = 0" "topic_values m ?ac = []" if "m \<noteq> ?cm" "m \<noteq> ?bm" for m P
    using that add_counts_metrics by (intro report_other; metis)+
  have out': "out = ?ac @ map (\<lambda>pt. mk_sample (kmReaderLag registerMetrics) (With base ''topic'' (ptTopic pt)) now (ptValue pt)) lags
      @ map (\<lambda>pt. mk_sample (kmReaderOffset registerMetrics) (With base ''topic'' (ptTopic pt)) now (ptValue pt)) offs
      @ (if fe then [mk_sample (kmReaderErrorCount registerMetrics) base now (f64_of_int 1)] else [])
      @ (if to then [mk_sample (kmReaderTimeoutsCount registerMetrics) base now (f64_of_int 1)] else [])"
    by (simp add: out consumeSamples_def Let_def drain_trends_eq addSample_eq)
  have d': "distinct (rev [?cm, ?bm, kmReaderLag registerMetrics, kmReaderOffset registerMetrics,
      kmReaderErrorCount registerMetrics, kmReaderTimeoutsCount registerMetrics])"
    using reader_call_site_metrics(1) by (simp only: distinct_rev)
  show ?count ?bytes ?lag ?off ?err ?to
    using d d' [simplified] by (simp_all add: out' ac other rest pt_pair_def)
qed

definition returned :: "ConsumedMessage list res \<Rightarrow> ConsumedMessage list" where
  "returned res = (case res of Inl _ \<Rightarrow> [] | Inr ms \<Rightarrow> ms)"

lemma returned_simps [simp]: "returned (Inl e) = []" "returned (Inr ms) = ms"
  by (simp_all add: returned_def)

text \<open>The three kinds of error a call in the VU context can end with.\<close>

definition fetch_failure :: "ConsumedMessage list res \<Rightarrow> bool" where
  "fetch_failure res \<longleftrightarrow> (\<exists>t e. res = Inl (Wrapf ''consuming from %s: %w'' [AStr t] e))"

definition consume_timeout :: "ConsumedMessage list res \<Rightarrow> bool" where
  "consume_timeout res \<longleftrightarrow>
     (\<exists>as. res = Inl (Errorf ''consume timed out after %s with %d of %d messages'' as))"

lemma consume_result_cases:
  assumes "consume_result cfg v maxWait ex ms = (res, withMessages, fetchErr, timedOut)"
  shows "withMessages = is_ok res" and "is_ok res \<Longrightarrow> res = Inr ms" and "fetchErr = fetch_failure res"
    and "consume_timeout res \<Longrightarrow> timedOut" and "timedOut \<Longrightarrow> \<not> is_ok res \<Longrightarrow> consume_timeout res"
    and "timedOut \<Longrightarrow> is_ok res \<Longrightarrow> ccExpectTimeout cfg \<and> int (length ms) < ccLimit cfg"
    and "timedOut \<longleftrightarrow> int (length ms) < ccLimit cfg \<and> vuCtxErr v = None \<and> (\<exists>c. ex = LoopExit (Some c))"
    and "timedOut \<Longrightarrow> if ccExpectTimeout cfg then res = Inr ms else consume_timeout res"
  using assms
  by (auto simp: consume_result_def fetch_failure_def consume_timeout_def split: loop_exit.splits if_splits option.splits)

lemma Consume_unfold:
  assumes "vuState v \<noteq> None" and "rdClient r \<noteq> None" and "0 < ccLimit cfg"
    and "Consume cl tf ord v r cfg w = Some (res, r', out, w')"
  obtains ex st withM fetchErr timedOut where
    "consume_loop cl tf cfg (withTimeout cl (rdMaxWait r) w) (empty_state (rdCollector r)) = Some (ex, w', st)"
    "consume_result cfg v (rdMaxWait r) ex (csMessages st) = (res, withM, fetchErr, timedOut)"
    "out = snd (consume_flush ord v st withM fetchErr timedOut)"
    "r' = r\<lparr>rdCollector := fst (consume_flush ord v st withM fetchErr timedOut)\<rparr>"
proof (cases "consume_loop cl tf cfg (withTimeout cl (rdMaxWait r) w) (empty_state (rdCollector r))")
  case None
  then show ?thesis using assms by (auto simp: Consume_def)
next
  case (Some x)
  obtain ex w'' st where x: "x = (ex, w'', st)" by (cases x)
  obtain res' a b c where rs: "consume_result cfg v (rdMaxWait r) ex (csMessages st) = (res', a, b, c)"
    by (cases "consume_result cfg v (rdMaxWait r) ex (csMessages st)")
  have "res = res'" "w' = w''" "out = snd (consume_flush ord v st a b c)"
    "r' = r\<lparr>rdCollector := fst (consume_flush ord v st a b c)\<rparr>"
    using assms Some by (auto simp: Consume_def Let_def case_prod_beta x rs)
  then show ?thesis using that Some x rs by blast
qed

lemma consume_flush_report:
  assumes "csCollector st = Some mc" and "collector_inv RoleReader mc" and "order_ok ord" and "vuState v = Some base"
    and "consume_inv st" and ms: "ms = (if withM then csMessages st else [])"
    and "length ms \<le> 2 ^ 53" and "total_bytes (of_topic t ms) \<le> 2 ^ 53"
    and out: "out = pushed (snd (consume_flush ord v st withM fetchErr timedOut))" and push: "vuPushes v"
  shows "counter_total (kmReaderMessageCount registerMetrics) (\<lambda>x. tag_topic x = Some t) out = of_nat (length (of_topic t ms))"
    and "counter_total (kmReaderMessageBytes registerMetrics) (\<lambda>x. tag_topic x = Some t) out = of_nat (total_bytes (of_topic t ms))"
    and "topic_values (kmReaderLag registerMetrics) out = map (pt_pair \<circ> lag_trend) ms"
    and "topic_values (kmReaderOffset registerMetrics) out = map (pt_pair \<circ> offset_trend) ms"
    and "counter_total (kmReaderErrorCount registerMetrics) (\<lambda>_. True) out = (if fetchErr then 1 else 0)"
    and "counter_total (kmReaderTimeoutsCount registerMetrics) (\<lambda>_. True) out = (if timedOut then 1 else 0)"
proof -
  define c where "c = (if withM then csMsgCount st else [])"
  define b where "b = (if withM then csMsgBytes st else [])"
  define lg where "lg = (if withM then csLags st else [])"
  define ofs where "ofs = (if withM then csOffsets st else [])"
  have m: "mcMetrics mc = registerMetrics" using assms(2) by (simp add: collector_inv_def)
  have "consume_flush ord v st withM fetchErr timedOut = flushConsume ord (Some mc) v c b lg ofs fetchErr timedOut"
    by (simp add: consume_flush_def c_def b_def lg_def ofs_def assms(1))
  then have o: "out = consumeSamples ord registerMetrics c b lg ofs fetchErr timedOut (vuNow v) base [] @ drained ord mc base (vuNow v)"
    using pushed_flush [OF assms(2,3,4) push] by (simp add: out flushConsume_def m)
  have wf: "gm_wf c" and cnt: "map_of c t = (if of_topic t ms = [] then None else Some (int (length (of_topic t ms))))"
    and byt: "gm_get b t = int (total_bytes (of_topic t ms))"
    and lgs: "lg = map lag_trend ms" and offs: "ofs = map offset_trend ms"
    using assms(5) by (auto simp: consume_inv_def c_def b_def lg_def ofs_def ms)
  have len: "length (of_topic t ms) \<le> 2 ^ 53"
    unfolding of_topic_def by (rule order_trans [OF length_filter_le assms(7)])
  have v1: "f64_val (f64_of_int (int k)) = of_nat k" if "k \<le> 2 ^ 53" for k
    using that by (subst f64_val_of_int) simp_all
  note rep = consumeSamples_report(1,2) [OF assms(3) wf refl, where t = t and b = b and lags = lg and offs = ofs]
      consumeSamples_report(3-6) [OF assms(3) wf refl, where b = b and lags = lg and offs = ofs]
    and dr = drained_call_site_report [OF assms(2)] reader_call_site_metrics(2) [simplified]
  show "counter_total (kmReaderMessageCount registerMetrics) (\<lambda>x. tag_topic x = Some t) out = of_nat (length (of_topic t ms))"
    "counter_total (kmReaderMessageBytes registerMetrics) (\<lambda>x. tag_topic x = Some t) out = of_nat (total_bytes (of_topic t ms))"
    "topic_values (kmReaderLag registerMetrics) out = map (pt_pair \<circ> lag_trend) ms"
    "topic_values (kmReaderOffset registerMetrics) out = map (pt_pair \<circ> offset_trend) ms"
    "counter_total (kmReaderErrorCount registerMetrics) (\<lambda>_. True) out = (if fetchErr then 1 else 0)"
    "counter_total (kmReaderTimeoutsCount registerMetrics) (\<lambda>_. True) out = (if timedOut then 1 else 0)"
    using rep dr v1 [OF len] v1 [OF assms(8)] by (simp_all add: o cnt byt lgs offs)
qed

section \<open>Properties\<close>

lemma polled_bounded:
  "honours_max cl \<Longrightarrow> polled cl limit w n fss w' \<Longrightarrow> n \<le> limit \<Longrightarrow>
     n + int (sum_list (map record_count fss)) \<le> limit"
proof (induction cl limit w n fss w' rule: polled.induct)
  case (2 cl limit w n fs fss w')
  have "0 < limit - n \<longrightarrow> int (record_count (fst (pollRecords cl w (limit - n)))) \<le> limit - n"
    using 2(2) unfolding honours_max_def by blast
  with 2 show ?case by auto
qed simp

lemma polled_last:
  "polled cl limit w n fss w' \<Longrightarrow> fss \<noteq> [] \<Longrightarrow> \<exists>w n. last fss = fst (pollRecords cl w n)"
  by (induction cl limit w n fss w' rule: polled.induct) auto

lemma length_concat_fetched:
  "length (concat (map (fetched tf nano) fss)) = sum_list (map record_count fss)"
  by (induction fss) (simp_all add: length_fetched)

lemma Consume_polls:
  assumes "vuState v \<noteq> None" and "rdClient r \<noteq> None" and "0 < ccLimit cfg"
    and "Consume cl tf ord v r cfg w = Some (res, r', out, w')"
  obtains fss ex st where "polled cl (ccLimit cfg) (withTimeout cl (rdMaxWait r) w) 0 fss w'"
    "csMessages st = concat (map (fetched tf (ccNanoPrecision cfg)) fss)"
    "fst (consume_result cfg v (rdMaxWait r) ex (csMessages st)) = res" "loop_end cfg st fss ex"
proof (rule Consume_unfold [OF assms])
  fix ex st withM fetchErr timedOut
  assume l: "consume_loop cl tf cfg (withTimeout cl (rdMaxWait r) w) (empty_state (rdCollector r)) = Some (ex, w', st)"
    and c: "consume_result cfg v (rdMaxWait r) ex (csMessages st) = (res, withM, fetchErr, timedOut)"
  obtain fss where p: "polled cl (ccLimit cfg) (withTimeout cl (rdMaxWait r) w) 0 fss w'" "loop_end cfg st fss ex"
    and m: "csMessages st = concat (map (fetched tf (ccNanoPrecision cfg)) fss)"
    using consume_loop_spec [OF l] by (auto simp: loop_spec_def empty_state_def)
  show thesis using c by (intro that [OF p(1) m _ p(2)]) simp
qed

text \<open>C6: \<open>Consume\<close> returns: with a client whose polls each bring a record, an error or a finished
  context, the polling loop ends for every limit, state and configuration (memory for the messages aside). With polls that
  honour their maximum it never returns more than \<open>limit\<close> messages; and when a context error is
  only reported for a finished context, a successful call without \<open>expectTimeout\<close> returns exactly
  \<open>limit\<close> messages.\<close>

theorem consume_returns:
  assumes "productive cl" and "honours_max cl"
  shows "\<exists>res r' out w'. Consume cl tf ord v r cfg w = Some (res, r', out, w') \<and>
           int (length (returned res)) \<le> max 0 (ccLimit cfg) \<and>
           (reports_deadline cl \<and> \<not> ccExpectTimeout cfg \<and> is_ok res \<longrightarrow>
              int (length (returned res)) = max 0 (ccLimit cfg))"
proof (cases "vuState v = None \<or> rdClient r = None \<or> ccLimit cfg \<le> 0")
  case True
  then show ?thesis by (auto simp: Consume_def)
next
  case False
  then have op: "vuState v \<noteq> None" "rdClient r \<noteq> None" "0 < ccLimit cfg" by auto
  obtain x where x: "consume_loop cl tf cfg (withTimeout cl (rdMaxWait r) w) (empty_state (rdCollector r)) = Some x"
    using consume_loop_returns [OF assms(1)] by blast
  then obtain res r' out w' where c: "Consume cl tf ord v r cfg w = Some (res, r', out, w')"
    using False by (auto simp: Consume_def Let_def case_prod_beta split: option.splits)
  obtain fss ex st where p: "polled cl (ccLimit cfg) (withTimeout cl (rdMaxWait r) w) 0 fss w'"
    and m: "csMessages st = concat (map (fetched tf (ccNanoPrecision cfg)) fss)"
    and res: "fst (consume_result cfg v (rdMaxWait r) ex (csMessages st)) = res" and e: "loop_end cfg st fss ex"
    by (rule Consume_polls [OF op c])
  have le: "int (length (csMessages st)) \<le> ccLimit cfg"
    using polled_bounded [OF assms(2) p] False by (simp add: m length_concat_fetched)
  have ok: "returned res = (if is_ok res then csMessages st else [])"
    using res by (auto simp: consume_result_def split: loop_exit.splits if_splits option.splits)
  have "int (length (csMessages st)) = ccLimit cfg"
    if "reports_deadline cl" "\<not> ccExpectTimeout cfg" "is_ok res"
  proof -
    have "ex = LoopExit c \<Longrightarrow> c = None \<or> ccLimit cfg \<le> int (length (csMessages st))" for c
      using that(2,3) res by (auto simp: consume_result_def split: if_splits option.splits)
    moreover have "fsCtxErrAfter (last fss) \<noteq> None"
      if "fss \<noteq> []" "fsErrors (last fss) \<noteq> []" "list_all (\<lambda>e. context_error (feErr e)) (fsErrors (last fss))"
      using polled_last [OF p that(1)] that(2,3) \<open>reports_deadline cl\<close>
      unfolding reports_deadline_def Let_def by metis
    ultimately show ?thesis
      using e le that(3) res by (auto simp: loop_end_def consume_result_def split: loop_exit.splits)
  qed
  then show ?thesis using c ok le False by auto
qed

text \<open>A small setting for concrete instances: a broker that holds as many one-record fetches as its
  state says and then runs into the deadline, a VU context and an open reader.\<close>

definition demo_record :: kgo_Record where
  "demo_record = \<lparr>rTopic = ''t'', rKey = None, rValue = Some [1, 2], rHeaders = [], rTimestamp = None,
     rPartition = 0, rOffset = 4\<rparr>"

definition demo_fetches :: "nat \<Rightarrow> fetches" where
  "demo_fetches k =
     \<lparr>fsPartitions = (if k = 0 then [] else [\<lparr>fpHighWatermark = 9, fpRecords = [demo_record]\<rparr>]), fsErrors = [],
      fsHooks = [], fsCtxErr = (if k = 0 then Some DeadlineExceeded else None), fsCtxErrAfter = None\<rparr>"

definition demo_consumer :: "nat kgo_consumer" where
  "demo_consumer = \<lparr>withTimeout = (\<lambda>_. id), pollRecords = (\<lambda>k n. (demo_fetches k, k - 1))\<rparr>"

lemma demo_timeout [simp]: "withTimeout demo_consumer d w = w"
  by (simp add: demo_consumer_def)

definition demo_vu :: vu where
  "demo_vu = \<lparr>vuState = Some (CurrentTags ''vu''), vuNow = 0, vuCtxErr = None, vuPushes = True\<rparr>"

definition demo_reader :: Reader where
  "demo_reader = \<lparr>rdClient = Some [], rdMaxWait = 5, rdCollector = Some (newMetricsCollector registerMetrics RoleReader),
     rdGroup = True\<rparr>"

definition demo_time :: time_format where "demo_time = (\<lambda>_ _. ''now'')"

definition demo_config :: "int \<Rightarrow> ConsumeConfig" where
  "demo_config n = \<lparr>ccLimit = n, ccNanoPrecision = False, ccExpectTimeout = False\<rparr>"

lemmas demo_defs = demo_record_def demo_fetches_def demo_consumer_def demo_vu_def demo_reader_def demo_time_def
  demo_config_def

lemma demo_consumer_laws: "productive demo_consumer" "honours_max demo_consumer" "reports_deadline demo_consumer"
  by (auto simp: demo_defs productive_def honours_max_def reports_deadline_def record_count_def)

theorem consume_returns_witness:
  "\<exists>res r' out w'. Consume demo_consumer demo_time id demo_vu demo_reader (demo_config 3) (7::nat) = Some (res, r', out, w') \<and>
     (is_ok res \<longrightarrow> length (returned res) = 3)"
  using consume_returns [OF demo_consumer_laws(1,2), of demo_time id demo_vu demo_reader "demo_config 3" 7]
    demo_consumer_laws(3)
  by (auto simp: demo_config_def)

text \<open>C4: What \<open>Consume\<close> returns is exactly what the polls delivered: a successful call gives the
  records of all its polls, decoded, in the order the broker sent them, none lost, repeated or
  invented. The call fails with a fetch error exactly when the last poll failed for another reason
  than its context; the timeout error means that messages were missing and neither
  \<open>expectTimeout\<close> nor a cancelled VU context explains it.\<close>

theorem consume_delivers_polls:
  assumes "vuState v \<noteq> None" and "rdClient r \<noteq> None" and "0 < ccLimit cfg"
    and "Consume cl tf ord v r cfg w = Some (res, r', out, w')"
  shows "\<exists>fss. polled cl (ccLimit cfg) (withTimeout cl (rdMaxWait r) w) 0 fss w' \<and>
           (let got = concat (map (fetched tf (ccNanoPrecision cfg)) fss) in
              (is_ok res \<longrightarrow> res = Inr got) \<and>
              (fetch_failure res \<longleftrightarrow> fetch_fails fss) \<and>
              (consume_timeout res \<longrightarrow> int (length got) < ccLimit cfg \<and> \<not> ccExpectTimeout cfg \<and> vuCtxErr v = None) \<and>
              (vuCtxErr v \<noteq> None \<and> is_ok res \<and> int (length got) < ccLimit cfg \<longrightarrow>
                 fss \<noteq> [] \<and> fsErrors (last fss) \<noteq> [] \<and> fsCtxErrAfter (last fss) = None))"
proof (rule Consume_polls [OF assms])
  fix fss ex st
  assume p: "polled cl (ccLimit cfg) (withTimeout cl (rdMaxWait r) w) 0 fss w'"
    and m: "csMessages st = concat (map (fetched tf (ccNanoPrecision cfg)) fss)"
    and res: "fst (consume_result cfg v (rdMaxWait r) ex (csMessages st)) = res" and e: "loop_end cfg st fss ex"
  have "(is_ok res \<longrightarrow> res = Inr (csMessages st)) \<and> (fetch_failure res \<longleftrightarrow> fetch_fails fss) \<and>
    (consume_timeout res \<longrightarrow> int (length (csMessages st)) < ccLimit cfg \<and> \<not> ccExpectTimeout cfg \<and> vuCtxErr v = None) \<and>
    (vuCtxErr v \<noteq> None \<and> is_ok res \<and> int (length (csMessages st)) < ccLimit cfg \<longrightarrow>
       fss \<noteq> [] \<and> fsErrors (last fss) \<noteq> [] \<and> fsCtxErrAfter (last fss) = None)"
    using res e
    by (auto simp: consume_result_def loop_end_def fetch_failure_def consume_timeout_def
        split: loop_exit.splits if_splits option.splits)
  from conjI [OF p this [unfolded m]] show ?thesis unfolding Let_def by (rule exI)
qed

lemma demo_returns:
  obtains res r' out w' where
    "Consume demo_consumer demo_time id demo_vu demo_reader (demo_config n) (k::nat) = Some (res, r', out, w')"
    "int (length (returned res)) \<le> max 0 n"
proof -
  have "\<exists>res r' out w'. Consume demo_consumer demo_time id demo_vu demo_reader (demo_config n) k = Some (res, r', out, w') \<and>
      int (length (returned res)) \<le> max 0 n"
  proof (cases "n \<le> 0")
    case True
    then show ?thesis by (auto simp: Consume_def demo_defs)
  next
    case False
    obtain x where x: "consume_loop demo_consumer demo_time (demo_config n) (withTimeout demo_consumer (rdMaxWait demo_reader) k)
        (empty_state (rdCollector demo_reader)) = Some x"
      using consume_loop_returns [OF demo_consumer_laws(1)] by blast
    have op: "vuState demo_vu \<noteq> None" "rdClient demo_reader \<noteq> None" "0 < ccLimit (demo_config n)"
      using False by (simp_all add: demo_defs)
    obtain res r' out w' where c: "Consume demo_consumer demo_time id demo_vu demo_reader (demo_config n) k = Some (res, r', out, w')"
      using False x by (auto simp: Consume_def demo_vu_def demo_reader_def demo_config_def Let_def case_prod_beta split: option.splits)
    show ?thesis
    proof (rule Consume_polls [OF op c])
      fix fss ex st
      assume p: "polled demo_consumer (ccLimit (demo_config n)) (withTimeout demo_consumer (rdMaxWait demo_reader) k) 0 fss w'"
        and m: "csMessages st = concat (map (fetched demo_time (ccNanoPrecision (demo_config n))) fss)"
        and res: "fst (consume_result (demo_config n) demo_vu (rdMaxWait demo_reader) ex (csMessages st)) = res"
      have "length (returned res) \<le> length (csMessages st)"
        using res by (auto simp: consume_result_def split: loop_exit.splits if_splits option.splits)
      moreover have "int (length (csMessages st)) \<le> n"
        using polled_bounded [OF demo_consumer_laws(2) p] False by (simp add: m length_concat_fetched demo_config_def)
      ultimately show ?thesis using c by auto
    qed
  qed
  then show thesis using that by blast
qed

theorem consume_delivers_polls_witness:
  "\<exists>res r' out w' fss.
     Consume demo_consumer demo_time id demo_vu demo_reader (demo_config 2) (5::nat) = Some (res, r', out, w') \<and>
     polled demo_consumer 2 5 0 fss w' \<and> (is_ok res \<longrightarrow> res = Inr (concat (map (fetched demo_time False) fss)))"
proof (rule demo_returns [of 2 5])
  fix res r' out w'
  assume c: "Consume demo_consumer demo_time id demo_vu demo_reader (demo_config 2) 5 = Some (res, r', out, w')"
  from consume_delivers_polls [OF _ _ _ c] show ?thesis
    using c by (auto simp: demo_vu_def demo_reader_def demo_config_def Let_def)
qed

text \<open>What the context reads when the loop ends after the polls \<open>fss\<close> with messages missing.\<close>

definition context_after :: "fetches list \<Rightarrow> go_error option" where
  "context_after fss =
     (if fss = [] then None
      else if fsCtxErr (last fss) \<noteq> None then fsCtxErr (last fss)
      else if fsErrors (last fss) \<noteq> [] then fsCtxErrAfter (last fss)
      else None)"

text \<open>All polls of a call: none after one that ends the loop, and as many as it takes.\<close>

definition all_polls :: "'w kgo_consumer \<Rightarrow> int \<Rightarrow> 'w \<Rightarrow> fetches list \<Rightarrow> 'w \<Rightarrow> bool" where
  "all_polls cl limit w fss w' \<longleftrightarrow>
     polled cl limit w 0 fss w' \<and> (\<forall>fs \<in> set (butlast fss). \<not> ends_loop fs) \<and>
     (limit \<le> int (sum_list (map record_count fss)) \<or> (fss \<noteq> [] \<and> ends_loop (last fss)))"

text \<open>A call runs out of time: messages are missing, its own context is done and the VU's is not.\<close>

definition runs_out_of_time :: "ConsumeConfig \<Rightarrow> vu \<Rightarrow> fetches list \<Rightarrow> bool" where
  "runs_out_of_time cfg v fss \<longleftrightarrow>
     \<not> fetch_fails fss \<and> int (sum_list (map record_count fss)) < ccLimit cfg \<and> context_after fss \<noteq> None \<and> vuCtxErr v = None"

lemma loop_end_timeout:
  assumes "loop_end cfg st fss ex" and "length (csMessages st) = sum_list (map record_count fss)"
  shows "int (length (csMessages st)) < ccLimit cfg \<and> vuCtxErr v = None \<and> (\<exists>c. ex = LoopExit (Some c)) \<longleftrightarrow>
     runs_out_of_time cfg v fss"
  using assms by (auto simp: loop_end_def runs_out_of_time_def context_after_def split: loop_exit.splits)

lemma loop_end_all_polls:
  assumes "loop_end cfg st fss ex" and "length (csMessages st) = sum_list (map record_count fss)"
    and "polled cl (ccLimit cfg) w 0 fss w'" and "\<forall>fs \<in> set (butlast fss). \<not> ends_loop fs"
  shows "all_polls cl (ccLimit cfg) w fss w'"
  using assms by (auto simp: loop_end_def all_polls_def ends_loop_def fetch_fails_def split: loop_exit.splits)

text \<open>C5: A consume call in a VU context that is not done reports exactly the messages it returns: per topic their number and their key and
  value bytes, and for every message, in order, its lag and offset; a call that returns no
  messages (fetch error, cancellation, unexpected timeout) reports none. The error counter grows
  by one exactly for a fetch error. The timeout counter grows by one exactly for a call that runs out of time, which
  is then the timeout error without \<open>expectTimeout\<close> and the short batch with it.\<close>

theorem consume_accounting:
  assumes "vuState v = Some base" and "rdClient r \<noteq> None" and "0 < ccLimit cfg"
    and "rdCollector r = Some mc" and "collector_inv RoleReader mc" and "order_ok ord"
    and "Consume cl tf ord v r cfg w = Some (res, r', out, w')"
    and "length (returned res) \<le> 2 ^ 53" and "total_bytes (of_topic t (returned res)) \<le> 2 ^ 53" and "vuPushes v"
  shows "let s = pushed out; ms = returned res in
         counter_total (kmReaderMessageCount registerMetrics) (\<lambda>x. tag_topic x = Some t) s = of_nat (length (of_topic t ms)) \<and>
         counter_total (kmReaderMessageBytes registerMetrics) (\<lambda>x. tag_topic x = Some t) s = of_nat (total_bytes (of_topic t ms)) \<and>
         topic_values (kmReaderLag registerMetrics) s = map (pt_pair \<circ> lag_trend) ms \<and>
         topic_values (kmReaderOffset registerMetrics) s = map (pt_pair \<circ> offset_trend) ms \<and>
         counter_total (kmReaderErrorCount registerMetrics) (\<lambda>_. True) s = (if fetch_failure res then 1 else 0) \<and>
         (\<exists>fss. all_polls cl (ccLimit cfg) (withTimeout cl (rdMaxWait r) w) fss w' \<and>
            counter_total (kmReaderTimeoutsCount registerMetrics) (\<lambda>_. True) s = (if runs_out_of_time cfg v fss then 1 else 0) \<and>
            (consume_timeout res \<longleftrightarrow> runs_out_of_time cfg v fss \<and> \<not> ccExpectTimeout cfg) \<and>
            (runs_out_of_time cfg v fss \<and> ccExpectTimeout cfg \<longrightarrow>
               res = Inr (concat (map (fetched tf (ccNanoPrecision cfg)) fss))))"
proof -
  have op: "vuState v \<noteq> None" using assms(1) by simp
  obtain ex st withM fetchErr timedOut where
    l: "consume_loop cl tf cfg (withTimeout cl (rdMaxWait r) w) (empty_state (rdCollector r)) = Some (ex, w', st)" and
    cr: "consume_result cfg v (rdMaxWait r) ex (csMessages st) = (res, withM, fetchErr, timedOut)" and
    out: "out = snd (consume_flush ord v st withM fetchErr timedOut)"
    by (rule Consume_unfold [OF op assms(2,3,7)])
  note flags = consume_result_cases [OF cr]
  obtain fss where ls: "loop_spec cl tf cfg (withTimeout cl (rdMaxWait r) w) (empty_state (rdCollector r)) (ex, w', st) fss"
    using consume_loop_spec [OF l] by blast
  then have inv: "consume_inv st" using consume_inv_empty by (auto simp: loop_spec_def)
  from ls have "csCollector st = Some (foldl hooks mc (concat (map fsHooks fss)))"
    by (simp add: loop_spec_def empty_state_def run_hooks_def assms(4))
  note rep = consume_flush_report [OF this collector_inv_run_hooks [OF assms(5)] assms(6,1) inv]
  have ms: "returned res = (if withM then csMessages st else [])"
    using flags(1,2) by (cases res) auto
  note r = rep [OF ms assms(8,9), of "pushed out" fetchErr timedOut, unfolded out, OF refl assms(10), folded out]
  from ls have p': "polled cl (ccLimit cfg) (withTimeout cl (rdMaxWait r) w) 0 fss w'" and le: "loop_end cfg st fss ex"
    and m: "csMessages st = concat (map (fetched tf (ccNanoPrecision cfg)) fss)" and bl: "\<forall>fs \<in> set (butlast fss). \<not> ends_loop fs"
    by (auto simp: loop_spec_def empty_state_def)
  have len: "length (csMessages st) = sum_list (map record_count fss)" by (simp only: m length_concat_fetched)
  note p = loop_end_all_polls [OF le len p' bl]
  have to: "timedOut \<longleftrightarrow> runs_out_of_time cfg v fss" using flags(7) loop_end_timeout [OF le len] by metis
  have "consume_timeout res \<longleftrightarrow> timedOut \<and> \<not> ccExpectTimeout cfg" "timedOut \<and> ccExpectTimeout cfg \<longrightarrow> res = Inr (csMessages st)"
    using flags(4,8) by (auto simp: consume_timeout_def split: if_splits)
  then have "\<exists>fss. all_polls cl (ccLimit cfg) (withTimeout cl (rdMaxWait r) w) fss w' \<and>
      counter_total (kmReaderTimeoutsCount registerMetrics) (\<lambda>_. True) (pushed out) = (if runs_out_of_time cfg v fss then 1 else 0) \<and>
      (consume_timeout res \<longleftrightarrow> runs_out_of_time cfg v fss \<and> \<not> ccExpectTimeout cfg) \<and>
      (runs_out_of_time cfg v fss \<and> ccExpectTimeout cfg \<longrightarrow> res = Inr (concat (map (fetched tf (ccNanoPrecision cfg)) fss)))"
    using p r(6) unfolding to m by (intro exI [of _ fss]) simp
  then show ?thesis using r(1-5) flags(3) by (simp add: Let_def)
qed

theorem consume_accounting_witness:
  "\<exists>res r' out w'.
     Consume demo_consumer demo_time id demo_vu demo_reader (demo_config 2\<lparr>ccExpectTimeout := True\<rparr>) (1::nat) = Some (res, r', out, w') \<and>
     res = Inr (fetched demo_time False (demo_fetches 1)) \<and>
     topic_values (kmReaderLag registerMetrics) (pushed out) = [(Some ''t'', f64_of_int 4)] \<and>
     counter_total (kmReaderTimeoutsCount registerMetrics) (\<lambda>_. True) (pushed out) = 1"
proof -
  let ?cfg = "demo_config 2\<lparr>ccExpectTimeout := True\<rparr>"
  have f: "fetched demo_time False (demo_fetches 0) = []" "length (fetched demo_time False (demo_fetches (Suc 0))) = 1"
    "fetched demo_time False (demo_fetches (Suc 0)) = [decodeRecord demo_time demo_record 9 False]"
    by (simp_all add: fetched_def demo_fetches_def)
  have "\<exists>st. consume_loop demo_consumer demo_time ?cfg 1 (empty_state mco) = Some (LoopExit (Some DeadlineExceeded), 0, st) \<and>
      csMessages st = fetched demo_time False (demo_fetches 1)" for mco
    using f by (subst consume_loop.simps, subst consume_loop.simps)
      (simp add: demo_consumer_def demo_config_def empty_state_def demo_fetches_def Let_def)
  then obtain st where "consume_loop demo_consumer demo_time ?cfg 1 (empty_state (rdCollector demo_reader)) =
      Some (LoopExit (Some DeadlineExceeded), 0, st)" and m: "csMessages st = fetched demo_time False (demo_fetches 1)" by blast
  then have "\<exists>r' out. Consume demo_consumer demo_time id demo_vu demo_reader ?cfg 1 = Some (Inr (csMessages st), r', out, 0)"
    using f by (simp add: Consume_def consume_result_def demo_vu_def demo_reader_def demo_config_def demo_consumer_def
        Let_def case_prod_beta)
  then obtain r' out where
    c: "Consume demo_consumer demo_time id demo_vu demo_reader ?cfg 1 = Some (Inr (fetched demo_time False (demo_fetches 1)), r', out, 0)"
    using m by auto
  have "order_ok id" by (simp add: order_ok_def)
  note th = consume_accounting [OF _ _ _ _ collector_inv_new this c, of "CurrentTags ''vu''" "''t''"]
  have b: "total_bytes (of_topic ''t'' (fetched demo_time False (demo_fetches 1))) = 2"
    by (simp add: f message_bytes_def demo_record_def slice_of_def decodeRecord_def)
  have ends: "ends_loop (demo_fetches k) \<longleftrightarrow> k = 0" "record_count (demo_fetches k) = (if k = 0 then 0 else 1)" for k
    by (simp_all add: ends_loop_def demo_fetches_def record_count_def)
  have "fss = [demo_fetches 1, demo_fetches 0]" if "all_polls demo_consumer 2 1 fss w" for fss w
    using that by (cases fss; cases "tl fss"; cases "tl (tl fss)") (auto simp: all_polls_def demo_consumer_def ends split: if_splits)
  moreover have "runs_out_of_time ?cfg demo_vu [demo_fetches 1, demo_fetches 0]"
    by (simp add: runs_out_of_time_def fetch_fails_def context_after_def ends) (simp add: demo_fetches_def demo_config_def demo_vu_def)
  ultimately have "all_polls demo_consumer 2 1 fss w \<Longrightarrow> runs_out_of_time ?cfg demo_vu fss" for fss w by metis
  moreover have "map (pt_pair \<circ> lag_trend) (fetched demo_time False (demo_fetches 1)) = [(Some ''t'', f64_of_int 4)]"
    by (simp add: f pt_pair_def lag_trend_def demo_record_def) (simp add: readerLag_def wrap64_def)
  ultimately show ?thesis using th c b f(2)
    by (auto simp: demo_vu_def demo_reader_def demo_config_def demo_consumer_def Let_def)
qed

text \<open>The lag of a message is the number of messages behind it, never negative, and no 64-bit
  overflow disturbs it for any offset and high watermark a broker can report.\<close>

theorem reader_lag_exact:
  assumes "in_int64 hw" and "in_int64 off" and "0 \<le> off" and "off < maxInt64" and "-1 \<le> hw"
  shows "readerLag hw off = max 0 (hw - off - 1) \<and> in_int64 (readerLag hw off)"
proof -
  have "wrap64 (hw - off) = hw - off" "wrap64 (hw - off - 1) = hw - off - 1"
    using assms by (auto intro!: wrap64_id simp: in_int64_def int_limits)
  moreover have "in_int64 (max 0 (hw - off - 1))" using assms by (auto simp: in_int64_def int_limits)
  ultimately show ?thesis by (simp add: readerLag_def)
qed

theorem reader_lag_exact_witness: "readerLag 10 4 = 5 \<and> readerLag (-1) 4 = 0"
  using reader_lag_exact [of 10 4] reader_lag_exact [of "-1" 4] by (simp add: in_int64_def int_limits)

lemma effectiveGroupBalancers_spec:
  "effectiveGroupBalancers names \<noteq> []"
  "groupBalancers names =
     map (\<lambda>n. if n = groupBalancerRange then RangeBalancer else RoundRobinBalancer)
       (filter (\<lambda>n. n = groupBalancerRange \<or> n = groupBalancerRoundRobin) names)"
  "set (effectiveGroupBalancers names) \<subseteq> {RangeBalancer, RoundRobinBalancer}"
proof -
  show b: "groupBalancers names =
     map (\<lambda>n. if n = groupBalancerRange then RangeBalancer else RoundRobinBalancer)
       (filter (\<lambda>n. n = groupBalancerRange \<or> n = groupBalancerRoundRobin) names)"
    by (induction names) simp_all
  show "set (effectiveGroupBalancers names) \<subseteq> {RangeBalancer, RoundRobinBalancer}"
    by (auto simp: effectiveGroupBalancers_def Let_def b)
qed (simp add: effectiveGroupBalancers_def Let_def)

text \<open>When a configuration is acceptable, apart from the client itself.\<close>

definition reader_config_ok :: "crypto \<Rightarrow> ReaderConfig \<Rightarrow> bool" where
  "reader_config_ok cr cfg \<longleftrightarrow>
     rcBrokers cfg \<noteq> [] \<and>
     (if rcGroupID cfg \<noteq> '''' then rcGroupTopics cfg \<noteq> [] \<or> rcTopic cfg \<noteq> ''''
      else rcTopic cfg \<noteq> '''' \<and> (\<forall>n. rcOffset cfg = Some n \<longrightarrow> -1 \<le> n)) \<and>
     (rcMaxWait cfg = '''' \<or> is_ok (ParseDuration (rcMaxWait cfg))) \<and>
     is_ok (clientOptions cr (rcBrokers cfg) (rcSASL cfg) (rcTLS cfg)) \<and>
     (\<forall>n. rcMaxAttempts cfg = Some n \<longrightarrow> 0 \<le> n)"

definition reader_wait :: "ReaderConfig \<Rightarrow> int" where
  "reader_wait cfg =
     (if rcMaxWait cfg = '''' then defaultMaxWait
      else case ParseDuration (rcMaxWait cfg) of Inr d \<Rightarrow> d | Inl _ \<Rightarrow> defaultMaxWait)"

lemma openReader_ok:
  "openReader cr newClient cfg collector = Inr r \<longleftrightarrow>
     reader_config_ok cr cfg \<and>
     (\<exists>opts. readerOptions cr cfg (reader_wait cfg) collector = Inr opts \<and> newClient opts = None \<and>
        r = \<lparr>rdClient = Some opts, rdMaxWait = reader_wait cfg, rdCollector = collector, rdGroup = (rcGroupID cfg \<noteq> '''')\<rparr>)"
proof -
  have opts: "is_ok (readerOptions cr cfg wt collector) \<longleftrightarrow>
      is_ok (clientOptions cr (rcBrokers cfg) (rcSASL cfg) (rcTLS cfg)) \<and> (\<forall>n. rcMaxAttempts cfg = Some n \<longrightarrow> 0 \<le> n)" for wt
    by (auto simp: is_ok_iff readerOptions_ok)
  have "\<And>opts wt. readerOptions cr cfg wt collector = Inr opts \<Longrightarrow>
      is_ok (clientOptions cr (rcBrokers cfg) (rcSASL cfg) (rcTLS cfg)) \<and> (\<forall>n. rcMaxAttempts cfg = Some n \<longrightarrow> 0 \<le> n)"
    using opts by (metis is_ok_iff)
  then show ?thesis
    unfolding openReader_def reader_config_ok_def reader_wait_def
    by (cases "rcGroupID cfg = []"; cases "rcMaxWait cfg = []"; cases "ParseDuration (rcMaxWait cfg)"; cases "rcOffset cfg")
       (auto simp: Let_def split: sum.splits option.splits)
qed

text \<open>The settings a reader's configuration stands for, one kind of client option at a time.\<close>

definition reader_setting :: "ReaderConfig \<Rightarrow> bool \<Rightarrow> kgo_opt \<Rightarrow> bool" where
  "reader_setting cfg hooked opt =
     (let grouped = (rcGroupID cfg \<noteq> '''');
          start = (if rcStartOffset cfg = ''start_offsets_last_offset'' then AtEnd else AtStart);
          position = (case rcOffset cfg of None \<Rightarrow> start
                      | Some n \<Rightarrow> if n = -1 then AtEnd else if 0 < n then At n else AtStart);
          balancers = map (\<lambda>n. if n = ''group_balancer_range'' then RangeBalancer else RoundRobinBalancer)
            (filter (\<lambda>n. n \<in> {''group_balancer_range'', ''group_balancer_round_robin''}) (rcGroupBalancers cfg))
      in case opt of
           WithHooks \<Rightarrow> hooked
         | FetchMinBytes n \<Rightarrow> n = rcMinBytes cfg \<and> 0 < n \<and> n < 2 ^ 31
         | FetchMaxBytes n \<Rightarrow> n = rcMaxBytes cfg \<and> 0 < n \<and> n < 2 ^ 31
         | FetchMaxWait d \<Rightarrow> d = reader_wait cfg
         | FetchIsolationLevel l \<Rightarrow>
             l = (if rcIsolationLevel cfg = ''isolation_level_read_committed'' then ReadCommitted else ReadUncommitted)
         | RequestRetries n \<Rightarrow> rcMaxAttempts cfg = Some n
         | ConsumerGroup g \<Rightarrow> grouped \<and> g = rcGroupID cfg
         | ConsumeTopics ts \<Rightarrow> grouped \<and> ts = (if rcGroupTopics cfg = [] then [rcTopic cfg] else rcGroupTopics cfg)
         | ConsumeResetOffset off \<Rightarrow> grouped \<and> off = start
         | Balancers bs \<Rightarrow> grouped \<and> bs = (if balancers = [] then [RangeBalancer] else balancers)
         | HeartbeatInterval d \<Rightarrow> grouped \<and> d = rcHeartbeatInterval cfg \<and> 0 < d
         | SessionTimeout d \<Rightarrow> grouped \<and> d = rcSessionTimeout cfg \<and> 0 < d
         | RebalanceTimeout d \<Rightarrow> grouped \<and> d = rcRebalanceTimeout cfg \<and> 0 < d
         | AutoCommitInterval d \<Rightarrow> grouped \<and> d = rcCommitInterval cfg \<and> 0 < d
         | ConsumePartitions ps \<Rightarrow> \<not> grouped \<and> ps = [(rcTopic cfg, [(rcPartition cfg, position)])]
         | _ \<Rightarrow> False)"

lemma distinct_opt_list [simp]: "distinct (opt_list b x @ xs) \<longleftrightarrow> distinct xs \<and> (b \<longrightarrow> x \<notin> set xs)" "distinct (opt_list b x)"
  by (cases b; auto)+

lemma reader_rest_distinct: "distinct (reader_extra cfg wt col @ reader_position cfg)"
  by (cases "rcMaxAttempts cfg"; cases "rcGroupID cfg = []")
     (simp_all add: reader_extra_def reader_position_def groupOptions_def directOption_def Let_def del: distinct_append)

lemma reader_rest_settings:
  "opt \<in> set (reader_extra cfg (reader_wait cfg) col @ reader_position cfg) \<longleftrightarrow> reader_setting cfg (col \<noteq> None) opt"
proof -
  have b: "effectiveGroupBalancers (rcGroupBalancers cfg) =
      (let balancers = map (\<lambda>n. if n = ''group_balancer_range'' then RangeBalancer else RoundRobinBalancer)
            (filter (\<lambda>n. n \<in> {''group_balancer_range'', ''group_balancer_round_robin''}) (rcGroupBalancers cfg))
       in if balancers = [] then [RangeBalancer] else balancers)"
    by (simp add: effectiveGroupBalancers_def effectiveGroupBalancers_spec(2) Let_def groupBalancerRange_def
        groupBalancerRoundRobin_def)
  note defs = reader_setting_def reader_extra_def reader_position_def groupOptions_def directOption_def Let_def b
    isolationLevel_def startOffsetReset_def directOffset_def isolationReadCommitted_def startOffsetLast_def maxInt32_def
  show ?thesis
    by (cases opt; cases "rcMaxAttempts cfg"; cases "rcGroupID cfg = []"; cases "rcOffset cfg") (auto simp: defs)
qed

text \<open>C30: A reader is opened exactly for an acceptable configuration (brokers; a topic or, for a group,
  some topics; a direct offset of at least -1; a duration that parses; usable security settings; a
  non-negative retry budget) that the client accepts. Its client then has the security options followed by exactly the options the configuration stands
  for, each once: the wait, the isolation level, the byte limits and the retries that are set,
  and either the group with its topics, reset offset, balancers and intervals or the one
  partition at its position, never both.\<close>

theorem reader_opens_as_configured:
  "(is_ok (openReader cr newClient cfg collector) \<longleftrightarrow>
      reader_config_ok cr cfg \<and>
      (\<exists>opts. readerOptions cr cfg (reader_wait cfg) collector = Inr opts \<and> newClient opts = None)) \<and>
   (\<forall>r. openReader cr newClient cfg collector = Inr r \<longrightarrow>
      (\<exists>base rest. clientOptions cr (rcBrokers cfg) (rcSASL cfg) (rcTLS cfg) = Inr base \<and>
         distinct rest \<and> (\<forall>opt. opt \<in> set rest \<longleftrightarrow> reader_setting cfg (collector \<noteq> None) opt) \<and>
         newClient (base @ rest) = None \<and>
         r = \<lparr>rdClient = Some (base @ rest), rdMaxWait = reader_wait cfg, rdCollector = collector,
              rdGroup = (rcGroupID cfg \<noteq> '''')\<rparr>))"
proof (intro conjI allI impI)
  show "is_ok (openReader cr newClient cfg collector) \<longleftrightarrow> reader_config_ok cr cfg \<and>
    (\<exists>opts. readerOptions cr cfg (reader_wait cfg) collector = Inr opts \<and> newClient opts = None)"
    by (auto simp: is_ok_iff openReader_ok)
next
  fix r
  assume "openReader cr newClient cfg collector = Inr r"
  then obtain base where "clientOptions cr (rcBrokers cfg) (rcSASL cfg) (rcTLS cfg) = Inr base"
    "newClient (base @ reader_extra cfg (reader_wait cfg) collector @ reader_position cfg) = None"
    "r = \<lparr>rdClient = Some (base @ reader_extra cfg (reader_wait cfg) collector @ reader_position cfg),
          rdMaxWait = reader_wait cfg, rdCollector = collector, rdGroup = (rcGroupID cfg \<noteq> '''')\<rparr>"
    by (auto simp: openReader_ok readerOptions_ok)
  then show "\<exists>base rest. clientOptions cr (rcBrokers cfg) (rcSASL cfg) (rcTLS cfg) = Inr base \<and>
         distinct rest \<and> (\<forall>opt. opt \<in> set rest \<longleftrightarrow> reader_setting cfg (collector \<noteq> None) opt) \<and>
         newClient (base @ rest) = None \<and>
         r = \<lparr>rdClient = Some (base @ rest), rdMaxWait = reader_wait cfg, rdCollector = collector,
              rdGroup = (rcGroupID cfg \<noteq> '''')\<rparr>"
    using reader_rest_distinct reader_rest_settings by blast
qed

definition demo_crypto :: crypto where
  "demo_crypto = \<lparr>keyPairErr = (\<lambda>_ _. None), pemHasCerts = (\<lambda>_. True)\<rparr>"

definition demo_reader_config :: ReaderConfig where
  "demo_reader_config =
     \<lparr>rcBrokers = [''b:9092''], rcGroupID = ''g'', rcGroupTopics = [], rcTopic = ''t'', rcPartition = 0, rcMinBytes = 0,
      rcMaxBytes = 0, rcMaxWait = ''3s'', rcGroupBalancers = [''group_balancer_rack_affinity''],
      rcHeartbeatInterval = 0, rcCommitInterval = 0, rcSessionTimeout = 0, rcRebalanceTimeout = 0,
      rcStartOffset = ''start_offsets_last_offset'', rcOffset = None, rcMaxAttempts = Some 2,
      rcIsolationLevel = ''isolation_level_read_committed'', rcSASL = None, rcTLS = None\<rparr>"

lemma demo_reader_wait: "ParseDuration ''3s'' = Inr 3000000000"
proof -
  have "dec_digits 3 = ''3''" by (subst dec_digits.simps) (simp add: char_of_def bit_iff_odd)
  then show ?thesis using ParseDuration_decimal [of "''s''" 1000000000 3] by (simp add: unitMap_def)
qed

theorem reader_opens_as_configured_witness:
  "\<exists>r opts. openReader demo_crypto (\<lambda>_. None) demo_reader_config None = Inr r \<and> rdClient r = Some opts \<and>
     rdMaxWait r = 3000000000 \<and> rdGroup r \<and>
     {FetchMaxWait 3000000000, FetchIsolationLevel ReadCommitted, RequestRetries 2, ConsumerGroup ''g'', ConsumeTopics [''t''],
      ConsumeResetOffset AtEnd, Balancers [RangeBalancer]} \<subseteq> set opts"
proof -
  note th = reader_opens_as_configured [of demo_crypto "\<lambda>_. None" demo_reader_config None]
  have w: "reader_wait demo_reader_config = 3000000000"
    by (simp add: reader_wait_def demo_reader_config_def demo_reader_wait)
  have "\<exists>opts. readerOptions demo_crypto demo_reader_config 3000000000 None = Inr opts"
    unfolding readerOptions_ok
    by (simp add: demo_reader_config_def clientOptions_def buildTLSConfig_def buildSASL_def)
  moreover have "reader_config_ok demo_crypto demo_reader_config"
    by (simp add: reader_config_ok_def demo_reader_config_def demo_reader_wait clientOptions_def buildTLSConfig_def buildSASL_def)
  ultimately have "is_ok (openReader demo_crypto (\<lambda>_. None) demo_reader_config None)"
    using th [THEN conjunct1] w by simp
  then obtain r where r: "openReader demo_crypto (\<lambda>_. None) demo_reader_config None = Inr r" by (auto simp: is_ok_iff)
  obtain base rest where "\<forall>opt. opt \<in> set rest \<longleftrightarrow> reader_setting demo_reader_config False opt"
    and rd: "r = \<lparr>rdClient = Some (base @ rest), rdMaxWait = 3000000000, rdCollector = None, rdGroup = True\<rparr>"
    using th [THEN conjunct2, rule_format, OF r] w by (auto simp: demo_reader_config_def)
  then have "{FetchMaxWait 3000000000, FetchIsolationLevel ReadCommitted, RequestRetries 2, ConsumerGroup ''g'', ConsumeTopics [''t''],
      ConsumeResetOffset AtEnd, Balancers [RangeBalancer]} \<subseteq> set rest"
    by (simp add: reader_setting_def w Let_def) (simp add: demo_reader_config_def)
  then show ?thesis using r rd by auto
qed

text \<open>C31: Closing an open reader first pushes the samples of everything the hooks observed and no flush has
  reported (none without a metrics registry, a VU state or anything to report, or when the VU's
  context is done), then commits the consumed offsets within ten seconds when it is a group reader (and
  only then) while the client is still open, and then closes the client; however often it is
  closed this happens once, and afterwards every consume call is rejected without
  polling.\<close>

theorem reader_close_once:
  assumes "rdClient r \<noteq> None" and "0 < n" and "order_ok ord"
    and "\<And>mc. rdCollector r = Some mc \<Longrightarrow> collector_inv RoleReader mc"
  shows "let (r', es) = close_times (ReaderClose ord late vo) n r in
           es = close_push ord (rdCollector r) vo @
             (if rdGroup r then [CommitUncommittedOffsets (close_context vo) 10000000000] else []) @ [ClientClose] \<and>
           rdClient r' = None \<and>
           (\<exists>e. Consume cl tf ord' v r' cfg w = Some (Inl e, r', None, w))"
proof -
  note o = reader_close.close_once(1) [OF assms(1,2), of ord late vo]
  have "push_effect (snd (flushClose ord (rdCollector r) vo)) = close_push ord (rdCollector r) vo"
    by (rule flushClose_push [OF assms(3,4)])
  then have "snd (ReaderClose ord late vo r) = close_push ord (rdCollector r) vo @
      (if rdGroup r then [CommitUncommittedOffsets (close_context vo) 10000000000] else []) @ [ClientClose]"
    and "rdClient (fst (ReaderClose ord late vo r)) = None"
    using assms(1) by (simp_all add: ReaderClose_def Let_def case_prod_beta commitTimeout_def)
  then show ?thesis using o by (auto simp: case_prod_beta Let_def Consume_def)
qed

theorem reader_close_once_witness:
  "\<exists>s. snd (close_times (ReaderClose id [] (Some demo_vu)) 3
          (demo_reader\<lparr>rdCollector := run_hooks (rdCollector demo_reader) [BrokerConnect 5000000 None]\<rparr>)) =
     [PushSamples s, CommitUncommittedOffsets VUContext 10000000000, ClientClose] \<and> map smValue s = [f64_of_int 1, f64_of_int 5]"
proof -
  let ?r = "demo_reader\<lparr>rdCollector := run_hooks (rdCollector demo_reader) [BrokerConnect 5000000 None]\<rparr>"
  have inv: "rdCollector ?r = Some mc \<Longrightarrow> collector_inv RoleReader mc" for mc
    using collector_inv_run_hooks [OF collector_inv_new, of RoleReader "[BrokerConnect 5000000 None]"]
    by (auto simp: demo_reader_def run_hooks_def)
  have "order_ok id" by (simp add: order_ok_def)
  from reader_close_once [of ?r 3 id, OF _ _ this inv, of "[]" "Some demo_vu" demo_consumer demo_time id demo_vu "demo_config 1" 0]
  show ?thesis
    by (auto simp: demo_reader_def demo_vu_def close_push_def close_context_def run_hooks_def drained_def newMetricsCollector_def
        OnBrokerConnect_def milliseconds_def case_prod_beta Let_def)
qed

end
