(* ===== verification/Admin.thy ===== *)
theory Admin
  imports Lifecycle
begin

text \<open>
  \<open>connection.go\<close> and \<open>admin.go\<close>: the administration connection with its eager ping, the guard of
  its operations, and the creation, deletion and listing of topics. The cluster answers one
  request per operation and is a parameter; each operation returns its error or result together
  with the requests it sent.
\<close>

section \<open>Connection\<close>

record ConnectionConfig =
  ncAddress :: string
  ncSASL :: "SASLConfig option"
  ncTLS :: "TLSConfig option"

record Connection =
  cnClient :: "client option"

definition pingTimeout :: int where "pingTimeout = 10 * 1000000000"

text \<open>\<open>ping t opts\<close> is the error of \<open>Ping\<close> under a background context with timeout \<open>t\<close>. The second
  result lists what happened to the client.\<close>

definition openConnection ::
  "crypto \<Rightarrow> (kgo_opt list \<Rightarrow> go_error option) \<Rightarrow> (int \<Rightarrow> kgo_opt list \<Rightarrow> go_error option)
   \<Rightarrow> ConnectionConfig \<Rightarrow> Connection res \<times> client_effect list" where
  "openConnection cr newClient ping cfg =
     (case clientOptions cr [ncAddress cfg] (ncSASL cfg) (ncTLS cfg) of
        Inl err \<Rightarrow> (Inl err, [])
      | Inr opts \<Rightarrow>
         (case newClient opts of
            Some err \<Rightarrow> (Inl (Wrapf ''creating Kafka client: %w'' [] err), [])
          | None \<Rightarrow>
             (case ping pingTimeout opts of
                Some err \<Rightarrow> (Inl (Wrapf ''connecting to %s: %w'' [AStr (ncAddress cfg)] err), [ClientClose])
              | None \<Rightarrow> (Inr \<lparr>cnClient = Some opts\<rparr>, []))))"

definition requireVU :: "vu \<Rightarrow> Connection \<Rightarrow> string \<Rightarrow> go_error option" where
  "requireVU v c op =
     (if vuState v = None
      then Some (Errorf ''%s must be called in the VU context (default/setup/teardown function), not in init'' [AStr op])
      else if cnClient c = None then Some (ErrNew ''connection is closed'')
      else None)"

definition ConnectionClose :: "Connection \<Rightarrow> Connection \<times> client_effect list" where
  "ConnectionClose c =
     (if cnClient c \<noteq> None then (c\<lparr>cnClient := None\<rparr>, [ClientClose]) else (c, []))"

section \<open>Topics and requests\<close>

record ReplicaAssignment =
  raPartition :: int
  raReplicas :: "int list"

record ConfigEntry =
  ceName :: string
  ceValue :: string

record TopicConfig =
  tcTopic :: string
  tcNumPartitions :: int
  tcReplicationFactor :: int
  tcReplicaAssignments :: "ReplicaAssignment list"
  tcConfigEntries :: "ConfigEntry list"

text \<open>The protocol's assignment has the fields of the configuration's; its zero value is
  partition 0 without replicas.\<close>

type_synonym kmsgReplicaAssignment = ReplicaAssignment

record create_topic =
  ctTopic :: string
  ctNumPartitions :: int
  ctReplicationFactor :: int
  ctReplicaAssignment :: "kmsgReplicaAssignment list"
  ctConfigs :: "(string \<times> string option) list"

record topic_response =
  trTopic :: string
  trErrorCode :: int
  trErrorMessage :: "string option"

record metadata_topic =
  mtTopic :: "string option"
  mtErrorCode :: int
  mtIsInternal :: bool

record metadata_response =
  mrErrorCode :: int
  mrTopics :: "metadata_topic list"

text \<open>A deletion carries the name both in the legacy field and in the one of version 6 and later.\<close>

datatype admin_request =
    CreateTopicsRequest "create_topic list"
  | DeleteTopicsRequest "string list" "string option list"
  | MetadataRequest "string list"

text \<open>What a cluster answers, and how franz-go names an error code (\<open>None\<close> is success).\<close>

record cluster =
  clCreate :: "create_topic list \<Rightarrow> topic_response list res"
  clDelete :: "string list \<Rightarrow> string option list \<Rightarrow> topic_response list res"
  clMetadata :: "string list \<Rightarrow> metadata_response res"
  errorForCode :: "int \<Rightarrow> go_error option"

section \<open>Operations\<close>

definition defaultPartitions :: int where "defaultPartitions = 1"
definition defaultReplicationFactor :: int where "defaultReplicationFactor = 1"

definition topicError :: "cluster \<Rightarrow> int \<Rightarrow> string option \<Rightarrow> go_error option" where
  "topicError cl code message =
     (case errorForCode cl code of
        None \<Rightarrow> None
      | Some err \<Rightarrow>
         (case message of
            Some m \<Rightarrow> if m \<noteq> '''' then Some (Wrapf ''%w: %s'' [AStr m] err) else Some err
          | None \<Rightarrow> Some err))"

definition partitionsAndReplication :: "TopicConfig \<Rightarrow> (int \<times> int) res" where
  "partitionsAndReplication cfg =
     (let partitions = (if tcNumPartitions cfg \<le> 0 then defaultPartitions else tcNumPartitions cfg) in
      if partitions > maxInt32 then Inl (Errorf ''createTopic: numPartitions %d is too large'' [AInt partitions])
      else
        let replication = (if tcReplicationFactor cfg \<le> 0 then defaultReplicationFactor else tcReplicationFactor cfg) in
        if replication > maxInt16 then Inl (Errorf ''createTopic: replicationFactor %d is too large'' [AInt replication])
        else Inr (partitions, replication))"

fun place_assignments ::
  "int \<Rightarrow> ReplicaAssignment list \<Rightarrow> int list \<Rightarrow> kmsgReplicaAssignment list \<Rightarrow> kmsgReplicaAssignment list res" where
  "place_assignments cnt [] seen out = Inr out"
| "place_assignments cnt (a # rest) seen out =
     (if raPartition a < 0 \<or> raPartition a \<ge> cnt
      then Inl (Errorf ''createTopic: replica assignment partition %d out of range; partitions must cover 0..%d''
                  [AInt (raPartition a), AInt (cnt - 1)])
      else if raPartition a \<in> set seen
      then Inl (Errorf ''createTopic: duplicate replica assignment for partition %d'' [AInt (raPartition a)])
      else place_assignments cnt rest (raPartition a # seen)
             (out[nat (raPartition a) := \<lparr>raPartition = raPartition a, raReplicas = raReplicas a\<rparr>]))"

definition buildReplicaAssignments :: "ReplicaAssignment list \<Rightarrow> kmsgReplicaAssignment list res" where
  "buildReplicaAssignments assignments =
     (if int (length assignments) > maxInt32
      then Inl (Errorf ''createTopic: too many replica assignments (%d)'' [AInt (int (length assignments))])
      else place_assignments (int (length assignments)) assignments []
             (replicate (length assignments) \<lparr>raPartition = 0, raReplicas = []\<rparr>))"

text \<open>The first per-topic error of a response.\<close>

fun first_topic_error :: "cluster \<Rightarrow> string \<Rightarrow> (topic_response \<Rightarrow> string) \<Rightarrow> topic_response list \<Rightarrow> go_error option" where
  "first_topic_error cl fmt name [] = None"
| "first_topic_error cl fmt name (t # ts) =
     (case topicError cl (trErrorCode t) (trErrorMessage t) of
        Some topicErr \<Rightarrow> Some (Wrapf fmt [AStr (name t)] topicErr)
      | None \<Rightarrow> first_topic_error cl fmt name ts)"

definition topic_request :: "TopicConfig \<Rightarrow> create_topic res" where
  "topic_request cfg =
     (let rt = \<lparr>ctTopic = tcTopic cfg, ctNumPartitions = 0, ctReplicationFactor = 0, ctReplicaAssignment = [], ctConfigs = []\<rparr> in
      case (if tcReplicaAssignments cfg \<noteq> [] then
              (case buildReplicaAssignments (tcReplicaAssignments cfg) of
                 Inl err \<Rightarrow> Inl err
               | Inr assignments \<Rightarrow>
                  Inr (rt\<lparr>ctNumPartitions := -1, ctReplicationFactor := -1, ctReplicaAssignment := assignments\<rparr>))
            else
              (case partitionsAndReplication cfg of
                 Inl err \<Rightarrow> Inl err
               | Inr (partitions, replication) \<Rightarrow>
                  Inr (rt\<lparr>ctNumPartitions := partitions, ctReplicationFactor := replication\<rparr>))) of
        Inl err \<Rightarrow> Inl err
      | Inr rt \<Rightarrow> Inr (rt\<lparr>ctConfigs := map (\<lambda>e. (ceName e, Some (ceValue e))) (tcConfigEntries cfg)\<rparr>))"

definition CreateTopic :: "cluster \<Rightarrow> TopicConfig \<Rightarrow> vu \<Rightarrow> Connection \<Rightarrow> unit res \<times> admin_request list" where
  "CreateTopic cl cfg v c =
     (case requireVU v c ''createTopic'' of
        Some err \<Rightarrow> (Inl err, [])
      | None \<Rightarrow>
         if tcTopic cfg = '''' then (Inl (ErrNew ''createTopic: topic must not be empty''), [])
         else case topic_request cfg of
           Inl err \<Rightarrow> (Inl err, [])
         | Inr rt \<Rightarrow>
            (let req = CreateTopicsRequest [rt] in
             case clCreate cl [rt] of
               Inl err \<Rightarrow> (Inl (Wrapf ''createTopic %q: %w'' [AStr (tcTopic cfg)] err), [req])
             | Inr ts \<Rightarrow>
                (case first_topic_error cl ''createTopic %q: %w'' trTopic ts of
                   Some err \<Rightarrow> (Inl err, [req])
                 | None \<Rightarrow> (Inr (), [req]))))"

definition DeleteTopic :: "cluster \<Rightarrow> string \<Rightarrow> vu \<Rightarrow> Connection \<Rightarrow> unit res \<times> admin_request list" where
  "DeleteTopic cl topic v c =
     (case requireVU v c ''deleteTopic'' of
        Some err \<Rightarrow> (Inl err, [])
      | None \<Rightarrow>
         if topic = '''' then (Inl (ErrNew ''deleteTopic: topic must not be empty''), [])
         else
           (let req = DeleteTopicsRequest [topic] [Some topic] in
            case clDelete cl [topic] [Some topic] of
              Inl err \<Rightarrow> (Inl (Wrapf ''deleteTopic %q: %w'' [AStr topic] err), [req])
            | Inr ts \<Rightarrow>
               (case first_topic_error cl ''deleteTopic %q: %w'' (\<lambda>_. topic) ts of
                  Some err \<Rightarrow> (Inl err, [req])
                | None \<Rightarrow> (Inr (), [req]))))"

fun topic_names :: "cluster \<Rightarrow> metadata_topic list \<Rightarrow> string list \<Rightarrow> string list res" where
  "topic_names cl [] names = Inr names"
| "topic_names cl (t # ts) names =
     (let name = (case mtTopic t of Some n \<Rightarrow> n | None \<Rightarrow> '''') in
      case topicError cl (mtErrorCode t) None of
        Some topicErr \<Rightarrow> Inl (Wrapf ''listTopics: topic %q: %w'' [AStr name] topicErr)
      | None \<Rightarrow>
         if mtIsInternal t \<or> mtTopic t = None then topic_names cl ts names
         else topic_names cl ts (names @ [name]))"

definition topicNames :: "cluster \<Rightarrow> metadata_topic list \<Rightarrow> string list res" where
  "topicNames cl topics = topic_names cl topics []"

definition ListTopics :: "cluster \<Rightarrow> vu \<Rightarrow> Connection \<Rightarrow> string list res \<times> admin_request list" where
  "ListTopics cl v c =
     (case requireVU v c ''listTopics'' of
        Some err \<Rightarrow> (Inl err, [])
      | None \<Rightarrow>
         (let req = MetadataRequest [] in
          case clMetadata cl [] of
            Inl err \<Rightarrow> (Inl (Wrapf ''listTopics: %w'' [] err), [req])
          | Inr resp \<Rightarrow>
             (case topicError cl (mrErrorCode resp) None of
                Some respErr \<Rightarrow> (Inl (Wrapf ''listTopics: %w'' [] respErr), [req])
              | None \<Rightarrow> (topicNames cl (mrTopics resp), [req]))))"

section \<open>Guarded operations\<close>

text \<open>The contract the three operations share: nothing is sent from the init context or after close.\<close>

locale guarded_operation =
  fixes op :: "vu \<Rightarrow> Connection \<Rightarrow> 'r res \<times> admin_request list"
    and name :: string
  assumes guard_fails: "requireVU v c name = Some err \<Longrightarrow> op v c = (Inl err, [])"
    and at_most_one: "length (snd (op v c)) \<le> 1"
begin

lemma sends_only_when_open:
  assumes "snd (op v c) \<noteq> []"
  shows "vuState v \<noteq> None \<and> cnClient c \<noteq> None"
proof -
  have "requireVU v c name = None" using guard_fails assms by (cases "requireVU v c name") auto
  then show ?thesis by (auto simp: requireVU_def split: if_splits)
qed

lemma closed_rejected: "cnClient c = None \<or> vuState v = None \<Longrightarrow> \<exists>err. op v c = (Inl err, [])"
  using guard_fails [of v c] by (cases "requireVU v c name") (auto simp: requireVU_def split: if_splits)

end

interpretation create_topic: guarded_operation "CreateTopic cl cfg" "''createTopic''" for cl cfg
  by unfold_locales (auto simp: CreateTopic_def Let_def split: option.splits sum.splits)

interpretation delete_topic: guarded_operation "DeleteTopic cl topic" "''deleteTopic''" for cl topic
  by unfold_locales (auto simp: DeleteTopic_def Let_def split: option.splits sum.splits)

interpretation list_topics: guarded_operation "ListTopics cl" "''listTopics''" for cl
  by unfold_locales (auto simp: ListTopics_def Let_def split: option.splits sum.splits)

interpretation connection_close: closable ConnectionClose "\<lambda>c. cnClient c \<noteq> None"
  by unfold_locales (auto simp: ConnectionClose_def)

interpretation connection_client:
  client_builder "\<lambda>cfg. clientOptions cr [ncAddress cfg] (ncSASL cfg) (ncTLS cfg)" "\<lambda>cfg. [ncAddress cfg]" ncSASL ncTLS cr
  for cr
  by unfold_locales auto

section \<open>Replica assignments\<close>

abbreviation place :: "kmsgReplicaAssignment list \<Rightarrow> ReplicaAssignment list \<Rightarrow> kmsgReplicaAssignment list" where
  "place \<equiv> foldl (\<lambda>out a. out[nat (raPartition a) := a])"

lemma place_assignments_ok:
  "place_assignments cnt as seen out = Inr out' \<longleftrightarrow>
     (\<forall>a\<in>set as. 0 \<le> raPartition a \<and> raPartition a < cnt \<and> raPartition a \<notin> set seen) \<and>
     distinct (map raPartition as) \<and> out' = place out as"
proof (induction as arbitrary: seen out)
  case (Cons a as)
  have e: "\<lparr>raPartition = raPartition a, raReplicas = raReplicas a\<rparr> = a" by simp
  show ?case unfolding place_assignments.simps e by (auto simp: Cons) (metis image_eqI)
qed auto

lemma length_place [simp]: "length (place out as) = length out"
  by (induction as arbitrary: out) simp_all

lemma place_other:
  "i \<notin> (\<lambda>a. nat (raPartition a)) ` set as \<Longrightarrow> place out as ! i = out ! i"
  by (induction as arbitrary: out) auto

lemma place_nth:
  assumes "distinct (map raPartition as)" and "\<forall>a\<in>set as. 0 \<le> raPartition a \<and> raPartition a < int (length out)"
    and "a \<in> set as"
  shows "place out as ! nat (raPartition a) = a"
  using assms
proof (induction as arbitrary: out)
  case (Cons b as)
  show ?case
  proof (cases "a \<in> set as")
    case True
    then show ?thesis using Cons by simp
  next
    case False
    with Cons.prems have "a = b" by simp
    moreover have "nat (raPartition b) \<notin> (\<lambda>a. nat (raPartition a)) ` set as"
      using Cons.prems by (auto simp: nat_eq_iff)
    ultimately show ?thesis using Cons.prems by (simp add: place_other nat_less_iff)
  qed
qed simp

lemma dense_partitions:
  assumes "distinct (map raPartition as)"
    and "\<forall>a\<in>set as. 0 \<le> raPartition a \<and> raPartition a < int (length as)"
  shows "raPartition ` set as = {0..<int (length as)}"
proof (rule card_subset_eq)
  show "raPartition ` set as \<subseteq> {0..<int (length as)}" using assms(2) by auto
  show "card (raPartition ` set as) = card {0..<int (length as)}"
    using distinct_card [OF assms(1)] by simp
qed simp

lemma place_dense:
  assumes "distinct (map raPartition as)"
    and "\<forall>a\<in>set as. 0 \<le> raPartition a \<and> raPartition a < int (length as)" and "length out = length as"
  shows "mset (place out as) = mset as" and "i < length as \<Longrightarrow> raPartition (place out as ! i) = int i"
proof -
  have nth: "\<exists>a\<in>set as. place out as ! i = a \<and> raPartition a = int i" if "i < length as" for i
  proof -
    have "int i \<in> raPartition ` set as" using dense_partitions [OF assms(1,2)] that by simp
    then obtain a where "a \<in> set as" "raPartition a = int i" by auto
    moreover from this have "place out as ! nat (raPartition a) = a"
      using assms by (intro place_nth) auto
    ultimately show ?thesis by auto
  qed
  then show "i < length as \<Longrightarrow> raPartition (place out as ! i) = int i" by auto
  have "map raPartition (place out as) = map int [0..<length as]"
    using nth assms(3) by (intro nth_equalityI) auto
  then have "distinct (map raPartition (place out as))" by (simp only: distinct_map) simp
  then have d: "distinct (place out as)" by (simp only: distinct_map)
  have sub: "set (place out as) \<subseteq> set as"
  proof
    fix x
    assume "x \<in> set (place out as)"
    then obtain i where "i < length as" "x = place out as ! i" using assms(3) by (auto simp: in_set_conv_nth)
    then show "x \<in> set as" using nth [of i] by auto
  qed
  have "distinct as" using assms(1) by (simp add: distinct_map)
  then have "set (place out as) = set as"
    using sub d assms(3) by (intro card_subset_eq) (simp_all add: distinct_card)
  then show "mset (place out as) = mset as"
    using d \<open>distinct as\<close> by (simp add: set_eq_iff_mset_eq_distinct)
qed

text \<open>A list of assignments that covers each of the partitions 0 to N-1 once.\<close>

definition dense_layout :: "ReplicaAssignment list \<Rightarrow> bool" where
  "dense_layout as \<longleftrightarrow> mset (map raPartition as) = mset (map int [0..<length as])"

lemma dense_layout_iff:
  "dense_layout as \<longleftrightarrow>
     distinct (map raPartition as) \<and> (\<forall>a\<in>set as. 0 \<le> raPartition a \<and> raPartition a < int (length as))"
proof
  assume d: "dense_layout as"
  have "distinct (map raPartition as)"
    using d mset_eq_imp_distinct_iff [of "map raPartition as" "map int [0..<length as]"]
    by (simp add: dense_layout_def distinct_map)
  moreover have "set (map raPartition as) = set (map int [0..<length as])"
    using d unfolding dense_layout_def by (rule mset_eq_setD)
  then have "\<exists>i<length as. raPartition a = int i" if "a \<in> set as" for a
    using that by (metis (no_types, lifting) atLeastLessThan_iff imageE image_eqI list.set_map set_upt)
  ultimately show "distinct (map raPartition as) \<and> (\<forall>a\<in>set as. 0 \<le> raPartition a \<and> raPartition a < int (length as))"
    by fastforce
next
  assume a: "distinct (map raPartition as) \<and> (\<forall>a\<in>set as. 0 \<le> raPartition a \<and> raPartition a < int (length as))"
  then have "set (map raPartition as) = set (map int [0..<length as])"
    using dense_partitions [of as] by (simp add: image_int_atLeastLessThan)
  then show "dense_layout as"
    unfolding dense_layout_def using a set_eq_iff_mset_eq_distinct [of "map raPartition as" "map int [0..<length as]"]
    by (simp add: distinct_map)
qed

lemma buildReplicaAssignments_ok:
  "buildReplicaAssignments as = Inr out \<longleftrightarrow>
     int (length as) \<le> maxInt32 \<and> dense_layout as \<and>
     out = place (replicate (length as) \<lparr>raPartition = 0, raReplicas = []\<rparr>) as"
  by (auto simp: buildReplicaAssignments_def place_assignments_ok dense_layout_iff)

section \<open>What is asked of the cluster\<close>

definition topic_config_ok :: "TopicConfig \<Rightarrow> bool" where
  "topic_config_ok cfg \<longleftrightarrow>
     tcTopic cfg \<noteq> '''' \<and>
     (if tcReplicaAssignments cfg \<noteq> []
      then dense_layout (tcReplicaAssignments cfg) \<and> int (length (tcReplicaAssignments cfg)) \<le> maxInt32
      else tcNumPartitions cfg \<le> maxInt32 \<and> tcReplicationFactor cfg \<le> maxInt16)"

text \<open>The layout a creation request asks for: either an assignment list, or a partition count and a
  replication factor within the protocol's ranges, each 1 when it was not set.\<close>

definition requests_layout :: "TopicConfig \<Rightarrow> create_topic \<Rightarrow> bool" where
  "requests_layout cfg rt \<longleftrightarrow>
     ctTopic rt = tcTopic cfg \<and>
     ctConfigs rt = map (\<lambda>e. (ceName e, Some (ceValue e))) (tcConfigEntries cfg) \<and>
     (if tcReplicaAssignments cfg \<noteq> []
      then ctNumPartitions rt = -1 \<and> ctReplicationFactor rt = -1 \<and>
           mset (ctReplicaAssignment rt) = mset (tcReplicaAssignments cfg) \<and>
           (\<forall>i < length (ctReplicaAssignment rt). raPartition (ctReplicaAssignment rt ! i) = int i)
      else ctReplicaAssignment rt = [] \<and>
           ctNumPartitions rt = (if tcNumPartitions cfg \<le> 0 then 1 else tcNumPartitions cfg) \<and>
           ctReplicationFactor rt = (if tcReplicationFactor cfg \<le> 0 then 1 else tcReplicationFactor cfg) \<and>
           1 \<le> ctNumPartitions rt \<and> ctNumPartitions rt \<le> maxInt32 \<and>
           1 \<le> ctReplicationFactor rt \<and> ctReplicationFactor rt \<le> maxInt16)"

lemma partitionsAndReplication_ok:
  "partitionsAndReplication cfg = Inr (p, r) \<longleftrightarrow>
     tcNumPartitions cfg \<le> maxInt32 \<and> tcReplicationFactor cfg \<le> maxInt16 \<and>
     p = (if tcNumPartitions cfg \<le> 0 then 1 else tcNumPartitions cfg) \<and>
     r = (if tcReplicationFactor cfg \<le> 0 then 1 else tcReplicationFactor cfg)"
  by (auto simp: partitionsAndReplication_def defaultPartitions_def defaultReplicationFactor_def Let_def int_limits)

lemma topic_request_layout:
  assumes "topic_request cfg = Inr rt"
  shows "requests_layout cfg rt"
proof (cases "tcReplicaAssignments cfg = []")
  case True
  then show ?thesis using assms
    by (auto simp: topic_request_def Let_def requests_layout_def partitionsAndReplication_ok int_limits split: sum.splits)
next
  case False
  let ?as = "tcReplicaAssignments cfg" and ?z = "replicate (length (tcReplicaAssignments cfg)) \<lparr>raPartition = 0, raReplicas = []\<rparr>"
  obtain out where "buildReplicaAssignments ?as = Inr out" and rt: "ctReplicaAssignment rt = out"
    "ctNumPartitions rt = -1" "ctReplicationFactor rt = -1" "ctTopic rt = tcTopic cfg"
    "ctConfigs rt = map (\<lambda>e. (ceName e, Some (ceValue e))) (tcConfigEntries cfg)"
    using assms False by (auto simp: topic_request_def Let_def split: sum.splits)
  then have "dense_layout ?as" and out: "out = place ?z ?as" by (simp_all add: buildReplicaAssignments_ok)
  then have d: "distinct (map raPartition ?as)" "\<forall>a\<in>set ?as. 0 \<le> raPartition a \<and> raPartition a < int (length ?as)"
    by (simp_all add: dense_layout_iff)
  from place_dense [OF d, of ?z] show ?thesis
    using False rt by (auto simp: requests_layout_def out)
qed

lemma topic_request_ok:
  assumes "tcTopic cfg \<noteq> ''''"
  shows "is_ok (topic_request cfg) \<longleftrightarrow> topic_config_ok cfg"
proof -
  have "is_ok (topic_request cfg) \<longleftrightarrow>
      (if tcReplicaAssignments cfg \<noteq> [] then is_ok (buildReplicaAssignments (tcReplicaAssignments cfg))
       else is_ok (partitionsAndReplication cfg))"
    by (auto simp: topic_request_def Let_def split: sum.splits)
  then show ?thesis
    using assms by (simp add: is_ok_iff topic_config_ok_def buildReplicaAssignments_ok partitionsAndReplication_ok conj_commute)
qed

lemma first_topic_error_none:
  "first_topic_error cl fmt name ts = None \<longleftrightarrow> list_all (\<lambda>t. errorForCode cl (trErrorCode t) = None) ts"
  by (induction ts) (auto simp: topicError_def split: option.splits)

lemma first_topic_error_some:
  "first_topic_error cl fmt name ts = Some e \<Longrightarrow> \<not> list_all (\<lambda>t. errorForCode cl (trErrorCode t) = None) ts"
  by (simp add: first_topic_error_none [of cl fmt name, symmetric])

section \<open>Properties\<close>

text \<open>C18: Creating a topic sends one request exactly when it is called in the VU context on an open
  connection with a valid configuration (a name, and either an assignment list that covers each
  of the partitions 0 to N-1 once or counts within the protocol's ranges); the request then asks
  for exactly the configured layout, with every assignment at the index of its partition. Otherwise
  it fails without contacting the cluster. It succeeds exactly when the cluster answers with no
  error code for any topic.\<close>

theorem create_topic_request:
  shows "let valid = (vuState v \<noteq> None \<and> cnClient c \<noteq> None \<and> topic_config_ok cfg) in
         (valid \<longrightarrow> (\<exists>rt. requests_layout cfg rt \<and> snd (CreateTopic cl cfg v c) = [CreateTopicsRequest [rt]] \<and>
            (is_ok (fst (CreateTopic cl cfg v c)) \<longleftrightarrow>
               (\<exists>ts. clCreate cl [rt] = Inr ts \<and> list_all (\<lambda>t. errorForCode cl (trErrorCode t) = None) ts)))) \<and>
         (\<not> valid \<longrightarrow> (\<exists>err. CreateTopic cl cfg v c = (Inl err, [])))"
proof (cases "vuState v \<noteq> None \<and> cnClient c \<noteq> None")
  case False
  then show ?thesis using create_topic.closed_rejected [of c v cl cfg] by (auto simp: Let_def)
next
  case True
  then have g: "requireVU v c ''createTopic'' = None" by (simp add: requireVU_def)
  show ?thesis
  proof (cases "topic_config_ok cfg")
    case ok: True
    then have n: "tcTopic cfg \<noteq> ''''" by (simp add: topic_config_ok_def)
    then obtain rt where rt: "topic_request cfg = Inr rt" using topic_request_ok [OF n] ok by (auto simp: is_ok_iff)
    then show ?thesis
      using True ok g n topic_request_layout [OF rt]
      by (cases "clCreate cl [rt]")
         (auto simp: CreateTopic_def Let_def first_topic_error_none split: option.split dest: first_topic_error_some intro!: exI [of _ rt])
  next
    case bad: False
    then have "tcTopic cfg = '''' \<or> (\<exists>err. topic_request cfg = Inl err)"
      using topic_request_ok [of cfg] by (cases "topic_request cfg") fastforce+
    then show ?thesis using g bad by (auto simp: CreateTopic_def)
  qed
qed

theorem create_topic_request_witness:
  "\<exists>rt. ctNumPartitions rt = -1 \<and> snd (CreateTopic \<lparr>clCreate = (\<lambda>_. Inr []), clDelete = (\<lambda>_ _. Inr []),
       clMetadata = (\<lambda>_. Inl Canceled), errorForCode = (\<lambda>_. None)\<rparr>
     \<lparr>tcTopic = ''t'', tcNumPartitions = 0, tcReplicationFactor = 0,
      tcReplicaAssignments = [\<lparr>raPartition = 1, raReplicas = [2]\<rparr>, \<lparr>raPartition = 0, raReplicas = [3]\<rparr>], tcConfigEntries = []\<rparr>
     \<lparr>vuState = Some (CurrentTags ''v''), vuNow = 0, vuCtxErr = None, vuPushes = True\<rparr> \<lparr>cnClient = Some []\<rparr>) = [CreateTopicsRequest [rt]]"
proof -
  let ?cfg = "\<lparr>tcTopic = ''t'', tcNumPartitions = 0, tcReplicationFactor = 0,
      tcReplicaAssignments = [\<lparr>raPartition = 1, raReplicas = [2]\<rparr>, \<lparr>raPartition = 0, raReplicas = [3]\<rparr>], tcConfigEntries = []\<rparr>"
  have "topic_config_ok ?cfg" by (simp add: topic_config_ok_def dense_layout_iff int_limits)
  then show ?thesis
    using create_topic_request [of "\<lparr>vuState = Some (CurrentTags ''v''), vuNow = 0, vuCtxErr = None, vuPushes = True\<rparr>"
      "\<lparr>cnClient = Some []\<rparr>" ?cfg "\<lparr>clCreate = (\<lambda>_. Inr []), clDelete = (\<lambda>_ _. Inr []),
       clMetadata = (\<lambda>_. Inl Canceled), errorForCode = (\<lambda>_. None)\<rparr>"]
    by (auto simp: requests_layout_def)
qed

lemma topic_names_spec:
  "topic_names cl ts names = Inr ns \<longleftrightarrow>
     list_all (\<lambda>t. errorForCode cl (mtErrorCode t) = None) ts \<and>
     ns = names @ map (\<lambda>t. the (mtTopic t)) (filter (\<lambda>t. \<not> mtIsInternal t \<and> mtTopic t \<noteq> None) ts)"
  by (induction ts arbitrary: names) (auto simp: topicError_def Let_def split: option.splits)

text \<open>C32: \<open>ListTopics\<close> gives a list exactly when it is called in the VU context on an open connection and
  the cluster answers without any error code, neither for the request nor for a single topic; the
  list then holds the names of the named, non-internal topics, in the cluster's order. A partial list
  is never returned.\<close>

theorem list_topics_complete:
  "fst (ListTopics cl v c) = Inr names \<longleftrightarrow>
     vuState v \<noteq> None \<and> cnClient c \<noteq> None \<and>
     (\<exists>resp. clMetadata cl [] = Inr resp \<and> errorForCode cl (mrErrorCode resp) = None \<and>
        list_all (\<lambda>t. errorForCode cl (mtErrorCode t) = None) (mrTopics resp) \<and>
        names = map (\<lambda>t. the (mtTopic t)) (filter (\<lambda>t. \<not> mtIsInternal t \<and> mtTopic t \<noteq> None) (mrTopics resp)))"
  by (cases "clMetadata cl []")
     (auto simp: ListTopics_def requireVU_def topicNames_def topic_names_spec topicError_def Let_def split: option.splits)

text \<open>C33: A connection is opened exactly when the options can be built, the client accepts them and the
  eager ping succeeds within ten seconds, and then it owns the client built from these options; otherwise
  construction fails, and a client that was created is closed again. Once a connection is closed, and outside the VU context
  open or closed, every operation fails and sends nothing; closing it any number of times closes the
  client once.\<close>

theorem connection_lifecycle:
  shows "(openConnection cr newClient ping cfg = (Inr conn, es) \<longleftrightarrow>
            es = [] \<and> (\<exists>opts. clientOptions cr [ncAddress cfg] (ncSASL cfg) (ncTLS cfg) = Inr opts \<and> newClient opts = None \<and>
              ping 10000000000 opts = None \<and> conn = \<lparr>cnClient = Some opts\<rparr>)) \<and>
         (\<forall>err. openConnection cr newClient ping cfg = (Inl err, es) \<longrightarrow>
            es = (if \<exists>opts. clientOptions cr [ncAddress cfg] (ncSASL cfg) (ncTLS cfg) = Inr opts \<and> newClient opts = None
                  then [ClientClose] else [])) \<and>
         (vuState v = None \<or> cnClient c = None \<longrightarrow>
            (\<exists>err. CreateTopic cl tc v c = (Inl err, [])) \<and> (\<exists>err. DeleteTopic cl topic v c = (Inl err, [])) \<and>
            (\<exists>err. ListTopics cl v c = (Inl err, []))) \<and>
         (cnClient c \<noteq> None \<longrightarrow> close_times ConnectionClose (Suc n) c = (\<lparr>cnClient = None\<rparr>, [ClientClose]))"
proof -
  have "close_times ConnectionClose (Suc n) c = (\<lparr>cnClient = None\<rparr>, [ClientClose])" if "cnClient c \<noteq> None"
    using that connection_close.close_once(1) [of c "Suc n"] by (cases c) (simp add: ConnectionClose_def)
  moreover have "openConnection cr newClient ping cfg = (Inr conn, es) \<longleftrightarrow>
      es = [] \<and> (\<exists>opts. clientOptions cr [ncAddress cfg] (ncSASL cfg) (ncTLS cfg) = Inr opts \<and> newClient opts = None \<and>
        ping 10000000000 opts = None \<and> conn = \<lparr>cnClient = Some opts\<rparr>)"
    by (auto simp: openConnection_def pingTimeout_def split: sum.splits option.splits)
  moreover have "openConnection cr newClient ping cfg = (Inl err, es) \<Longrightarrow>
      es = (if \<exists>opts. clientOptions cr [ncAddress cfg] (ncSASL cfg) (ncTLS cfg) = Inr opts \<and> newClient opts = None
            then [ClientClose] else [])" for err
    by (auto simp: openConnection_def split: sum.splits option.splits)
  ultimately show ?thesis
    using create_topic.closed_rejected delete_topic.closed_rejected list_topics.closed_rejected by blast
qed

definition demo_connection_crypto :: crypto where
  "demo_connection_crypto = \<lparr>keyPairErr = (\<lambda>_ _. None), pemHasCerts = (\<lambda>_. True)\<rparr>"

definition demo_connection_config :: ConnectionConfig where
  "demo_connection_config = \<lparr>ncAddress = ''b:9092'', ncSASL = None, ncTLS = None\<rparr>"

definition demo_cluster :: cluster where
  "demo_cluster = \<lparr>clCreate = (\<lambda>_. Inr []), clDelete = (\<lambda>_ _. Inr []), clMetadata = (\<lambda>_. Inl Canceled), errorForCode = (\<lambda>_. None)\<rparr>"

definition demo_init_vu :: vu where
  "demo_init_vu = \<lparr>vuState = None, vuNow = 0, vuCtxErr = None, vuPushes = True\<rparr>"

theorem connection_lifecycle_witness:
  "(\<exists>conn. openConnection demo_connection_crypto (\<lambda>_. None) (\<lambda>_ _. None) demo_connection_config = (Inr conn, [])) \<and>
   (\<exists>err. openConnection demo_connection_crypto (\<lambda>_. None) (\<lambda>_ _. Some Canceled) demo_connection_config = (Inl err, [ClientClose])) \<and>
   (\<exists>err. ListTopics demo_cluster demo_init_vu \<lparr>cnClient = Some []\<rparr> = (Inl err, [])) \<and>
   close_times ConnectionClose 2 \<lparr>cnClient = Some []\<rparr> = (\<lparr>cnClient = None\<rparr>, [ClientClose])"
proof -
  note th = connection_lifecycle [where cr = demo_connection_crypto and newClient = "\<lambda>_. None" and cfg = demo_connection_config
      and cl = demo_cluster and v = demo_init_vu and c = "\<lparr>cnClient = Some []\<rparr>" and n = 1]
  have o: "\<exists>opts. clientOptions demo_connection_crypto [ncAddress demo_connection_config] (ncSASL demo_connection_config)
      (ncTLS demo_connection_config) = Inr opts"
    by (simp add: demo_connection_config_def clientOptions_def buildTLSConfig_def buildSASL_def)
  have "\<exists>conn. openConnection demo_connection_crypto (\<lambda>_. None) (\<lambda>_ _. None) demo_connection_config = (Inr conn, [])"
    using th [where ping = "\<lambda>_ _. None" and es = "[]", THEN conjunct1] o by blast
  moreover have "\<exists>err. openConnection demo_connection_crypto (\<lambda>_. None) (\<lambda>_ _. Some Canceled) demo_connection_config = (Inl err, [ClientClose])"
  proof -
    obtain res es where r: "openConnection demo_connection_crypto (\<lambda>_. None) (\<lambda>_ _. Some Canceled) demo_connection_config = (res, es)"
      by (cases "openConnection demo_connection_crypto (\<lambda>_. None) (\<lambda>_ _. Some Canceled) demo_connection_config")
    have "res \<noteq> Inr conn" for conn
      using th [where ping = "\<lambda>_ _. Some Canceled" and es = es and conn = conn, THEN conjunct1] r by simp
    then obtain err where "res = Inl err" by (cases res) auto
    then show ?thesis using th [where ping = "\<lambda>_ _. Some Canceled" and es = es, THEN conjunct2, THEN conjunct1] r o by simp
  qed
  ultimately show ?thesis
    using th [where ping = "\<lambda>_ _. None" and es = "[]"] by (simp add: demo_init_vu_def numeral_2_eq_2)
qed

end
