(* ===== verification/Base64.thy ===== *)
theory Base64
  imports Prelude
begin

text \<open>
  The standard base64 encoding of Go's package \<open>encoding/base64\<close> (with padding), which PEM blocks and JSON
  documents use for bytes, and a decoder that undoes it.
\<close>

section \<open>Encoding\<close>

definition b64_alphabet :: string where
  "b64_alphabet = ''ABCDEFGHIJKLMNOPQRSTUVWXYZabcdefghijklmnopqrstuvwxyz0123456789+/''"

definition b64_char :: "nat \<Rightarrow> char" where
  "b64_char n = b64_alphabet ! (n mod 64)"

fun b64_encode :: "bytes \<Rightarrow> string" where
  "b64_encode [] = []"
| "b64_encode [a] =
     (let n = unat a * 65536 in [b64_char (n div 262144), b64_char (n div 4096), CHR ''='', CHR ''=''])"
| "b64_encode [a, b] =
     (let n = unat a * 65536 + unat b * 256 in
      [b64_char (n div 262144), b64_char (n div 4096), b64_char (n div 64), CHR ''=''])"
| "b64_encode (a # b # c # bs) =
     (let n = unat a * 65536 + unat b * 256 + unat c in
      [b64_char (n div 262144), b64_char (n div 4096), b64_char (n div 64), b64_char n] @ b64_encode bs)"

section \<open>Decoding\<close>

definition b64_index :: "char \<Rightarrow> nat" where
  "b64_index c = length (takeWhile (\<lambda>d. d \<noteq> c) b64_alphabet)"

fun b64_decode :: "string \<Rightarrow> bytes" where
  "b64_decode (w # x # y # z # s) =
     (if y = CHR ''='' then [of_nat ((b64_index w * 64 + b64_index x) div 16)]
      else if z = CHR ''='' then
        (let n = (b64_index w * 4096 + b64_index x * 64 + b64_index y) div 4 in [of_nat (n div 256), of_nat (n mod 256)])
      else
        (let n = b64_index w * 262144 + b64_index x * 4096 + b64_index y * 64 + b64_index z in
         [of_nat (n div 65536), of_nat (n div 256 mod 256), of_nat (n mod 256)] @ b64_decode s))"
| "b64_decode _ = []"

lemma b64_alphabet_facts: "length b64_alphabet = 64" "distinct b64_alphabet"
    "CHR ''='' \<notin> set b64_alphabet" "CHR 0x0A \<notin> set b64_alphabet"
  unfolding b64_alphabet_def by simp_all

lemma b64_char_in: "b64_char n \<in> set b64_alphabet"
  unfolding b64_char_def by (rule nth_mem) (simp add: b64_alphabet_facts)

lemma b64_char_neq [simp]: "b64_char n \<noteq> CHR ''=''" "b64_char n \<noteq> CHR 0x0A"
  using b64_char_in [of n] b64_alphabet_facts(3,4) by metis+

lemma b64_index_char [simp]: "b64_index (b64_char n) = n mod 64"
proof -
  have m: "n mod 64 < length b64_alphabet" by (simp add: b64_alphabet_facts)
  have "takeWhile (\<lambda>d. d \<noteq> b64_alphabet ! (n mod 64)) b64_alphabet = take (n mod 64) b64_alphabet"
    using m b64_alphabet_facts(2)
    by (intro takeWhile_eq_take_P_nth) (auto simp: nth_eq_iff_index_eq)
  then show ?thesis using m by (simp add: b64_index_def b64_char_def)
qed

lemma unat_byte: "unat (a :: byte) < 256"
  using unsigned_less [of a] by simp

lemma b64_digits:
  assumes "(n :: nat) < 16777216"
  shows "n div 262144 mod 64 * 64 + n div 4096 mod 64 = n div 4096"
    and "n div 262144 mod 64 * 4096 + n div 4096 mod 64 * 64 + n div 64 mod 64 = n div 64"
    and "n div 262144 mod 64 * 262144 + n div 4096 mod 64 * 4096 + n div 64 mod 64 * 64 + n mod 64 = n"
proof -
  have d: "n div 4096 = n div 64 div 64" "n div 262144 = n div 64 div 64 div 64"
    by (simp_all flip: div_mult2_eq)
  have "n div 64 div 64 div 64 < 64" using assms by (simp flip: div_mult2_eq)
  then have m: "n div 64 div 64 div 64 mod 64 = n div 64 div 64 div 64" by simp
  have s: "k div 64 * 64 + k mod 64 = k" for k :: nat by simp
  show two: "n div 262144 mod 64 * 64 + n div 4096 mod 64 = n div 4096"
    unfolding d m by (rule s)
  have "n div 262144 mod 64 * 4096 + n div 4096 mod 64 * 64 = (n div 262144 mod 64 * 64 + n div 4096 mod 64) * 64" by simp
  then show three: "n div 262144 mod 64 * 4096 + n div 4096 mod 64 * 64 + n div 64 mod 64 = n div 64"
    unfolding two using s [of "n div 64"] d(1) by simp
  have "n div 262144 mod 64 * 262144 + n div 4096 mod 64 * 4096 + n div 64 mod 64 * 64 =
      (n div 262144 mod 64 * 4096 + n div 4096 mod 64 * 64 + n div 64 mod 64) * 64" by simp
  then show "n div 262144 mod 64 * 262144 + n div 4096 mod 64 * 4096 + n div 64 mod 64 * 64 + n mod 64 = n"
    by (simp only: three s)
qed

lemma three_bytes:
  assumes "(a::nat) < 256" "b < 256" "c < 256"
  shows "a * 65536 + b * 256 + c < 16777216" "(a * 65536 + b * 256 + c) div 65536 = a"
    "(a * 65536 + b * 256 + c) div 256 mod 256 = b" "(a * 65536 + b * 256 + c) mod 256 = c"
proof -
  have e: "a * 65536 + b * 256 + c = (a * 256 + b) * 256 + c" by simp
  have q: "(a * 65536 + b * 256 + c) div 256 = a * 256 + b" unfolding e using assms(3) by simp
  then show "(a * 65536 + b * 256 + c) div 256 mod 256 = b" using assms(2) by simp
  have "(a * 65536 + b * 256 + c) div 65536 = (a * 65536 + b * 256 + c) div 256 div 256" by (simp flip: div_mult2_eq)
  then show "(a * 65536 + b * 256 + c) div 65536 = a" unfolding q using assms(2) by simp
  show "(a * 65536 + b * 256 + c) mod 256 = c" using assms(3) by (simp only: e mod_mult_self3 mod_less)
  show "a * 65536 + b * 256 + c < 16777216" using assms by simp
qed

lemma b64_roundtrip: "b64_decode (b64_encode bs) = bs"
proof (induction bs rule: b64_encode.induct)
  case (2 a)
  have inv: "of_nat (unat x) = x" for x :: byte by simp
  have "unat a * 65536 < 16777216" using unat_byte [of a] by simp
  note d = b64_digits(1) [OF this]
  have "unat a * 65536 div 4096 div 16 = unat a" by simp
  then show ?case
    by (simp only: b64_encode.simps b64_decode.simps Let_def b64_index_char d if_True simp_thms inv)
next
  case (3 a b)
  have inv: "of_nat (unat x) = x" for x :: byte by simp
  have "unat a * 65536 + unat b * 256 < 16777216" using unat_byte [of a] unat_byte [of b] by simp
  note d = b64_digits(2) [OF this]
  have "(unat a * 65536 + unat b * 256) div 64 div 4 = unat a * 256 + unat b" by simp
  moreover have "(unat a * 256 + unat b) div 256 = unat a" "(unat a * 256 + unat b) mod 256 = unat b"
    using unat_byte [of b] by simp_all
  ultimately show ?case
    by (simp only: b64_encode.simps b64_decode.simps Let_def b64_index_char b64_char_neq d if_True if_False simp_thms
        inv)
next
  case (4 a b c bs)
  note t = three_bytes [OF unat_byte unat_byte unat_byte, of a b c]
  show ?case using b64_digits(3) [OF t(1)] t(2-4) 4 by (simp add: Let_def)
qed simp

lemma b64_encode_no_newline: "CHR 0x0A \<notin> set (b64_encode bs)"
  by (induction bs rule: b64_encode.induct) (auto simp: Let_def dest: sym)

end
