(* ===== verification/Jks.thy ===== *)
theory Jks
  imports GoValue Base64
begin

text \<open>
  \<open>jks.go\<close>: reading a Java keystore through the init environment's file system and turning its
  entries into PEM. The keystore format itself belongs to keystore-go and is a parameter; the
  PEM encoding of Go's standard library is modelled, with a decoder as its specification.
\<close>

section \<open>PEM\<close>

text \<open>Lines of 64 characters, each ended by a newline; an empty text has no line.\<close>

function pem_lines :: "string \<Rightarrow> string" where
  "pem_lines s = (if s = [] then [] else take 64 s @ [CHR 0x0A] @ pem_lines (drop 64 s))"
  by pat_completeness auto
termination by (relation "measure length") auto

declare pem_lines.simps [simp del]

definition encodePEM :: "string \<Rightarrow> bytes \<Rightarrow> string" where
  "encodePEM blockType der =
     ''-----BEGIN '' @ blockType @ ''-----'' @ [CHR 0x0A] @ pem_lines (b64_encode der) @
     ''-----END '' @ blockType @ ''-----'' @ [CHR 0x0A]"

section \<open>Keystores\<close>

record JKSConfig =
  jcPath :: string
  jcPassword :: string
  jcClientCertAlias :: string
  jcClientKeyAlias :: string
  jcClientKeyPassword :: string
  jcServerCaAlias :: string

record JKS =
  jkClientCertsPem :: "string list"
  jkClientKeyPem :: string
  jkServerCaPem :: string

text \<open>What keystore-go gives for a loaded store \<open>'k\<close>: a private key with its certificate chain, and a
  trusted certificate, each under an alias.\<close>

record 'k keystore =
  ksLoad :: "bytes \<Rightarrow> bytes \<Rightarrow> 'k res"
  getPrivateKeyEntry :: "'k \<Rightarrow> string \<Rightarrow> bytes \<Rightarrow> (bytes \<times> bytes list) res"
  getTrustedCertificateEntry :: "'k \<Rightarrow> string \<Rightarrow> bytes res"

definition emptyJKS :: JKS where
  "emptyJKS = \<lparr>jkClientCertsPem = [], jkClientKeyPem = '''', jkServerCaPem = ''''\<rparr>"

definition jksToPEM :: "'k keystore \<Rightarrow> bytes \<Rightarrow> JKSConfig \<Rightarrow> JKS res" where
  "jksToPEM K data cfg =
     (case ksLoad K data (string_bytes (jcPassword cfg)) of
        Inl err \<Rightarrow> Inl (Wrapf ''decoding JKS keystore (only the JKS format is supported, not PKCS#12): %w'' [] err)
      | Inr ks \<Rightarrow>
         (case (if jcClientKeyAlias cfg \<noteq> '''' then
                  (case getPrivateKeyEntry K ks (jcClientKeyAlias cfg) (string_bytes (jcClientKeyPassword cfg)) of
                     Inl err \<Rightarrow> Inl (Wrapf ''reading client key entry %q: %w'' [AStr (jcClientKeyAlias cfg)] err)
                   | Inr (key, chain) \<Rightarrow>
                      Inr (emptyJKS\<lparr>jkClientKeyPem := encodePEM ''PRIVATE KEY'' key,
                                    jkClientCertsPem := map (encodePEM ''CERTIFICATE'') chain\<rparr>))
                else Inr emptyJKS) of
            Inl err \<Rightarrow> Inl err
          | Inr jks \<Rightarrow>
             (if jcServerCaAlias cfg \<noteq> '''' then
                (case getTrustedCertificateEntry K ks (jcServerCaAlias cfg) of
                   Inl err \<Rightarrow> Inl (Wrapf ''reading server CA entry %q: %w'' [AStr (jcServerCaAlias cfg)] err)
                 | Inr cert \<Rightarrow> Inr (jks\<lparr>jkServerCaPem := encodePEM ''CERTIFICATE'' cert\<rparr>))
              else Inr jks)))"

text \<open>The init environment: its file systems by name (opening a file, reading it whole) and the
  resolution of relative paths.\<close>

record init_env =
  fileSystems :: "string \<Rightarrow> (string \<Rightarrow> bytes res res) option"
  getAbsFilePath :: "string \<Rightarrow> string"

definition readJKS :: "'k keystore \<Rightarrow> init_env \<Rightarrow> JKSConfig \<Rightarrow> JKS res" where
  "readJKS K env cfg =
     (if jcPath cfg = '''' then Inl (ErrNew ''JKS path is required'')
      else case fileSystems env ''file'' of
        None \<Rightarrow> Inl (ErrNew ''no file system available to load the keystore'')
      | Some fs \<Rightarrow>
         (case fs (getAbsFilePath env (jcPath cfg)) of
            Inl err \<Rightarrow> Inl (Wrapf ''opening keystore %s: %w'' [AStr (jcPath cfg)] err)
          | Inr f \<Rightarrow>
             (case f of
                Inl err \<Rightarrow> Inl (Wrapf ''reading keystore %s: %w'' [AStr (jcPath cfg)] err)
              | Inr data \<Rightarrow> jksToPEM K data cfg)))"

text \<open>\<open>arg\<close> is the result of exporting the first argument into the configuration; a thrown
  exception is the left summand.\<close>

definition loadJKS :: "'k keystore \<Rightarrow> init_env option \<Rightarrow> JKSConfig res \<Rightarrow> JKS res" where
  "loadJKS K env arg =
     (case env of
        None \<Rightarrow> Inl (ErrNew ''LoadJKS must be called in the init context'')
      | Some e \<Rightarrow>
         (case arg of
            Inl err \<Rightarrow> Inl (Wrapf ''invalid JKS config: %w'' [] err)
          | Inr cfg \<Rightarrow> readJKS K e cfg))"

section \<open>Decoding\<close>

text \<open>A reader of one PEM block as RFC 7468 describes it: whole lines, a begin and an end marker with the same label, and between them
  base64 text in lines of 64 characters of which only the last may be shorter. Anything else is refused.\<close>

fun read_lines :: "string \<Rightarrow> string \<Rightarrow> string list option" where
  "read_lines cur [] = (if cur = [] then Some [] else None)"
| "read_lines cur (c # cs) =
     (if c = CHR 0x0A then map_option ((#) cur) (read_lines [] cs) else read_lines (cur @ [c]) cs)"

fun b64_text :: "string \<Rightarrow> bool" where
  "b64_text [] = True"
| "b64_text (w # x # y # z # s) =
     (w \<in> set b64_alphabet \<and> x \<in> set b64_alphabet \<and>
      (if z = CHR ''='' then s = [] \<and> (y = CHR ''='' \<or> y \<in> set b64_alphabet)
       else y \<in> set b64_alphabet \<and> z \<in> set b64_alphabet \<and> b64_text s))"
| "b64_text _ = False"

definition marker_label :: "string \<Rightarrow> string \<Rightarrow> string option" where
  "marker_label begins l =
     (let n = length begins; m = length l - 5 in
      if n + 5 \<le> length l \<and> take n l = begins \<and> drop m l = ''-----'' then Some (drop n (take m l)) else None)"

definition decodePEM :: "string \<Rightarrow> (string \<times> bytes) option" where
  "decodePEM s =
     (case read_lines [] s of
        None \<Rightarrow> None
      | Some ls \<Rightarrow>
          if length ls < 2 then None
          else let body = butlast (tl ls) in
            (case marker_label ''-----BEGIN '' (hd ls) of
               None \<Rightarrow> None
             | Some label \<Rightarrow>
                 if last ls = ''-----END '' @ label @ ''-----'' \<and> list_all (\<lambda>l. length l = 64) (butlast body) \<and>
                    list_all (\<lambda>l. 0 < length l \<and> length l \<le> 64) body \<and> b64_text (concat body)
                 then Some (label, b64_decode (concat body)) else None))"

function chunks :: "string \<Rightarrow> string list" where
  "chunks s = (if s = [] then [] else take 64 s # chunks (drop 64 s))"
  by pat_completeness auto
termination by (relation "measure length") auto

declare chunks.simps [simp del]

lemma read_lines_line:
  "CHR 0x0A \<notin> set l \<Longrightarrow> read_lines cur (l @ CHR 0x0A # s) = map_option ((#) (cur @ l)) (read_lines [] s)"
  by (induction l arbitrary: cur) auto

lemma read_lines_pem:
  "CHR 0x0A \<notin> set s \<Longrightarrow> read_lines [] (pem_lines s @ t) = map_option ((@) (chunks s)) (read_lines [] t)"
proof (induction s rule: pem_lines.induct)
  case (1 s)
  show ?case
  proof (cases "s = []")
    case True
    then show ?thesis by (simp add: pem_lines.simps chunks.simps option.map_ident)
  next
    case False
    have "CHR 0x0A \<notin> set (take 64 s)" using 1(2) by (meson in_set_takeD)
    moreover have "CHR 0x0A \<notin> set (drop 64 s)" using 1(2) by (meson in_set_dropD)
    ultimately show ?thesis
      using 1(1) [OF False] False
      by (cases "read_lines [] t"; subst pem_lines.simps; subst chunks.simps; simp add: read_lines_line)
  qed
qed

lemma chunks_spec:
  "concat (chunks s) = s" "list_all (\<lambda>l. 0 < length l \<and> length l \<le> 64) (chunks s)" "list_all (\<lambda>l. length l = 64) (butlast (chunks s))"
proof (induction s rule: chunks.induct)
  case (1 s)
  { case 1 show ?case using "1.IH"(1) by (cases "s = []") (subst chunks.simps, simp)+ }
  { case 2 show ?case using "1.IH"(2) by (cases "s = []") (subst chunks.simps, simp)+ }
  { case 3
    have "length s \<le> 64 \<Longrightarrow> chunks (drop 64 s) = []" by (simp add: chunks.simps)
    then show ?case using "1.IH"(3) by (cases "s = []"; cases "length s \<le> 64") (subst chunks.simps, simp)+ }
qed

lemma b64_text_encode: "b64_text (b64_encode bs)"
  by (induction bs rule: b64_encode.induct) (simp_all add: Let_def b64_char_in)

lemma marker_label_begin: "marker_label ''-----BEGIN '' (''-----BEGIN '' @ t @ ''-----'') = Some t"
  by (simp add: marker_label_def)

section \<open>Properties\<close>

text \<open>PEM text made by \<open>encodePEM\<close> is well formed and loses nothing: reading it gives exactly the label and the
  original bytes.\<close>

theorem pem_roundtrip:
  assumes "CHR 0x0A \<notin> set t"
  shows "decodePEM (encodePEM t der) = Some (t, der)"
proof -
  have begins: "CHR 0x0A \<notin> set (''-----BEGIN '' @ t @ ''-----'')" and ends: "CHR 0x0A \<notin> set (''-----END '' @ t @ ''-----'')"
    using assms by simp_all
  have "read_lines [] (encodePEM t der) =
      Some ((''-----BEGIN '' @ t @ ''-----'') # chunks (b64_encode der) @ [''-----END '' @ t @ ''-----''])"
    using read_lines_line [OF begins, of "[]"] read_lines_line [OF ends, of "[]" "[]"]
      read_lines_pem [OF b64_encode_no_newline, of der]
    by (simp add: encodePEM_def)
  then show ?thesis
    using chunks_spec [of "b64_encode der"] marker_label_begin [of t]
    by (simp add: decodePEM_def Let_def b64_text_encode b64_roundtrip)
qed

lemmas pem_certificate = pem_roundtrip [of "''CERTIFICATE''", simplified]
lemmas pem_private_key = pem_roundtrip [of "''PRIVATE KEY''", simplified]

text \<open>What the configuration asks of a loaded store: nothing for an empty alias.\<close>

definition key_entry :: "'k keystore \<Rightarrow> 'k \<Rightarrow> JKSConfig \<Rightarrow> (bytes \<times> bytes list) option res" where
  "key_entry K ks cfg =
     (if jcClientKeyAlias cfg = '''' then Inr None
      else map_sum id Some (getPrivateKeyEntry K ks (jcClientKeyAlias cfg) (string_bytes (jcClientKeyPassword cfg))))"

definition ca_entry :: "'k keystore \<Rightarrow> 'k \<Rightarrow> JKSConfig \<Rightarrow> bytes option res" where
  "ca_entry K ks cfg =
     (if jcServerCaAlias cfg = '''' then Inr None
      else map_sum id Some (getTrustedCertificateEntry K ks (jcServerCaAlias cfg)))"

text \<open>What a script asks for is there: \<open>key\<close> and \<open>ca\<close> are the entries it named.\<close>

definition stored_material ::
  "'k keystore \<Rightarrow> init_env option \<Rightarrow> JKSConfig res \<Rightarrow> (bytes \<times> bytes list) option \<Rightarrow> bytes option \<Rightarrow> bool" where
  "stored_material K env arg key ca \<longleftrightarrow>
     (\<exists>e cfg fs data ks. env = Some e \<and> arg = Inr cfg \<and> jcPath cfg \<noteq> '''' \<and>
        fileSystems e ''file'' = Some fs \<and> fs (getAbsFilePath e (jcPath cfg)) = Inr (Inr data) \<and>
        ksLoad K data (string_bytes (jcPassword cfg)) = Inr ks \<and>
        key_entry K ks cfg = Inr key \<and> ca_entry K ks cfg = Inr ca)"

definition pem_material :: "(bytes \<times> bytes list) option \<Rightarrow> bytes option \<Rightarrow> JKS" where
  "pem_material key ca =
     \<lparr>jkClientCertsPem = (case key of None \<Rightarrow> [] | Some (k, chain) \<Rightarrow> map (encodePEM ''CERTIFICATE'') chain),
      jkClientKeyPem = (case key of None \<Rightarrow> '''' | Some (k, chain) \<Rightarrow> encodePEM ''PRIVATE KEY'' k),
      jkServerCaPem = (case ca of None \<Rightarrow> '''' | Some c \<Rightarrow> encodePEM ''CERTIFICATE'' c)\<rparr>"

lemma loadJKS_ok:
  "loadJKS K env arg = Inr jks \<longleftrightarrow>
     (\<exists>key ca. stored_material K env arg key ca \<and>
        jks = pem_material key ca)"
proof -
  have pem: "jksToPEM K data cfg = Inr jks \<longleftrightarrow>
     (\<exists>ks key ca. ksLoad K data (string_bytes (jcPassword cfg)) = Inr ks \<and>
        key_entry K ks cfg = Inr key \<and> ca_entry K ks cfg = Inr ca \<and>
        jks = pem_material key ca)" for data cfg
    by (cases "ksLoad K data (string_bytes (jcPassword cfg))")
       (auto simp: jksToPEM_def key_entry_def ca_entry_def emptyJKS_def pem_material_def split: sum.splits)
  show ?thesis
    by (cases env; cases arg) (auto simp: loadJKS_def readJKS_def pem stored_material_def split: option.splits sum.splits)
qed

lemma stored_material_unique:
  "stored_material K env arg key ca \<Longrightarrow> stored_material K env arg key' ca' \<Longrightarrow> key' = key \<and> ca' = ca"
  by (auto simp: stored_material_def)

text \<open>C34: \<open>LoadJKS\<close> succeeds exactly in the init context, for a decodable configuration with a path, when
  the file can be read, the store loads under its password and every entry that was asked for
  exists. Each PEM text it returns is then a well-formed block that decodes to exactly what is stored: the private key, each
  certificate of its chain in order and the trusted certificate, under their labels; what was not asked for is empty.\<close>

theorem load_jks_material:
  "(is_ok (loadJKS K env arg) \<longleftrightarrow> (\<exists>key ca. stored_material K env arg key ca)) \<and>
   (\<forall>key ca jks. stored_material K env arg key ca \<and> loadJKS K env arg = Inr jks \<longrightarrow>
      (case key of
         None \<Rightarrow> jkClientKeyPem jks = '''' \<and> jkClientCertsPem jks = []
       | Some (k, chain) \<Rightarrow> decodePEM (jkClientKeyPem jks) = Some (''PRIVATE KEY'', k) \<and>
           map decodePEM (jkClientCertsPem jks) = map (\<lambda>c. Some (''CERTIFICATE'', c)) chain) \<and>
      (case ca of
         None \<Rightarrow> jkServerCaPem jks = ''''
       | Some c \<Rightarrow> decodePEM (jkServerCaPem jks) = Some (''CERTIFICATE'', c)))"
proof (intro conjI allI impI; (elim conjE)?)
  show "is_ok (loadJKS K env arg) \<longleftrightarrow> (\<exists>key ca. stored_material K env arg key ca)"
    by (auto simp: is_ok_iff loadJKS_ok)
next
  fix key ca jks
  assume s: "stored_material K env arg key ca" and l: "loadJKS K env arg = Inr jks"
  obtain key' ca' where "stored_material K env arg key' ca'" and
    "jks = pem_material key' ca'"
    using l unfolding loadJKS_ok by blast
  then have jks: "jks = pem_material key ca"
    using stored_material_unique [OF s] by metis
  show "case key of
         None \<Rightarrow> jkClientKeyPem jks = '''' \<and> jkClientCertsPem jks = []
       | Some (k, chain) \<Rightarrow> decodePEM (jkClientKeyPem jks) = Some (''PRIVATE KEY'', k) \<and>
           map decodePEM (jkClientCertsPem jks) = map (\<lambda>c. Some (''CERTIFICATE'', c)) chain"
    by (simp add: jks pem_material_def pem_certificate pem_private_key split: option.split prod.split)
  show "case ca of None \<Rightarrow> jkServerCaPem jks = '''' | Some c \<Rightarrow> decodePEM (jkServerCaPem jks) = Some (''CERTIFICATE'', c)"
    by (simp add: jks pem_material_def pem_certificate split: option.split)
qed

text \<open>A store with one key and a chain of two certificates.\<close>

definition demo_keystore :: "unit keystore" where
  "demo_keystore = \<lparr>ksLoad = (\<lambda>_ _. Inr ()), getPrivateKeyEntry = (\<lambda>_ _ _. Inr ([1, 2], [[3], [4, 5, 6, 7]])),
     getTrustedCertificateEntry = (\<lambda>_ _. Inl (ErrNew ''no such entry''))\<rparr>"

definition demo_jks_config :: JKSConfig where
  "demo_jks_config = \<lparr>jcPath = ''k.jks'', jcPassword = ''p'', jcClientCertAlias = '''', jcClientKeyAlias = ''key'',
     jcClientKeyPassword = ''q'', jcServerCaAlias = ''''\<rparr>"

definition demo_init_env :: init_env where
  "demo_init_env = \<lparr>fileSystems = (\<lambda>_. Some (\<lambda>_. Inr (Inr [0]))), getAbsFilePath = id\<rparr>"

theorem load_jks_material_witness:
  "\<exists>jks. loadJKS demo_keystore (Some demo_init_env) (Inr demo_jks_config) = Inr jks \<and>
     decodePEM (jkClientKeyPem jks) = Some (''PRIVATE KEY'', [1, 2]) \<and>
     map decodePEM (jkClientCertsPem jks) = [Some (''CERTIFICATE'', [3]), Some (''CERTIFICATE'', [4, 5, 6, 7])] \<and>
     jkServerCaPem jks = ''''"
proof -
  note th = load_jks_material [of demo_keystore "Some demo_init_env" "Inr demo_jks_config"]
  have s: "stored_material demo_keystore (Some demo_init_env) (Inr demo_jks_config) (Some ([1, 2], [[3], [4, 5, 6, 7]])) None"
    by (simp add: stored_material_def key_entry_def ca_entry_def demo_keystore_def demo_init_env_def demo_jks_config_def)
  then obtain jks where l: "loadJKS demo_keystore (Some demo_init_env) (Inr demo_jks_config) = Inr jks"
    using th [THEN conjunct1] by (auto simp: is_ok_iff)
  show ?thesis using th [THEN conjunct2, rule_format, OF conjI, OF s l] l by simp
qed

end
