(* ===== verification/Avro.thy ===== *)
theory Avro
  imports GoValue
begin

text \<open>
  The Avro normalization of \<open>schema_registry.go\<close>: values from JavaScript are rewritten, along the
  parsed schema, to the Go types the Avro encoder expects. Parsed schemas are a datatype; a
  reference names a schema of the environment, so recursive schemas are covered. The relation
  \<open>avro_rep\<close> specifies which Go value stands for which JavaScript value.
\<close>

section \<open>Schemas\<close>

datatype avro_prim = AvroInt | AvroLong | AvroFloat | AvroDouble | AvroBytes | AvroString | AvroBoolean | AvroNull

datatype avro_schema =
    APrim avro_prim
  | ANamed named_schema
  | AArray avro_schema
  | AMap avro_schema
  | AUnion "avro_schema list"
  | ARef string
and named_schema =
    ARecord string "(string \<times> avro_schema) list"
  | AEnum string "string list"
  | AFixed string nat

text \<open>The schemas that references resolve to are always named.\<close>

type_synonym avro_env = "string \<Rightarrow> named_schema"

fun fullName :: "named_schema \<Rightarrow> string" where
  "fullName (ARecord n _) = n" | "fullName (AEnum n _) = n" | "fullName (AFixed n _) = n"

section \<open>Primitive values\<close>

text \<open>\<open>int64(n)\<close> for a float outside the range of \<open>int64\<close> is up to the platform: \<open>ovf\<close>.\<close>

definition int64_of_float :: "int \<Rightarrow> float64 \<Rightarrow> int" where
  "int64_of_float ovf f = (if in_int64 (f_int f) then f_int f else ovf)"

text \<open>The constants \<open>math.MinInt64\<close> and \<open>math.MaxInt64\<close> are compared as floats, so the upper bound is
  rounded to 2^63.\<close>

fun normalizeAvroPrimitive :: "int \<Rightarrow> avro_prim \<Rightarrow> gval \<Rightarrow> gval" where
  "normalizeAvroPrimitive ovf AvroInt data =
     (case coerceNumber data of
        Some n \<Rightarrow> if n \<ge> Fin (of_int minInt32) \<and> n \<le> Fin (of_int maxInt32) \<and> f_eq (f_trunc n) n
                  then GInt KInt32 (f_int n) else data
      | None \<Rightarrow> data)"
| "normalizeAvroPrimitive ovf AvroLong data =
     (case coerceNumber data of
        Some n \<Rightarrow> if n \<ge> Fin (- (2 ^ 63)) \<and> n \<le> Fin (2 ^ 63) \<and> f_eq (f_trunc n) n
                  then GInt KInt64 (int64_of_float ovf n) else data
      | None \<Rightarrow> data)"
| "normalizeAvroPrimitive ovf AvroFloat data =
     (case coerceNumber data of Some n \<Rightarrow> GFloat32 (f32_of_f64 n) | None \<Rightarrow> data)"
| "normalizeAvroPrimitive ovf AvroDouble data =
     (case coerceNumber data of Some n \<Rightarrow> GFloat64 n | None \<Rightarrow> data)"
| "normalizeAvroPrimitive ovf AvroBytes data =
     (case coerceBytes data of Some b \<Rightarrow> GBytes b | None \<Rightarrow> data)"
| "normalizeAvroPrimitive ovf _ data = data"

section \<open>Structured values\<close>

text \<open>What reflection sees as the elements of a slice or an array.\<close>

fun elements :: "gval \<Rightarrow> gval list option" where
  "elements (GSlice vs) = Some vs"
| "elements (GArray vs) = Some vs"
| "elements (GBytes b) = Some (map (\<lambda>x. GUint KUint8 (uint x)) (slice_of b))"
| "elements _ = None"

fun gsize :: "gval \<Rightarrow> nat" where
  "gsize (GSlice vs) = Suc (sum_list (map gsize vs))"
| "gsize (GArray vs) = Suc (sum_list (map gsize vs))"
| "gsize (GMap kvs) = Suc (sum_list (map gsize (map snd kvs)))"
| "gsize (GBytes b) = 2"
| "gsize _ = 1"

text \<open>A loop that stops at the first error.\<close>

fun res_map :: "('a \<Rightarrow> 'b res) \<Rightarrow> 'a list \<Rightarrow> 'b list res" where
  "res_map f [] = Inr []"
| "res_map f (x # xs) =
     (case f x of Inl err \<Rightarrow> Inl err
      | Inr y \<Rightarrow> (case res_map f xs of Inl err \<Rightarrow> Inl err | Inr ys \<Rightarrow> Inr (y # ys)))"

lemma res_map_cong [fundef_cong]:
  "xs = ys \<Longrightarrow> (\<And>x. x \<in> set ys \<Longrightarrow> f x = g x) \<Longrightarrow> res_map f xs = res_map g ys"
  by (induction ys arbitrary: xs) (auto split: sum.split)

fun assign :: "(string \<times> gval) option list \<Rightarrow> (string \<times> gval) list \<Rightarrow> (string \<times> gval) list" where
  "assign [] out = out"
| "assign (None # xs) out = assign xs out"
| "assign (Some (name, v) # xs) out = assign xs (AList.update name v out)"

fun first_branch :: "avro_schema list \<Rightarrow> avro_schema option" where
  "first_branch [] = None"
| "first_branch (b # bs) = (if b = APrim AvroNull then first_branch bs else Some b)"

fun sdepth :: "avro_schema \<Rightarrow> nat" where
  "sdepth (AUnion bs) = Suc (sum_list (map sdepth bs))"
| "sdepth (ARef n) = 1"
| "sdepth _ = 0"

lemma element_size: "elements d = Some vs \<Longrightarrow> v \<in> set vs \<Longrightarrow> gsize v < gsize d"
proof -
  have s: "x \<in> set xs \<Longrightarrow> gsize x < Suc (sum_list (map gsize xs))" for x xs
    using member_le_sum_list [of "gsize x" "map gsize xs"] by simp
  show "elements d = Some vs \<Longrightarrow> v \<in> set vs \<Longrightarrow> gsize v < gsize d"
    by (cases d) (auto simp: s)
qed

lemma entry_size: "(k, v) \<in> set kvs \<Longrightarrow> gsize v < Suc (sum_list (map (gsize \<circ> snd) kvs))"
  using member_le_sum_list [of "gsize v" "map (gsize \<circ> snd) kvs"] by force

lemma branch_depth: "first_branch bs = Some b \<Longrightarrow> sdepth b < sdepth (AUnion bs)"
  by (induction bs) (auto split: if_splits)

text \<open>Fields are read from the original record and written to a copy; the recursive call is the
  parameter \<open>normv\<close>.\<close>

definition normalizeAvroRecord ::
  "(avro_schema \<Rightarrow> gval \<Rightarrow> gval res) \<Rightarrow> (string \<times> avro_schema) list \<Rightarrow> gval \<Rightarrow> gval res" where
  "normalizeAvroRecord normv fds data =
     (case data of
        GMap rec \<Rightarrow>
          (case res_map (\<lambda>(name, fs).
                   case map_of rec name of
                     None \<Rightarrow> Inr None
                   | Some v \<Rightarrow>
                      (case normv fs v of Inl err \<Rightarrow> Inl err | Inr normalized \<Rightarrow> Inr (Some (name, normalized)))) fds of
             Inl err \<Rightarrow> Inl err
           | Inr upd \<Rightarrow> Inr (GMap (assign upd rec)))
      | _ \<Rightarrow> Inr data)"

lemma normalizeAvroRecord_cong [fundef_cong]:
  assumes "fds = fds'" and "data = data'"
    and "\<And>rec name fs v. data' = GMap rec \<Longrightarrow> (name, fs) \<in> set fds' \<Longrightarrow> map_of rec name = Some v \<Longrightarrow> normv fs v = normw fs v"
  shows "normalizeAvroRecord normv fds data = normalizeAvroRecord normw fds' data'"
  unfolding normalizeAvroRecord_def assms(1,2)
  by (cases data') (auto intro!: arg_cong [where f = "case_sum _ _"] res_map_cong simp: assms(3) split: option.split)

function normalizeAvroValue :: "int \<Rightarrow> avro_env \<Rightarrow> avro_schema \<Rightarrow> gval \<Rightarrow> gval res" where
  "normalizeAvroValue ovf env (ANamed s) data =
     (case s of
        ARecord _ fds \<Rightarrow> normalizeAvroRecord (\<lambda>fs v. normalizeAvroValue ovf env fs v) fds data
      | _ \<Rightarrow> Inr data)"
| "normalizeAvroValue ovf env (AArray items) data =
     (case elements data of
        None \<Rightarrow> Inr data
      | Some vs \<Rightarrow>
         (case res_map (\<lambda>v. normalizeAvroValue ovf env items v) vs of
            Inl err \<Rightarrow> Inl err | Inr out \<Rightarrow> Inr (GSlice out)))"
| "normalizeAvroValue ovf env (AMap values) data =
     (case data of
        GMap rec \<Rightarrow>
          (case res_map (\<lambda>(k, v). case normalizeAvroValue ovf env values v of
                   Inl err \<Rightarrow> Inl err | Inr normalized \<Rightarrow> Inr (k, normalized)) rec of
             Inl err \<Rightarrow> Inl err | Inr out \<Rightarrow> Inr (GMap out))
      | _ \<Rightarrow> Inr data)"
| "normalizeAvroValue ovf env (AUnion types) data =
     (if data = GNil then Inr data
      else case first_branch types of
        None \<Rightarrow> Inr data
      | Some b \<Rightarrow> normalizeAvroValue ovf env b data)"
| "normalizeAvroValue ovf env (ARef n) data = normalizeAvroValue ovf env (ANamed (env n)) data"
| "normalizeAvroValue ovf env (APrim p) data = Inr (normalizeAvroPrimitive ovf p data)"
  by pat_completeness auto
termination
  by (relation "measures [\<lambda>(ovf, env, s, d). gsize d, \<lambda>(ovf, env, s, d). sdepth s]")
     (auto dest!: map_of_SomeD dest: element_size entry_size branch_depth)

section \<open>Normalization never fails\<close>

lemma is_ok_case: "is_ok x \<Longrightarrow> (\<And>y. x = Inr y \<Longrightarrow> is_ok (g y)) \<Longrightarrow> is_ok (case x of Inl e \<Rightarrow> Inl e | Inr y \<Rightarrow> g y)"
  by (cases x) auto

lemma res_map_ok: "(\<And>x. x \<in> set xs \<Longrightarrow> is_ok (f x)) \<Longrightarrow> is_ok (res_map f xs)"
  by (induction xs) (auto intro!: is_ok_case)

lemma res_map_eq: "(\<And>x. x \<in> set xs \<Longrightarrow> f x = Inr (g x)) \<Longrightarrow> res_map f xs = Inr (map g xs)"
  by (induction xs) auto

lemma normalize_ok: "is_ok (normalizeAvroValue ovf env s d)"
proof (induction ovf env s d rule: normalizeAvroValue.induct)
  case (1 ovf env s data)
  have "is_ok (normalizeAvroRecord (normalizeAvroValue ovf env) fds data)" if "s = ARecord n fds" for n fds
  proof -
    have "is_ok (res_map (\<lambda>(name, fs). case map_of rec name of None \<Rightarrow> Inr None
                        | Some v \<Rightarrow> (case normalizeAvroValue ovf env fs v of
                              Inl err \<Rightarrow> Inl err | Inr normalized \<Rightarrow> Inr (Some (name, normalized)))) fds)"
      if "data = GMap rec" for rec
      using 1 [OF \<open>s = ARecord n fds\<close> that] by (intro res_map_ok) (auto intro!: is_ok_case split: option.split)
    then show ?thesis by (auto simp: normalizeAvroRecord_def intro!: is_ok_case split: gval.split)
  qed
  then show ?case by (auto split: named_schema.split)
next
  case (2 ovf env items data)
  have "is_ok (res_map (normalizeAvroValue ovf env items) vs)" if "elements data = Some vs" for vs
    using 2 [OF that] by (rule res_map_ok)
  then show ?case by (auto intro!: is_ok_case split: option.split)
next
  case (3 ovf env vals data)
  have "is_ok (res_map (\<lambda>(k, v). case normalizeAvroValue ovf env vals v of
                   Inl err \<Rightarrow> Inl err | Inr normalized \<Rightarrow> Inr (k, normalized)) rec)" if "data = GMap rec" for rec
    using 3 [OF that] by (intro res_map_ok) (auto intro!: is_ok_case)
  then show ?case by (auto intro!: is_ok_case split: gval.split)
next
  case (4 ovf env types data)
  then show ?case by (auto split: option.split)
qed auto

section \<open>Which Go value stands for which JavaScript value\<close>

inductive avro_rep :: "avro_env \<Rightarrow> avro_schema \<Rightarrow> gval \<Rightarrow> gval \<Rightarrow> bool" for env where
  rep_int: "num_value d = Some n \<Longrightarrow> minInt32 \<le> n \<Longrightarrow> n \<le> maxInt32 \<Longrightarrow> avro_rep env (APrim AvroInt) d (GInt KInt32 n)"
| rep_long: "num_value d = Some n \<Longrightarrow> \<bar>n\<bar> \<le> 2 ^ 53 \<Longrightarrow> avro_rep env (APrim AvroLong) d (GInt KInt64 n)"
| rep_float: "coerceNumber d = Some f \<Longrightarrow> avro_rep env (APrim AvroFloat) d (GFloat32 (f32_of_f64 f))"
| rep_double: "coerceNumber d = Some f \<Longrightarrow> avro_rep env (APrim AvroDouble) d (GFloat64 f)"
| rep_bytes: "coerceBytes d = Some b \<Longrightarrow> avro_rep env (APrim AvroBytes) d (GBytes b)"
| rep_string: "avro_rep env (APrim AvroString) (GString s) (GString s)"
| rep_boolean: "avro_rep env (APrim AvroBoolean) (GBool b) (GBool b)"
| rep_null: "avro_rep env (APrim AvroNull) GNil GNil"
| rep_enum: "avro_rep env (ANamed (AEnum n syms)) (GString s) (GString s)"
| rep_fixed: "avro_rep env (ANamed (AFixed n k)) d d"
| rep_array: "elements d = Some vs \<Longrightarrow> list_all2 (avro_rep env items) vs ws \<Longrightarrow> avro_rep env (AArray items) d (GSlice ws)"
| rep_map: "map fst kvs = map fst kws \<Longrightarrow> list_all2 (avro_rep env vals) (map snd kvs) (map snd kws) \<Longrightarrow>
    avro_rep env (AMap vals) (GMap kvs) (GMap kws)"
| rep_record: "distinct (map fst fds) \<Longrightarrow> distinct (map fst kvs) \<Longrightarrow> map fst kvs = map fst kws \<Longrightarrow>
    (\<And>k v. map_of kvs k = Some v \<Longrightarrow> map_of fds k = None \<Longrightarrow> map_of kws k = Some v) \<Longrightarrow>
    (\<And>k v fs. map_of kvs k = Some v \<Longrightarrow> map_of fds k = Some fs \<Longrightarrow> \<exists>w. map_of kws k = Some w \<and> avro_rep env fs v w) \<Longrightarrow>
    avro_rep env (ANamed (ARecord n fds)) (GMap kvs) (GMap kws)"
| rep_absent: "avro_rep env (AUnion types) GNil GNil"
| rep_union: "d \<noteq> GNil \<Longrightarrow> set nulls \<subseteq> {APrim AvroNull} \<Longrightarrow> b \<noteq> APrim AvroNull \<Longrightarrow> avro_rep env b d v \<Longrightarrow>
    avro_rep env (AUnion (nulls @ b # rest)) d v"
| rep_ref: "avro_rep env (ANamed (env n)) d v \<Longrightarrow> avro_rep env (ARef n) d v"

lemma first_branch_spec: "set nulls \<subseteq> {APrim AvroNull} \<Longrightarrow> b \<noteq> APrim AvroNull \<Longrightarrow> first_branch (nulls @ b # rest) = Some b"
  by (induction nulls) auto

inductive_simps rep_simps:
  "avro_rep env (APrim AvroInt) d v"
  "avro_rep env (APrim AvroLong) d v"
  "avro_rep env (APrim AvroBytes) d v"
  "avro_rep env (AUnion types) d v"

text \<open>An integral number up to 2^53 reaches the conversion unchanged, whatever its Go type.\<close>

lemma coerceNumber_integral:
  assumes "num_value d = Some n" and "\<bar>n\<bar> \<le> 2 ^ 53"
  obtains f where "coerceNumber d = Some f" "f_integer f = Some n"
proof -
  have "\<exists>f. coerceNumber d = Some f \<and> f_integer f = Some n"
    using assms by (induction d rule: num_value.induct) (auto simp: f64_of_int_exact)
  then show thesis using that by blast
qed

lemma f_integer_tests:
  assumes "f_integer f = Some n"
  shows "f \<ge> Fin (of_int a) \<longleftrightarrow> a \<le> n" and "f \<le> Fin (of_int a) \<longleftrightarrow> n \<le> a" and "f_eq (f_trunc f) f" and "f_int f = n"
proof -
  show "f_int f = n" by (rule f_int_integer [OF assms])
  show "f \<ge> Fin (of_int a) \<longleftrightarrow> a \<le> n" "f \<le> Fin (of_int a) \<longleftrightarrow> n \<le> a" "f_eq (f_trunc f) f"
    using assms
    by (cases f; auto simp: float_order f_trunc_eq not_less split: if_splits
        dest!: sym [of "of_int _"]; simp add: f_trunc_def)+
qed

section \<open>Updating the fields of a record\<close>

definition present :: "('a option) list \<Rightarrow> 'a list" where
  "present xs = map the (filter (\<lambda>x. x \<noteq> None) xs)"

lemma assign_eq: "assign upd out = foldl (\<lambda>m (k, v). AList.update k v m) out (present upd)"
  by (induction upd out rule: assign.induct) (simp_all add: present_def)

lemma map_of_fold_update:
  "distinct (map fst xs) \<Longrightarrow>
     map_of (foldl (\<lambda>m (k, v). AList.update k v m) out xs) k = (case map_of xs k of Some v \<Rightarrow> Some v | None \<Rightarrow> map_of out k)"
proof (induction xs arbitrary: out)
  case (Cons x xs)
  obtain a b where x: "x = (a, b)" by (cases x)
  then have "map_of xs a = None" using Cons.prems by (simp add: map_of_eq_None_iff)
  then show ?case using Cons by (auto simp: x update_conv split: option.split)
qed simp

lemma keys_fold_update:
  "set (map fst xs) \<subseteq> set (map fst out) \<Longrightarrow>
     map fst (foldl (\<lambda>m (k, v). AList.update k v m) out xs) = map fst out"
proof (induction xs arbitrary: out)
  case (Cons x xs)
  obtain a b where x: "x = (a, b)" by (cases x)
  then have u: "map fst (AList.update a b out) = map fst out" using Cons.prems by (auto simp: update_keys)
  have "set (map fst xs) \<subseteq> set (map fst (AList.update a b out))" unfolding u using Cons.prems by simp
  from Cons.IH [OF this] show ?case by (simp add: x u)
qed simp

lemma alist_by_keys: "distinct (map fst xs) \<Longrightarrow> xs = map (\<lambda>k. (k, the (map_of xs k))) (map fst xs)"
proof (induction xs)
  case (Cons x xs)
  obtain a b where x: "x = (a, b)" by (cases x)
  have "map (\<lambda>k. (k, the (map_of (x # xs) k))) (map fst xs) = map (\<lambda>k. (k, the (map_of xs k))) (map fst xs)"
    using Cons.prems by (intro map_cong) (auto simp: x)
  also have "distinct (map fst xs)" using Cons.prems by simp
  then have "map (\<lambda>k. (k, the (map_of xs k))) (map fst xs) = xs" using Cons.IH by metis
  finally show ?case by (simp add: x)
qed simp

lemma alist_eqI:
  assumes "map fst xs = map fst ys" and "distinct (map fst xs)" and "\<And>k. map_of xs k = map_of ys k"
  shows "xs = ys"
proof -
  have "map_of xs = map_of ys" using assms(3) by (rule ext)
  moreover have "distinct (map fst ys)" using assms(1,2) by simp
  ultimately show ?thesis
    using alist_by_keys [OF assms(2)] alist_by_keys [of ys] unfolding assms(1) by metis
qed

text \<open>The updates a record gets, when the fields that occur in it have the given new values.\<close>

lemma record_updates:
  assumes "distinct (map fst fds)" and "distinct (map fst kvs)" and "map fst kvs = map fst kws"
    and "\<And>k v. map_of kvs k = Some v \<Longrightarrow> map_of fds k = None \<Longrightarrow> map_of kws k = Some v"
  shows "assign (map (\<lambda>(name, fs). case map_of kvs name of None \<Rightarrow> None | Some v \<Rightarrow> Some (name, the (map_of kws name))) fds) kvs = kws"
proof -
  define upd where "upd = map (\<lambda>(name, fs). case map_of kvs name of None \<Rightarrow> None | Some v \<Rightarrow> Some (name, the (map_of kws name))) fds"
  have names: "present upd = map (\<lambda>(name, fs). (name, the (map_of kws name))) (filter (\<lambda>(name, fs). map_of kvs name \<noteq> None) fds)"
    unfolding upd_def by (induction fds) (auto simp: present_def split: option.splits)
  have keys: "map fst (present upd) = map fst (filter (\<lambda>(name, fs). map_of kvs name \<noteq> None) fds)"
    unfolding names by (simp add: comp_def case_prod_unfold)
  have d: "distinct (map fst (present upd))"
    unfolding keys using assms(1) by (rule distinct_map_filter)
  have dom: "map_of kvs k = None \<longleftrightarrow> map_of kws k = None" for k
    using assms(3) by (simp add: map_of_eq_None_iff flip: set_map)
  have lookup: "map_of (present upd) k = (if map_of fds k \<noteq> None \<and> map_of kvs k \<noteq> None then map_of kws k else None)" for k
    unfolding names using dom by (induction fds) auto
  show ?thesis
    unfolding upd_def [symmetric] assign_eq
  proof (rule alist_eqI)
    have sub: "set (map fst (present upd)) \<subseteq> set (map fst kvs)"
      unfolding keys by (force simp: map_of_eq_None_iff)
    show "map fst (foldl (\<lambda>m (k, v). AList.update k v m) kvs (present upd)) = map fst kws"
      using keys_fold_update [OF sub] assms(3) by simp
    show "distinct (map fst (foldl (\<lambda>m (k, v). AList.update k v m) kvs (present upd)))"
      using keys_fold_update [OF sub] assms(2) by simp
    show "map_of (foldl (\<lambda>m (k, v). AList.update k v m) kvs (present upd)) k = map_of kws k" for k
      unfolding map_of_fold_update [OF d] lookup
      using assms(4) [of k] dom [of k] by (cases "map_of kvs k"; cases "map_of fds k") auto
  qed
qed

lemma normalize_primitive_rep:
  "num_value d = Some n \<Longrightarrow> minInt32 \<le> n \<Longrightarrow> n \<le> maxInt32 \<Longrightarrow> normalizeAvroPrimitive ovf AvroInt d = GInt KInt32 n"
  "num_value d = Some n \<Longrightarrow> \<bar>n\<bar> \<le> 2 ^ 53 \<Longrightarrow> normalizeAvroPrimitive ovf AvroLong d = GInt KInt64 n"
proof -
  assume n: "num_value d = Some n"
  { assume r: "minInt32 \<le> n" "n \<le> maxInt32"
    then have "\<bar>n\<bar> \<le> 2 ^ 53" by (simp add: int_limits)
    then obtain f where f: "coerceNumber d = Some f" "f_integer f = Some n" by (rule coerceNumber_integral [OF n])
    then show "normalizeAvroPrimitive ovf AvroInt d = GInt KInt32 n"
      using r f_integer_tests [OF f(2)] by simp }
  assume r: "\<bar>n\<bar> \<le> 2 ^ 53"
  then obtain f where f: "coerceNumber d = Some f" "f_integer f = Some n" by (rule coerceNumber_integral [OF n])
  have "f \<ge> Fin (- (2 ^ 63))" "f \<le> Fin (2 ^ 63)"
    using r f_integer_tests(1) [OF f(2), of "- (2 ^ 63)"] f_integer_tests(2) [OF f(2), of "2 ^ 63"] by simp_all
  then show "normalizeAvroPrimitive ovf AvroLong d = GInt KInt64 n"
    using r f f_integer_tests(3,4) [OF f(2)] by (simp add: int64_of_float_def in_int64_def int_limits abs_le_iff)
qed

section \<open>Properties\<close>

lemma normalize_items:
  assumes "list_all2 (\<lambda>v w. normalizeAvroValue ovf env s v = Inr w) vs ws"
  shows "res_map (normalizeAvroValue ovf env s) vs = Inr ws"
  using assms by (induction rule: list_all2_induct) simp_all

lemma normalize_entries:
  assumes "map fst kvs = map fst kws"
    and "list_all2 (\<lambda>v w. normalizeAvroValue ovf env s v = Inr w) (map snd kvs) (map snd kws)"
  shows "res_map (\<lambda>(k, v). case normalizeAvroValue ovf env s v of Inl err \<Rightarrow> Inl err | Inr normalized \<Rightarrow> Inr (k, normalized)) kvs = Inr kws"
  using assms by (induction kvs arbitrary: kws) (auto simp: Cons_eq_map_conv)

lemma normalize_record:
  assumes "distinct (map fst fds)" and "distinct (map fst kvs)" and "map fst kvs = map fst kws"
    and keep: "\<And>k v. map_of kvs k = Some v \<Longrightarrow> map_of fds k = None \<Longrightarrow> map_of kws k = Some v"
    and norm: "\<And>k v fs. map_of kvs k = Some v \<Longrightarrow> map_of fds k = Some fs \<Longrightarrow>
                 \<exists>w. map_of kws k = Some w \<and> normalizeAvroValue ovf env fs v = Inr w"
  shows "normalizeAvroValue ovf env (ANamed (ARecord n fds)) (GMap kvs) = Inr (GMap kws)"
proof -
  let ?g = "\<lambda>(name, fs). case map_of kvs name of None \<Rightarrow> None | Some v \<Rightarrow> Some (name, the (map_of kws name))"
  have "res_map (\<lambda>(name, fs). case map_of kvs name of None \<Rightarrow> Inr None
                        | Some v \<Rightarrow> (case normalizeAvroValue ovf env fs v of
                              Inl err \<Rightarrow> Inl err | Inr normalized \<Rightarrow> Inr (Some (name, normalized)))) fds = Inr (map ?g fds)"
  proof (rule res_map_eq, clarify)
    fix name fs
    assume "(name, fs) \<in> set fds"
    then have "map_of fds name = Some fs" using assms(1) by simp
    then show "(case map_of kvs name of None \<Rightarrow> Inr None
        | Some v \<Rightarrow> (case normalizeAvroValue ovf env fs v of
            Inl err \<Rightarrow> Inl err | Inr normalized \<Rightarrow> Inr (Some (name, normalized)))) =
        Inr (case map_of kvs name of None \<Rightarrow> None | Some v \<Rightarrow> Some (name, the (map_of kws name)))"
      using norm [of name _ fs] by (cases "map_of kvs name") fastforce+
  qed
  then show ?thesis using record_updates [OF assms(1-3) keep] by (simp add: normalizeAvroRecord_def)
qed

lemma normalize_rep: "avro_rep env s d v \<Longrightarrow> normalizeAvroValue ovf env s d = Inr v"
proof (induction rule: avro_rep.induct)
  case (rep_array d vs items ws)
  then have "list_all2 (\<lambda>v w. normalizeAvroValue ovf env items v = Inr w) vs ws"
    by (auto elim: list_all2_mono)
  then show ?case using rep_array(1) normalize_items by simp
next
  case (rep_map kvs kws vals)
  then have "list_all2 (\<lambda>v w. normalizeAvroValue ovf env vals v = Inr w) (map snd kvs) (map snd kws)"
    by (auto elim: list_all2_mono)
  then show ?case using rep_map(1) normalize_entries [OF rep_map(1)] by simp
next
  case (rep_record fds kvs kws n)
  show ?case by (rule normalize_record) (use rep_record in blast)+
next
  case (rep_union d nulls b v rest)
  then show ?case using first_branch_spec [of nulls b rest] by simp
qed (simp_all add: normalize_primitive_rep del: normalizeAvroPrimitive.simps(1,2))

lemma rep_unique: "avro_rep env s d v \<Longrightarrow> avro_rep env s d w \<Longrightarrow> v = w"
  by (metis normalize_rep sum.inject(2))

text \<open>C8: Avro normalization implements its specification: whenever a Go value stands for a JavaScript
  value under a schema (integers in range as \<open>int32\<close> or \<open>int64\<close>, numbers as \<open>float32\<close> or \<open>float64\<close>,
  byte-like values as bytes, records field by field with unknown and absent fields left alone, arrays,
  maps, the non-null branch of a union, references to recursive schemas), normalization returns
  exactly that value. And it never fails, whatever the schema and the value.\<close>

theorem normalize_refines:
  "is_ok (normalizeAvroValue ovf env s d) \<and> (avro_rep env s d v \<longrightarrow> normalizeAvroValue ovf env s d = Inr v)"
  using normalize_ok normalize_rep by blast

theorem normalize_refines_witness:
  "normalizeAvroValue 0 (\<lambda>_. AEnum ''e'' [])
     (ANamed (ARecord ''r'' [(''id'', APrim AvroInt), (''opt'', AUnion [APrim AvroNull, APrim AvroBytes])]))
     (GMap [(''opt'', GSlice [GInt KInt64 7]), (''id'', GFloat64 (Fin 3)), (''x'', GBool True)]) =
   Inr (GMap [(''opt'', GBytes (Some [7])), (''id'', GInt KInt32 3), (''x'', GBool True)])"
proof -
  have i: "avro_rep env (APrim AvroInt) (GFloat64 (Fin 3)) (GInt KInt32 3)" for env
    by (simp add: rep_simps int_limits)
  have b: "avro_rep env (AUnion [APrim AvroNull, APrim AvroBytes]) (GSlice [GInt KInt64 7]) (GBytes (Some [7]))" for env
    using rep_union [of "GSlice [GInt KInt64 7]" "[APrim AvroNull]" "APrim AvroBytes" env _ "[]"] by (simp add: rep_simps)
  have r: "avro_rep (\<lambda>_. AEnum ''e'' [])
     (ANamed (ARecord ''r'' [(''id'', APrim AvroInt), (''opt'', AUnion [APrim AvroNull, APrim AvroBytes])]))
     (GMap [(''opt'', GSlice [GInt KInt64 7]), (''id'', GFloat64 (Fin 3)), (''x'', GBool True)])
     (GMap [(''opt'', GBytes (Some [7])), (''id'', GInt KInt32 3), (''x'', GBool True)])"
    by (rule rep_record) (auto simp: i b split: if_splits)
  from normalize_refines r show ?thesis by blast
qed

text \<open>C35: A float becomes an Avro \<open>long\<close> exactly when it is integral and between -2^63 and 2^63 inclusive:
  below 2^63 the \<open>int64\<close> is its exact value, but 2^63 itself, one beyond \<open>math.MaxInt64\<close>, also passes the
  range check and its conversion is whatever the platform makes of it. Every other float is left
  unchanged.\<close>

theorem avro_long_range:
  "(f_integer f = Some n \<and> - (2 ^ 63) \<le> n \<and> n < 2 ^ 63 \<longrightarrow>
      normalizeAvroPrimitive ovf AvroLong (GFloat64 f) = GInt KInt64 n) \<and>
   (f_integer f = Some (2 ^ 63) \<longrightarrow> normalizeAvroPrimitive ovf AvroLong (GFloat64 f) = GInt KInt64 ovf) \<and>
   ((\<nexists>n. f_integer f = Some n \<and> - (2 ^ 63) \<le> n \<and> n \<le> 2 ^ 63) \<longrightarrow>
      normalizeAvroPrimitive ovf AvroLong (GFloat64 f) = GFloat64 f)"
proof (cases "f_integer f")
  case None
  then have "\<not> (f \<ge> Fin (- (2 ^ 63)) \<and> f \<le> Fin (2 ^ 63) \<and> f_eq (f_trunc f) f)"
    by (cases f) (auto simp: float_order f_trunc_eq split: if_splits)
  then show ?thesis using None by simp
next
  case (Some m)
  note t = f_integer_tests [OF Some]
  have "f \<ge> Fin (- (2 ^ 63)) \<longleftrightarrow> - (2 ^ 63) \<le> m" "f \<le> Fin (2 ^ 63) \<longleftrightarrow> m \<le> 2 ^ 63"
    using t(1) [of "- (2 ^ 63)"] t(2) [of "2 ^ 63"] by simp_all
  then show ?thesis
    using t(3,4) Some by (auto simp: int64_of_float_def in_int64_def int_limits)
qed

theorem avro_long_range_witness:
  "normalizeAvroPrimitive (- (2 ^ 63)) AvroLong (GFloat64 (Fin (2 ^ 63))) = GInt KInt64 (- (2 ^ 63))"
  using avro_long_range [of "Fin (2 ^ 63)" "2 ^ 63" "- (2 ^ 63)"] by simp

end
