(* ===== verification/Utf8.thy ===== *)
theory Utf8
  imports Prelude
begin

text \<open>
  The parts of Go's package \<open>unicode/utf8\<close> the program uses, on byte lists: \<open>DecodeRune\<close> with its
  table of first bytes, \<open>EncodeRune\<close> and \<open>Valid\<close>; decoding undoes encoding, and the valid texts are
  exactly the encodings of sequences of Unicode scalar values.
\<close>

section \<open>Scalar values and their encoding\<close>

definition runeError :: nat where "runeError = 65533"

definition scalar :: "nat \<Rightarrow> bool" where
  "scalar r \<longleftrightarrow> r < 55296 \<or> (57343 < r \<and> r \<le> 1114111)"

definition encode_nat :: "nat \<Rightarrow> nat list" where
  "encode_nat r =
     (if r < 128 then [r]
      else if r < 2048 then [192 + r div 64, 128 + r mod 64]
      else if r < 65536 then [224 + r div 4096, 128 + r div 64 mod 64, 128 + r mod 64]
      else [240 + r div 262144, 128 + r div 4096 mod 64, 128 + r div 64 mod 64, 128 + r mod 64])"

definition encodeRune :: "nat \<Rightarrow> bytes" where
  "encodeRune r = map of_nat (encode_nat (if scalar r then r else runeError))"

section \<open>Decoding\<close>

text \<open>The range a second byte must have after each first byte of a sequence of several bytes.\<close>

definition second_range :: "nat \<Rightarrow> nat \<times> nat" where
  "second_range a =
     (if a = 224 then (160, 191) else if a = 237 then (128, 159) else if a = 240 then (144, 191)
      else if a = 244 then (128, 143) else (128, 191))"

definition cont :: "nat \<Rightarrow> bool" where "cont b \<longleftrightarrow> 128 \<le> b \<and> b \<le> 191"

definition second_ok :: "nat \<Rightarrow> nat \<Rightarrow> bool" where
  "second_ok a b \<longleftrightarrow> fst (second_range a) \<le> b \<and> b \<le> snd (second_range a)"

text \<open>The code point at the front of the text and its width; \<open>(RuneError, 1)\<close> when there is none, and
  \<open>(RuneError, 0)\<close> for the empty text.\<close>

fun decode_nat :: "nat list \<Rightarrow> nat \<times> nat" where
  "decode_nat [] = (runeError, 0)"
| "decode_nat (a # s) =
     (if a < 128 then (a, 1)
      else if 194 \<le> a \<and> a \<le> 223 then
        (case s of b # _ \<Rightarrow> if cont b then ((a - 192) * 64 + (b - 128), 2) else (runeError, 1)
         | _ \<Rightarrow> (runeError, 1))
      else if 224 \<le> a \<and> a \<le> 239 then
        (case s of b # c # _ \<Rightarrow>
           if second_ok a b \<and> cont c then ((a - 224) * 4096 + (b - 128) * 64 + (c - 128), 3) else (runeError, 1)
         | _ \<Rightarrow> (runeError, 1))
      else if 240 \<le> a \<and> a \<le> 244 then
        (case s of b # c # d # _ \<Rightarrow>
           if second_ok a b \<and> cont c \<and> cont d
           then ((a - 240) * 262144 + (b - 128) * 4096 + (c - 128) * 64 + (d - 128), 4) else (runeError, 1)
         | _ \<Rightarrow> (runeError, 1))
      else (runeError, 1))"

definition decodeRune :: "bytes \<Rightarrow> nat \<times> nat" where
  "decodeRune s = decode_nat (map unat s)"

text \<open>The text does not start with an encoded rune.\<close>

definition bad_rune :: "bytes \<Rightarrow> bool" where
  "bad_rune s \<longleftrightarrow> decodeRune s = (runeError, 1)"

lemma decode_width: "s \<noteq> [] \<Longrightarrow> 0 < snd (decodeRune s)"
  by (cases s) (auto simp: decodeRune_def split: list.splits)

function utf8Valid :: "bytes \<Rightarrow> bool" where
  "utf8Valid s = (if s = [] then True else if bad_rune s then False else utf8Valid (drop (snd (decodeRune s)) s))"
  by pat_completeness auto
termination
  by (relation "measure length") (simp_all add: diff_less decode_width)

declare utf8Valid.simps [simp del]

lemma utf8Valid_Nil [simp]: "utf8Valid []"
  by (subst utf8Valid.simps) simp

section \<open>Decoding undoes encoding\<close>

lemma byte_nat: "n < 256 \<Longrightarrow> unat (of_nat n :: byte) = n"
  by (simp add: unat_of_nat)

lemma base64_digits:
  obtains r0 r1 r2 r3 :: nat where "r = r3 * 262144 + r2 * 4096 + r1 * 64 + r0" "r0 < 64" "r1 < 64" "r2 < 64"
    "r mod 64 = r0" "r div 64 mod 64 = r1" "r div 4096 mod 64 = r2" "r div 262144 = r3"
    "r div 64 = r3 * 4096 + r2 * 64 + r1" "r div 4096 = r3 * 64 + r2"
proof (rule that)
  have d: "r div 4096 = r div 64 div 64" "r div 262144 = r div 64 div 64 div 64" by (simp_all add: div_mult2_eq [symmetric])
  note e = div_mult_mod_eq [of _ "64 :: nat", symmetric]
  show c: "r div 4096 = (r div 262144) * 64 + r div 4096 mod 64" unfolding d by (rule e)
  show b: "r div 64 = (r div 262144) * 4096 + (r div 4096 mod 64) * 64 + r div 64 mod 64"
    using e [of "r div 64"] c unfolding d by linarith
  show "r = (r div 262144) * 262144 + (r div 4096 mod 64) * 4096 + (r div 64 mod 64) * 64 + r mod 64"
    using e [of r] b unfolding d by linarith
qed simp_all

lemma digit64: "(z :: nat) < 64 \<Longrightarrow> (k * 64 + z) div 64 = k" "z < 64 \<Longrightarrow> (k * 64 + z) mod 64 = z"
  by simp_all

lemma decode_encode_nat:
  assumes "scalar r"
  shows "decode_nat (encode_nat r @ s) = (r, length (encode_nat r))" and "\<forall>n\<in>set (encode_nat r). n < 256"
    and "encode_nat r \<noteq> []"
proof -
  obtain r0 r1 r2 r3 where r: "r = r3 * 262144 + r2 * 4096 + r1 * 64 + r0" "r0 < 64" "r1 < 64" "r2 < 64"
    and d: "r mod 64 = r0" "r div 64 mod 64 = r1" "r div 4096 mod 64 = r2" "r div 262144 = r3"
      "r div 64 = r3 * 4096 + r2 * 64 + r1" "r div 4096 = r3 * 64 + r2"
    by (rule base64_digits)
  have e: "encode_nat r =
     (if r < 128 then [r]
      else if r < 2048 then [192 + (r3 * 4096 + r2 * 64 + r1), 128 + r0]
      else if r < 65536 then [224 + (r3 * 64 + r2), 128 + r1, 128 + r0]
      else [240 + r3, 128 + r2, 128 + r1, 128 + r0])"
    unfolding encode_nat_def d(1-4) unfolding d(5,6) by (rule refl)
  show "encode_nat r \<noteq> []" by (simp add: e)
  show "\<forall>n\<in>set (encode_nat r). n < 256" using r(2-4) assms unfolding e unfolding r(1) by (auto simp: scalar_def)
  show "decode_nat (encode_nat r @ s) = (r, length (encode_nat r))"
    using r(2-4) assms unfolding e unfolding r(1) by (auto simp: cont_def second_ok_def second_range_def scalar_def; presburger)
qed

lemma decode_encode_rune:
  assumes "scalar r"
  shows "decodeRune (encodeRune r @ s) = (r, length (encodeRune r))" and "encodeRune r \<noteq> []"
proof -
  note n = decode_encode_nat [OF assms]
  have "map (\<lambda>x. unat (of_nat x :: byte)) (encode_nat r) = encode_nat r"
    by (rule map_idI) (use n(2) in \<open>auto intro: byte_nat\<close>)
  then show "decodeRune (encodeRune r @ s) = (r, length (encodeRune r))"
    using n(1) [of "map unat s"] assms by (simp add: decodeRune_def encodeRune_def comp_def)
  show "encodeRune r \<noteq> []" using n(3) assms by (simp add: encodeRune_def)
qed

text \<open>And every accepted sequence is the encoding of a scalar value.\<close>

lemma second_ok_cont: "second_ok a b \<Longrightarrow> 128 \<le> b \<and> b \<le> 191"
  by (auto simp: second_ok_def second_range_def split: if_splits)

text \<open>Encoding inverts the three shapes of multi-byte sequences.\<close>

lemma encode_two:
  assumes "194 \<le> a" and "a \<le> 223" and "cont b" and "r = (a - 192) * 64 + (b - 128)"
  shows "scalar r \<and> encode_nat r = [a, b]"
proof -
  define x y where "x = a - 192" and "y = b - 128"
  have a: "a = 192 + x" "2 \<le> x" "x < 32" "b = 128 + y" "y < 64" "r = x * 64 + y"
    using assms by (auto simp: x_def y_def cont_def)
  have "r div 64 = x" "r mod 64 = y" using a by simp_all
  then show ?thesis using a by (simp add: scalar_def encode_nat_def)
qed

lemma encode_three:
  assumes "224 \<le> a" and "a \<le> 239" and "second_ok a b" and "cont c" and "r = (a - 224) * 4096 + (b - 128) * 64 + (c - 128)"
  shows "scalar r \<and> encode_nat r = [a, b, c]"
proof -
  define x y z where "x = a - 224" and "y = b - 128" and "z = c - 128"
  have a: "a = 224 + x" "x < 16" "b = 128 + y" "y < 64" "c = 128 + z" "z < 64" "r = x * 4096 + y * 64 + z"
    using assms second_ok_cont [OF assms(3)] by (auto simp: x_def y_def z_def cont_def)
  have s: "x = 0 \<Longrightarrow> 32 \<le> y" "x = 13 \<Longrightarrow> y < 32"
    using assms(3) a(1,3) by (auto simp: second_ok_def second_range_def)
  have r: "r = (x * 64 + y) * 64 + z" using a(7) by simp
  have q: "r div 64 = x * 64 + y" "r mod 64 = z" unfolding r using a(6) by (simp_all only: digit64)
  have "r div 4096 = r div 64 div 64" by (simp add: div_mult2_eq [symmetric])
  then have "r div 4096 = x" "r div 64 mod 64 = y" "r mod 64 = z" using a(4) q by (simp_all only: digit64)
  moreover have "2048 \<le> r" using a(7) s(1) by (cases x) auto
  moreover have "scalar r" using a(2,4,6,7) s(2) unfolding scalar_def by (cases "x < 13"; cases "x = 13") auto
  ultimately show ?thesis using a by (simp add: encode_nat_def)
qed

lemma encode_four:
  assumes "240 \<le> a" and "a \<le> 244" and "second_ok a b" and "cont c" and "cont d" and "r = (a - 240) * 262144 + (b - 128) * 4096 + (c - 128) * 64 + (d - 128)"
  shows "scalar r \<and> encode_nat r = [a, b, c, d]"
proof -
  define x y z w where "x = a - 240" and "y = b - 128" and "z = c - 128" and "w = d - 128"
  have a: "a = 240 + x" "x \<le> 4" "b = 128 + y" "y < 64" "c = 128 + z" "z < 64" "d = 128 + w" "w < 64"
    "r = x * 262144 + y * 4096 + z * 64 + w"
    using assms second_ok_cont [OF assms(3)] by (auto simp: x_def y_def z_def w_def cont_def)
  have s: "x = 0 \<Longrightarrow> 16 \<le> y" "x = 4 \<Longrightarrow> y < 16"
    using assms(3) a(1,3) by (auto simp: second_ok_def second_range_def)
  have r: "r = ((x * 64 + y) * 64 + z) * 64 + w" using a(9) by simp
  have q: "r div 64 = (x * 64 + y) * 64 + z" "r mod 64 = w" unfolding r using a(8) by (simp_all only: digit64)
  have d: "r div 4096 = r div 64 div 64" "r div 262144 = r div 64 div 64 div 64"
    by (simp_all add: div_mult2_eq [symmetric])
  have "r div 262144 = x" "r div 4096 mod 64 = y" "r div 64 mod 64 = z" "r mod 64 = w"
    unfolding d q using a(4,6) by (simp_all only: digit64)
  moreover have large: "65536 \<le> r" using a(9) s(1) by (cases x) auto
  moreover have "scalar r" using a(2,4,6,8,9) s(2) large unfolding scalar_def by (cases "x = 4") auto
  ultimately show ?thesis using a by (simp add: encode_nat_def)
qed

lemma encode_decode_nat:
  assumes "decode_nat s = (r, n)" and "(r, n) \<noteq> (runeError, 1)" and "s \<noteq> []"
  shows "scalar r \<and> encode_nat r = take n s"
proof -
  have one: "scalar a \<and> encode_nat a = [a]" if "a < 128" for a using that by (simp add: scalar_def encode_nat_def)
  note shapes = one encode_two [OF _ _ _ refl] encode_three [OF _ _ _ _ refl] encode_four [OF _ _ _ _ _ refl]
  show ?thesis
    using assms by (cases s) (auto simp: shapes split: if_splits list.splits)
qed

lemma unat_list: "map (of_nat \<circ> unat) (s :: bytes) = s"
  by (rule map_idI) simp

lemma encode_decode_rune:
  assumes "\<not> bad_rune s" and "s \<noteq> []"
  shows "scalar (fst (decodeRune s))" and "take (snd (decodeRune s)) s = encodeRune (fst (decodeRune s))"
proof -
  obtain r n where d: "decode_nat (map unat s) = (r, n)" by fastforce
  from encode_decode_nat [OF d] assms d have e: "scalar r" "encode_nat r = take n (map unat s)"
    by (auto simp: bad_rune_def decodeRune_def)
  show "scalar (fst (decodeRune s))" using e d by (simp add: decodeRune_def)
  have "map of_nat (encode_nat r) = take n s" unfolding e(2) by (simp add: take_map unat_list)
  then show "take (snd (decodeRune s)) s = encodeRune (fst (decodeRune s))"
    using e(1) d by (simp add: decodeRune_def encodeRune_def)
qed

section \<open>Which texts are valid\<close>

lemma encodeRune_good: "scalar r \<Longrightarrow> \<not> bad_rune (encodeRune r @ s)"
proof -
  assume r: "scalar r"
  have "length (encodeRune runeError) = 3" by (simp add: encodeRune_def encode_nat_def runeError_def scalar_def)
  then show ?thesis using decode_encode_rune(1) [OF r, of s] by (auto simp: bad_rune_def)
qed

lemma utf8Valid_encode: "scalar r \<Longrightarrow> utf8Valid (encodeRune r @ s) = utf8Valid s"
  by (subst utf8Valid.simps) (simp add: encodeRune_good decode_encode_rune)

lemma utf8Valid_iff: "utf8Valid s \<longleftrightarrow> (\<exists>rs. list_all scalar rs \<and> s = concat (map encodeRune rs))"
proof (rule iffI)
  show "utf8Valid s \<Longrightarrow> \<exists>rs. list_all scalar rs \<and> s = concat (map encodeRune rs)"
  proof (induction s rule: utf8Valid.induct)
    case (1 s)
    show ?case
    proof (cases "s = []")
      case True
      then show ?thesis by (intro exI [of _ "[]"]) simp
    next
      case False
      then have g: "\<not> bad_rune s" and v: "utf8Valid (drop (snd (decodeRune s)) s)"
        using 1(2) utf8Valid.simps [of s] by (auto split: if_splits)
      from 1(1) [OF False] g v obtain rs where rs: "list_all scalar rs"
        "drop (snd (decodeRune s)) s = concat (map encodeRune rs)" by blast
      then have "s = concat (map encodeRune (fst (decodeRune s) # rs))"
        using encode_decode_rune(2) [OF g False] append_take_drop_id [of "snd (decodeRune s)" s] by simp
      then show ?thesis
        using rs(1) encode_decode_rune(1) [OF g False] by (intro exI [of _ "fst (decodeRune s) # rs"]) simp
    qed
  qed
next
  assume "\<exists>rs. list_all scalar rs \<and> s = concat (map encodeRune rs)"
  then obtain rs where "list_all scalar rs" "s = concat (map encodeRune rs)" by blast
  then show "utf8Valid s" by (induction rs arbitrary: s) (auto simp: utf8Valid_encode)
qed

end
