(* ===== verification/Json.thy ===== *)
theory Json
  imports FloatText Utf8
begin

text \<open>
  JSON texts as Go's package \<open>encoding/json\<close> writes and reads them: the escaping of strings with its special
  treatment of HTML characters, line separators and invalid UTF-8, the grammar of its scanner with the
  nesting limit, and the decoding of escapes with surrogate pairs. Every document that is printed is read
  back unchanged.
\<close>

section \<open>Documents\<close>

text \<open>A number is kept as its literal, an object as its members in order, with duplicates.\<close>

datatype json = JNull | JBool bool | JNum string | JStr string | JArr "json list" | JObj "(string \<times> json) list"

section \<open>Printing\<close>

definition hex_digit :: "nat \<Rightarrow> char" where
  "hex_digit n = ''0123456789abcdef'' ! (n mod 16)"

definition html_safe :: "nat \<Rightarrow> bool" where
  "html_safe b \<longleftrightarrow> 32 \<le> b \<and> b < 128 \<and> b \<notin> {34, 38, 60, 62, 92}"

definition escape_ascii :: "nat \<Rightarrow> string" where
  "escape_ascii b =
     (if html_safe b then [char_of b]
      else if b = 92 \<or> b = 34 then [CHR 0x5C, char_of b]
      else if b = 8 then [CHR 0x5C, CHR ''b'']
      else if b = 12 then [CHR 0x5C, CHR ''f'']
      else if b = 10 then [CHR 0x5C, CHR ''n'']
      else if b = 13 then [CHR 0x5C, CHR ''r'']
      else if b = 9 then [CHR 0x5C, CHR ''t'']
      else [CHR 0x5C, CHR ''u'', CHR ''0'', CHR ''0'', hex_digit (b div 16), hex_digit b])"

text \<open>The escape of the rune at the front of a text, and of the whole text.\<close>

definition escape_front :: "bytes \<Rightarrow> string" where
  "escape_front s =
     (let (r, n) = decodeRune s in
      if bad_rune s then CHR 0x5C # ''ufffd''
      else if r < 128 then escape_ascii r
      else if r = 8232 \<or> r = 8233 then CHR 0x5C # ''u202'' @ [hex_digit r]
      else bytes_string (take n s))"

function escape :: "bytes \<Rightarrow> string" where
  "escape s = (if s = [] then [] else escape_front s @ escape (drop (snd (decodeRune s)) s))"
  by pat_completeness auto
termination
  by (relation "measure length") (simp_all add: diff_less decode_width)

declare escape.simps [simp del]

definition quote_string :: "string \<Rightarrow> string" where
  "quote_string s = CHR 0x22 # escape (string_bytes s) @ [CHR 0x22]"

fun commas :: "string list \<Rightarrow> string" where
  "commas [] = []"
| "commas [x] = x"
| "commas (x # xs) = x @ CHR '','' # commas xs"

fun print_json :: "json \<Rightarrow> string" where
  "print_json JNull = ''null''"
| "print_json (JBool b) = (if b then ''true'' else ''false'')"
| "print_json (JNum t) = t"
| "print_json (JStr s) = quote_string s"
| "print_json (JArr js) = CHR ''['' # commas (map print_json js) @ '']''"
| "print_json (JObj kvs) = CHR ''{'' # commas (map (\<lambda>(k, j). quote_string k @ CHR '':'' # print_json j) kvs) @ ''}''"

section \<open>Scanning\<close>

definition is_space :: "char \<Rightarrow> bool" where
  "is_space c \<longleftrightarrow> c = CHR 0x20 \<or> c = CHR 0x09 \<or> c = CHR 0x0D \<or> c = CHR 0x0A"

definition skip_ws :: "string \<Rightarrow> string" where
  "skip_ws s = dropWhile is_space s"

definition hex_value :: "char \<Rightarrow> nat option" where
  "hex_value c =
     (let n = of_char c :: nat in
      if 48 \<le> n \<and> n \<le> 57 then Some (n - 48)
      else if 97 \<le> n \<and> n \<le> 102 then Some (n - 87)
      else if 65 \<le> n \<and> n \<le> 70 then Some (n - 55)
      else None)"

fun hex4 :: "string \<Rightarrow> nat option" where
  "hex4 (a # b # c # d # _) =
     (case (hex_value a, hex_value b, hex_value c, hex_value d) of
        (Some w, Some x, Some y, Some z) \<Rightarrow> Some (w * 4096 + x * 256 + y * 16 + z) | _ \<Rightarrow> None)"
| "hex4 _ = None"

definition simple_escape :: "char \<Rightarrow> bool" where
  "simple_escape e \<longleftrightarrow>
     e \<in> {CHR 0x22, CHR 0x5C, CHR ''/'', CHR ''b'', CHR ''f'', CHR ''n'', CHR ''r'', CHR ''t''}"

text \<open>The content of a string after its opening quote, as it is written, and the text after the closing
  quote; \<open>None\<close> for a control character, an unknown escape or a string that does not end.\<close>

fun scan_string :: "string \<Rightarrow> (string \<times> string) option" where
  "scan_string [] = None"
| "scan_string (c # s) =
     (if c = CHR 0x22 then Some ([], s)
      else if c = CHR 0x5C then
        (case s of
           [] \<Rightarrow> None
         | e # t \<Rightarrow>
            if simple_escape e \<or> (e = CHR ''u'' \<and> hex4 t \<noteq> None)
            then map_option (\<lambda>(x, u). (c # e # x, u)) (scan_string t)
            else None)
      else if (of_char c :: nat) < 32 then None
      else map_option (\<lambda>(x, u). (c # x, u)) (scan_string s))"

text \<open>Numbers: an optional sign, an integer part without a superfluous zero, a fraction and an exponent.\<close>

definition scan_digits :: "string \<Rightarrow> (string \<times> string) option" where
  "scan_digits s = (if takeWhile dec_char s = [] then None else Some (takeWhile dec_char s, dropWhile dec_char s))"

definition scan_sign :: "string \<Rightarrow> (string \<times> string) option" where
  "scan_sign s = (case s of c # t \<Rightarrow> if c = CHR ''-'' then Some ([c], t) else Some ([], s) | [] \<Rightarrow> Some ([], s))"

definition scan_int :: "string \<Rightarrow> (string \<times> string) option" where
  "scan_int s = (case s of c # t \<Rightarrow> if c = CHR ''0'' then Some ([c], t) else scan_digits s | [] \<Rightarrow> None)"

definition scan_frac :: "string \<Rightarrow> (string \<times> string) option" where
  "scan_frac s =
     (case s of c # t \<Rightarrow> if c = CHR ''.'' then map_option (\<lambda>(x, u). (c # x, u)) (scan_digits t) else Some ([], s)
      | [] \<Rightarrow> Some ([], s))"

definition scan_exp :: "string \<Rightarrow> (string \<times> string) option" where
  "scan_exp s =
     (case s of
        c # t \<Rightarrow>
          if c = CHR ''e'' \<or> c = CHR ''E'' then
            (case t of
               d # v \<Rightarrow> if d = CHR ''+'' \<or> d = CHR ''-'' then map_option (\<lambda>(x, u). (c # d # x, u)) (scan_digits v)
                        else map_option (\<lambda>(x, u). (c # x, u)) (scan_digits t)
             | [] \<Rightarrow> None)
          else Some ([], s)
      | [] \<Rightarrow> Some ([], s))"

text \<open>One scanner after another.\<close>

definition scan_then ::
  "(string \<Rightarrow> (string \<times> string) option) \<Rightarrow> (string \<Rightarrow> (string \<times> string) option) \<Rightarrow> string \<Rightarrow> (string \<times> string) option" where
  "scan_then f g s =
     (case f s of None \<Rightarrow> None | Some (x, u) \<Rightarrow> map_option (\<lambda>(y, v). (x @ y, v)) (g u))"

definition scan_number :: "string \<Rightarrow> (string \<times> string) option" where
  "scan_number = scan_then scan_sign (scan_then scan_int (scan_then scan_frac scan_exp))"

section \<open>Decoding strings\<close>

definition rune_text :: "nat \<Rightarrow> string" where
  "rune_text r = bytes_string (encodeRune r)"

text \<open>\<open>getu4\<close>: the code unit of an escape at the front.\<close>

definition getu4 :: "string \<Rightarrow> nat option" where
  "getu4 s = (case s of a # b # t \<Rightarrow> if a = CHR 0x5C \<and> b = CHR ''u'' then hex4 t else None | _ \<Rightarrow> None)"

definition is_surrogate :: "nat \<Rightarrow> bool" where
  "is_surrogate r \<longleftrightarrow> 55296 \<le> r \<and> r < 57344"

text \<open>\<open>utf16.DecodeRune\<close>.\<close>

definition utf16_decode :: "nat \<Rightarrow> nat option \<Rightarrow> nat" where
  "utf16_decode r1 r2 =
     (case r2 of
        None \<Rightarrow> runeError
      | Some r2 \<Rightarrow>
         if 55296 \<le> r1 \<and> r1 < 56320 \<and> 56320 \<le> r2 \<and> r2 < 57344
         then (r1 - 55296) * 1024 + (r2 - 56320) + 65536 else runeError)"

definition unescape :: "char \<Rightarrow> char" where
  "unescape e =
     (if e = CHR ''b'' then CHR 0x08 else if e = CHR ''f'' then CHR 0x0C else if e = CHR ''n'' then CHR 0x0A
      else if e = CHR ''r'' then CHR 0x0D else if e = CHR ''t'' then CHR 0x09 else e)"

text \<open>The text a string's content stands for; the scanner lets no other escape through than those read here.\<close>

function unquote :: "string \<Rightarrow> string" where
  "unquote s =
     (case s of
        [] \<Rightarrow> []
      | c # t \<Rightarrow>
         if c = CHR 0x5C then
           (case getu4 s of
              Some r \<Rightarrow>
                if is_surrogate r then
                  (let d = utf16_decode r (getu4 (drop 6 s)) in
                   if d \<noteq> runeError then rune_text d @ unquote (drop 12 s)
                   else rune_text runeError @ unquote (drop 6 s))
                else rune_text r @ unquote (drop 6 s)
            | None \<Rightarrow> (case t of [] \<Rightarrow> [] | e # u \<Rightarrow> if simple_escape e then unescape e # unquote u else []))
         else if (of_char c :: nat) < 128 then c # unquote t
         else (let (r, n) = decodeRune (string_bytes s) in rune_text r @ unquote (drop n s)))"
  by pat_completeness auto
termination
proof (relation "measure length", goal_cases)
  case (7 s c t x r n)
  have "string_bytes s \<noteq> []" using 7 by (simp add: string_bytes_def)
  from decode_width [OF this] have "0 < n" using 7 by (metis snd_conv)
  then show ?case using 7 by simp
qed auto

declare unquote.simps [simp del]

section \<open>Parsing\<close>

lemma length_skip_ws: "length (skip_ws s) \<le> length s"
  by (simp add: skip_ws_def length_dropWhile_le)

lemma skip_ws_Cons: "skip_ws s = c # t \<Longrightarrow> length t < length s"
  using length_skip_ws [of s] by simp

lemma scan_string_length: "scan_string s = Some (x, u) \<Longrightarrow> length u < length s"
  by (induction s arbitrary: x u rule: scan_string.induct) (force split: if_splits list.splits)+

text \<open>The first value of a text and what follows it; \<open>d\<close> containers may still be opened.\<close>

function parse_value :: "nat \<Rightarrow> string \<Rightarrow> (json \<times> string) option"
  and parse_members :: "nat \<Rightarrow> string \<Rightarrow> ((string \<times> json) list \<times> string) option"
  and parse_elements :: "nat \<Rightarrow> string \<Rightarrow> (json list \<times> string) option" where
  "parse_value d s =
     (case skip_ws s of
        [] \<Rightarrow> None
      | c # t \<Rightarrow>
         if c = CHR ''{'' then
           if d = 0 then None
           else (case skip_ws t of
                   [] \<Rightarrow> None
                 | e # u \<Rightarrow> if e = CHR ''}'' then Some (JObj [], u)
                            else map_option (\<lambda>(x, u). (JObj x, u)) (parse_members (d - 1) t))
         else if c = CHR ''['' then
           if d = 0 then None
           else (case skip_ws t of
                   [] \<Rightarrow> None
                 | e # u \<Rightarrow> if e = CHR '']'' then Some (JArr [], u)
                            else map_option (\<lambda>(x, u). (JArr x, u)) (parse_elements (d - 1) t))
         else if c = CHR 0x22 then map_option (\<lambda>(x, u). (JStr (unquote x), u)) (scan_string t)
         else if take 4 (c # t) = ''true'' then Some (JBool True, drop 3 t)
         else if take 5 (c # t) = ''false'' then Some (JBool False, drop 4 t)
         else if take 4 (c # t) = ''null'' then Some (JNull, drop 3 t)
         else map_option (\<lambda>(x, u). (JNum x, u)) (scan_number (c # t)))"
| "parse_members d s =
     (case skip_ws s of
        [] \<Rightarrow> None
      | q # t \<Rightarrow>
         if q \<noteq> CHR 0x22 then None
         else (case scan_string t of
                 None \<Rightarrow> None
               | Some (k, u) \<Rightarrow>
                  (case skip_ws u of
                     [] \<Rightarrow> None
                   | p # v \<Rightarrow>
                      if p \<noteq> CHR '':'' then None
                      else (case parse_value d v of
                              None \<Rightarrow> None
                            | Some (x, w) \<Rightarrow>
                               (case skip_ws w of
                                  [] \<Rightarrow> None
                                | e # r \<Rightarrow>
                                   if e = CHR ''}'' then Some ([(unquote k, x)], r)
                                   else if e = CHR '','' \<and> length r < length s
                                   then map_option (\<lambda>(xs, u). ((unquote k, x) # xs, u)) (parse_members d r)
                                   else None)))))"
| "parse_elements d s =
     (case parse_value d s of
        None \<Rightarrow> None
      | Some (x, w) \<Rightarrow>
         (case skip_ws w of
            [] \<Rightarrow> None
          | e # r \<Rightarrow>
             if e = CHR '']'' then Some ([x], r)
             else if e = CHR '','' \<and> length r < length s
             then map_option (\<lambda>(xs, u). (x # xs, u)) (parse_elements d r)
             else None))"
  by pat_completeness auto
termination
  by (relation "measures [case_sum (\<lambda>p. length (snd p)) (case_sum (\<lambda>p. length (snd p)) (\<lambda>p. length (snd p))),
                          case_sum (\<lambda>_. 0) (case_sum (\<lambda>_. 1) (\<lambda>_. 1))]")
     (auto dest!: skip_ws_Cons scan_string_length)

declare parse_value.simps [simp del] parse_members.simps [simp del] parse_elements.simps [simp del]

section \<open>What a scanner leaves is shorter\<close>

lemma scan_digits_length: "scan_digits s = Some (x, u) \<Longrightarrow> length u < length s"
  by (cases s) (auto simp: scan_digits_def le_imp_less_Suc length_dropWhile_le split: if_splits)

lemma scan_exp_length: "scan_exp s = Some (x, u) \<Longrightarrow> length u \<le> length s"
  by (force simp: scan_exp_def split: list.splits if_splits dest: scan_digits_length)

lemma scan_frac_length: "scan_frac s = Some (x, u) \<Longrightarrow> length u \<le> length s"
  by (force simp: scan_frac_def split: list.splits if_splits dest: scan_digits_length)

lemma scan_then_Some:
  "scan_then f g s = Some (z, v) \<longleftrightarrow> (\<exists>x u y. f s = Some (x, u) \<and> g u = Some (y, v) \<and> z = x @ y)"
  by (auto simp: scan_then_def split: option.splits)

lemma scan_int_length: "scan_int s = Some (x, u) \<Longrightarrow> length u < length s"
  by (auto simp: scan_int_def split: list.splits if_splits dest: scan_digits_length)

lemma scan_sign_length: "scan_sign s = Some (x, u) \<Longrightarrow> length u \<le> length s"
  by (auto simp: scan_sign_def split: list.splits if_splits)

lemma scan_number_length: "scan_number s = Some (x, u) \<Longrightarrow> length u < length s"
  unfolding scan_number_def scan_then_Some
  using scan_sign_length scan_int_length scan_frac_length scan_exp_length by (meson le_less_trans less_le_trans)

lemma parse_value_Some:
  assumes "parse_value d s = Some (x, w)"
  obtains c t where "skip_ws s = c # t"
    "(\<exists>e. skip_ws t = e # w) \<or> (\<exists>ms. parse_members (d - 1) t = Some (ms, w)) \<or>
     (\<exists>es. parse_elements (d - 1) t = Some (es, w)) \<or> (\<exists>k. scan_string t = Some (k, w)) \<or>
     (\<exists>n. w = drop n t) \<or> (\<exists>n. scan_number (c # t) = Some (n, w))"
proof (cases "skip_ws s")
  case Nil
  then show thesis using assms by (subst (asm) parse_value.simps) simp
next
  case (Cons c t)
  then show thesis using assms that [OF Cons]
    by (subst (asm) parse_value.simps) (simp split: list.splits if_splits; blast)
qed

lemma parse_members_Some:
  assumes "parse_members d s = Some (ms, w)"
  obtains t k u v x y e r where "skip_ws s = CHR 0x22 # t" "scan_string t = Some (k, u)" "skip_ws u = CHR '':'' # v"
    "parse_value d v = Some (x, y)" "skip_ws y = e # r"
    "e = CHR ''}'' \<and> ms = [(unquote k, x)] \<and> w = r \<or>
     e = CHR '','' \<and> length r < length s \<and> (\<exists>ms'. parse_members d r = Some (ms', w) \<and> ms = (unquote k, x) # ms')"
  using assms by (subst (asm) parse_members.simps) (auto split: list.splits option.splits if_splits)

lemma parse_elements_Some:
  assumes "parse_elements d s = Some (es, w)"
  obtains x y e r where "parse_value d s = Some (x, y)" "skip_ws y = e # r"
    "e = CHR '']'' \<and> es = [x] \<and> w = r \<or>
     e = CHR '','' \<and> length r < length s \<and> (\<exists>es'. parse_elements d r = Some (es', w) \<and> es = x # es')"
  using assms by (subst (asm) parse_elements.simps) (auto split: list.splits option.splits if_splits)

lemma parse_length:
  "(parse_value d s = Some (x, w) \<longrightarrow> length w < length s) \<and>
   (parse_members d s = Some (ms, w) \<longrightarrow> length w < length s) \<and>
   (parse_elements d s = Some (es, w) \<longrightarrow> length w < length s)"
proof (induction "length s" arbitrary: d s x w ms es rule: less_induct)
  case less
  have ih: "length b < length s'" if "length s' < length s"
      "parse_members d' s' = Some (a, b) \<or> parse_elements d' s' = Some (a', b) \<or> parse_value d' s' = Some (a'', b)" for s' d' a a' a'' b
    using less that by blast
  have v: "length w < length s" if p: "parse_value d s = Some (x, w)" for x w
  proof -
    from p obtain c t where c: "skip_ws s = c # t" and
      h: "(\<exists>e. skip_ws t = e # w) \<or> (\<exists>ms. parse_members (d - 1) t = Some (ms, w)) \<or>
     (\<exists>es. parse_elements (d - 1) t = Some (es, w)) \<or> (\<exists>k. scan_string t = Some (k, w)) \<or>
     (\<exists>n. w = drop n t) \<or> (\<exists>n. scan_number (c # t) = Some (n, w))" by (rule parse_value_Some)
    have l: "length t < length s" "length (c # t) \<le> length s" using skip_ws_Cons [OF c] by simp_all
    have d: "length (drop n t) < length (c # t)" for n by simp
    have "length w < length t \<or> length w < length (c # t)"
      using h ih [OF l(1)] skip_ws_Cons scan_string_length scan_number_length d by (elim disjE exE) blast+
    then show ?thesis using l by auto
  qed
  moreover have "length w < length s" if p: "parse_members d s = Some (ms, w)"
  proof -
    obtain t k u v x y e r where h: "skip_ws s = CHR 0x22 # t" "scan_string t = Some (k, u)" "skip_ws u = CHR '':'' # v"
      "parse_value d v = Some (x, y)" "skip_ws y = e # r"
      "w = r \<or> length r < length s \<and> (\<exists>ms'. parse_members d r = Some (ms', w))"
      by (rule parse_members_Some [OF p]) blast
    have "length v < length s"
      using skip_ws_Cons [OF h(1)] scan_string_length [OF h(2)] skip_ws_Cons [OF h(3)] by simp
    then have "length r < length s" using ih [of v d] h(4) skip_ws_Cons [OF h(5)] by fastforce
    then show ?thesis using h(6) ih [of r d] by fastforce
  qed
  moreover have "length w < length s" if p: "parse_elements d s = Some (es, w)"
  proof -
    obtain x y e r where h: "parse_value d s = Some (x, y)" "skip_ws y = e # r"
      "w = r \<or> length r < length s \<and> (\<exists>es'. parse_elements d r = Some (es', w))"
      by (rule parse_elements_Some [OF p]) blast
    then have "length r < length s" using v [OF h(1)] skip_ws_Cons [OF h(2)] by simp
    then show ?thesis using h(3) ih [of r d] by fastforce
  qed
  ultimately show ?case by blast
qed

text \<open>The guard of the two list parsers always holds: each of them consumes the text in front of the comma.\<close>

lemma parse_guard:
  "parse_value d s = Some (x, w) \<Longrightarrow> skip_ws w = e # r \<Longrightarrow> length r < length s"
  using parse_length [of d s x w] skip_ws_Cons [of w e r] by fastforce

section \<open>Strings are read back\<close>

lemma hex_value_digit [simp]: "hex_value (hex_digit n) = Some (n mod 16)"
proof -
  have "n mod 16 \<in> set [0..<16]" by simp
  then show ?thesis unfolding hex_digit_def by (auto simp: upt_rec hex_value_def Let_def)
qed

lemma hex_value_0 [simp]: "hex_value (CHR ''0'') = Some 0" "hex_value (CHR ''2'') = Some 2"
  by (simp_all add: hex_value_def)

lemma bytes_string_append [simp]: "bytes_string (s @ t) = bytes_string s @ bytes_string t"
  by (simp add: bytes_string_def)

lemma string_bytes_append [simp]: "string_bytes (s @ t) = string_bytes s @ string_bytes t"
  by (simp add: string_bytes_def)

lemma rune_text_ascii: "r < 128 \<Longrightarrow> rune_text r = [char_of r]"
  by (simp add: rune_text_def bytes_string_def encodeRune_def encode_nat_def scalar_def unat_of_nat)

lemma rune_text_high:
  assumes "scalar r" and "128 \<le> r"
  obtains c t where "rune_text r = c # t" and "\<forall>c\<in>set (rune_text r). 128 \<le> (of_char c :: nat)"
proof -
  have n: "\<forall>n\<in>set (encode_nat r). 128 \<le> n \<and> n < 256"
    using assms decode_encode_nat(2) [OF assms(1)] by (auto simp: encode_nat_def)
  have "rune_text r = map char_of (encode_nat r)"
    using assms(1) n by (simp add: rune_text_def bytes_string_def encodeRune_def unat_of_nat)
  moreover have "encode_nat r \<noteq> []" by (rule decode_encode_nat(3) [OF assms(1)])
  ultimately show thesis using that n by (cases "encode_nat r") auto
qed

lemma scan_high:
  assumes "\<forall>c\<in>set x. 128 \<le> (of_char c :: nat)"
  shows "scan_string (x @ s) = map_option (\<lambda>(y, u). (x @ y, u)) (scan_string s)"
  using assms
proof (induction x)
  case (Cons c x)
  then have "c \<noteq> CHR 0x22" "c \<noteq> CHR 0x5C" "\<not> (of_char c :: nat) < 32" by auto
  then show ?case using Cons by (cases "scan_string s") auto
qed (simp add: option.map_ident case_prod_eta map_option.id [unfolded id_def] split_def)

lemma escape_front_rune:
  assumes "scalar r"
  shows "escape_front (encodeRune r @ s) =
     (if r < 128 then escape_ascii r else if r = 8232 \<or> r = 8233 then CHR 0x5C # ''u202'' @ [hex_digit r] else rune_text r)"
  using decode_encode_rune(1) [OF assms, of s] decode_encode_rune(2) [OF assms] encodeRune_good [OF assms, of s]
  by (simp add: escape_front_def rune_text_def)

lemma escape_rune:
  assumes "scalar r"
  shows "escape (encodeRune r @ s) = escape_front (encodeRune r) @ escape s"
  using decode_encode_rune(1) [OF assms, of s] decode_encode_rune(2) [OF assms] escape_front_rune [OF assms, of s] escape_front_rune [OF assms, of "[]"]
  by (subst escape.simps) simp

lemma escape_Nil [simp]: "escape [] = []"
  by (subst escape.simps) simp

lemma unquote_Nil [simp]: "unquote [] = []"
  by (subst unquote.simps) simp

lemma unquote_ascii: "c \<noteq> CHR 0x5C \<Longrightarrow> (of_char c :: nat) < 128 \<Longrightarrow> unquote (c # t) = c # unquote t"
  by (subst unquote.simps) simp

lemma unquote_escape:
  "simple_escape e \<Longrightarrow> unquote (CHR 0x5C # e # t) = unescape e # unquote t"
  by (subst unquote.simps) (auto simp: getu4_def simple_escape_def)

lemma unquote_hex:
  assumes "hex4 (a # b # c # d # t) = Some r" and "\<not> is_surrogate r"
  shows "unquote (CHR 0x5C # CHR ''u'' # a # b # c # d # t) = rune_text r @ unquote t"
  using assms by (subst unquote.simps) (simp add: getu4_def)

lemma unquote_high:
  assumes "scalar r" and "128 \<le> r"
  shows "unquote (rune_text r @ t) = rune_text r @ unquote t"
proof -
  obtain c u where c: "rune_text r = c # u" and h: "\<forall>c\<in>set (rune_text r). 128 \<le> (of_char c :: nat)"
    by (rule rune_text_high [OF assms])
  have "decodeRune (string_bytes (rune_text r @ t)) = (r, length (rune_text r))"
    using decode_encode_rune(1) [OF assms(1), of "string_bytes t"] by (simp add: rune_text_def)
  moreover have "c \<noteq> CHR 0x5C" "\<not> (of_char c :: nat) < 128" using h c by auto
  ultimately show ?thesis using c by (subst unquote.simps) simp
qed

lemma char_of_consts:
  "char_of (8 :: nat) = CHR 0x08" "char_of (9 :: nat) = CHR 0x09" "char_of (10 :: nat) = CHR 0x0A"
  "char_of (12 :: nat) = CHR 0x0C" "char_of (13 :: nat) = CHR 0x0D" "char_of (34 :: nat) = CHR 0x22"
  "char_of (92 :: nat) = CHR 0x5C"
  by (simp_all add: char_of_def bit_Suc_0_iff)

lemma html_unsafe: "\<not> html_safe 8" "\<not> html_safe 9" "\<not> html_safe 10" "\<not> html_safe 12" "\<not> html_safe 13"
  "\<not> html_safe 34" "\<not> html_safe 92"
  by (simp_all add: html_safe_def)

lemma safe_char:
  assumes "html_safe r"
  shows "char_of r \<noteq> CHR 0x22" and "char_of r \<noteq> CHR 0x5C" and "\<not> (of_char (char_of r :: char) :: nat) < 32"
    and "(of_char (char_of r :: char) :: nat) < 128"
proof -
  have v: "(of_char (char_of r :: char) :: nat) = r" using assms by (simp add: html_safe_def)
  have "(of_char (char_of r :: char) :: nat) \<noteq> of_char (CHR 0x22)" "(of_char (char_of r :: char) :: nat) \<noteq> of_char (CHR 0x5C)"
    unfolding v using assms by (simp_all add: html_safe_def)
  then show "char_of r \<noteq> CHR 0x22" and "char_of r \<noteq> CHR 0x5C" by metis+
  show "\<not> (of_char (char_of r :: char) :: nat) < 32" and "(of_char (char_of r :: char) :: nat) < 128"
    unfolding v using assms by (simp_all add: html_safe_def)
qed

lemma scan_front:
  assumes "scalar r"
  shows "scan_string (escape_front (encodeRune r) @ s) =
     map_option (\<lambda>(y, u). (escape_front (encodeRune r) @ y, u)) (scan_string s)"
proof -
  have e: "escape_front (encodeRune r) =
     (if r < 128 then escape_ascii r else if r = 8232 \<or> r = 8233 then CHR 0x5C # ''u202'' @ [hex_digit r] else rune_text r)"
    using escape_front_rune [OF assms, of "[]"] by simp
  have hex: "scan_string (CHR 0x5C # CHR ''u'' # a # b # c # d # s) =
      map_option (\<lambda>(y, u). (CHR 0x5C # CHR ''u'' # a # b # c # d # y, u)) (scan_string s)"
    if "hex4 (a # b # c # d # s) \<noteq> None" "\<forall>x\<in>{a, b, c, d}. x \<noteq> CHR 0x22 \<and> x \<noteq> CHR 0x5C \<and> \<not> (of_char x :: nat) < 32" for a b c d
    using that by (cases "scan_string s") auto
  have dig: "hex_digit n \<noteq> CHR 0x22 \<and> hex_digit n \<noteq> CHR 0x5C \<and> \<not> (of_char (hex_digit n) :: nat) < 32" for n
  proof -
    have "n mod 16 \<in> set [0..<16]" by simp
    then show ?thesis unfolding hex_digit_def by (auto simp: upt_rec)
  qed
  consider "128 \<le> r" "r \<noteq> 8232" "r \<noteq> 8233" | "r = 8232 \<or> r = 8233" | "r < 128" by linarith
  then show ?thesis
  proof cases
    case 1
    obtain c t where "\<forall>c\<in>set (rune_text r). 128 \<le> (of_char c :: nat)" by (rule rune_text_high [OF assms 1(1)])
    then show ?thesis using 1 unfolding e by (simp add: scan_high)
  next
    case 2
    then show ?thesis unfolding e using dig [of r] by (elim disjE) (simp_all add: hex del: scan_string.simps)
  next
    case 3
    have plain: "scan_string (char_of r # s) = map_option (\<lambda>(y, u). (char_of r # y, u)) (scan_string s)" if "html_safe r"
      using safe_char [OF that] by (cases "scan_string s") simp_all
    show ?thesis
      using 3 plain dig [of r] dig [of "r div 16"] unfolding e escape_ascii_def
      by (cases "scan_string s") (auto simp: hex char_of_consts html_unsafe simple_escape_def)
  qed
qed

lemma unquote_front:
  assumes "scalar r"
  shows "unquote (escape_front (encodeRune r) @ t) = rune_text r @ unquote t"
proof -
  have e: "escape_front (encodeRune r) =
     (if r < 128 then escape_ascii r else if r = 8232 \<or> r = 8233 then CHR 0x5C # ''u202'' @ [hex_digit r] else rune_text r)"
    using escape_front_rune [OF assms, of "[]"] by simp
  consider "128 \<le> r" "r \<noteq> 8232" "r \<noteq> 8233" | "r = 8232 \<or> r = 8233" | "r < 128" by linarith
  then show ?thesis
  proof cases
    case 1
    then show ?thesis unfolding e by (simp add: unquote_high [OF assms])
  next
    case 2
    then show ?thesis unfolding e by (auto simp: unquote_hex is_surrogate_def)
  next
    case 3
    have plain: "unquote (char_of r # t) = char_of r # unquote t" if "html_safe r"
      by (rule unquote_ascii) (use safe_char [OF that] in simp_all)
    have u: "r div 16 mod 16 * 16 + r mod 16 = r" using 3 by simp
    show ?thesis
      using 3 plain u unfolding e escape_ascii_def rune_text_ascii [OF 3]
      by (auto simp: unquote_escape simple_escape_def unquote_hex [where r = r] unescape_def is_surrogate_def rune_text_ascii
        char_of_consts html_unsafe)
  qed
qed

text \<open>Valid UTF-8 survives quoting.\<close>

lemma string_runes:
  assumes "utf8Valid (string_bytes s)"
  obtains rs where "list_all scalar rs" and "s = concat (map rune_text rs)"
    and "escape (string_bytes s) = concat (map (\<lambda>r. escape_front (encodeRune r)) rs)"
proof -
  obtain rs where rs: "list_all scalar rs" "string_bytes s = concat (map encodeRune rs)"
    using assms utf8Valid_iff by blast
  have "bytes_string (concat (map encodeRune rs)) = concat (map rune_text rs)"
    by (induction rs) (simp_all add: rune_text_def, simp add: bytes_string_def)
  then have "s = concat (map rune_text rs)" using rs(2) by (metis bytes_string_inverse)
  moreover have "escape (concat (map encodeRune rs)) = concat (map (\<lambda>r. escape_front (encodeRune r)) rs)"
    using rs(1) by (induction rs) (simp_all add: escape_rune)
  ultimately show thesis using that rs by metis
qed

lemma quote_read:
  assumes "utf8Valid (string_bytes s)"
  obtains k where "quote_string s = CHR 0x22 # k @ [CHR 0x22]"
    and "scan_string (k @ CHR 0x22 # u) = Some (k, u)" and "unquote k = s"
proof -
  obtain rs where rs: "list_all scalar rs" "s = concat (map rune_text rs)"
    "escape (string_bytes s) = concat (map (\<lambda>r. escape_front (encodeRune r)) rs)" by (rule string_runes [OF assms])
  have "scan_string (concat (map (\<lambda>r. escape_front (encodeRune r)) rs) @ CHR 0x22 # u) =
      Some (concat (map (\<lambda>r. escape_front (encodeRune r)) rs), u)"
    using rs(1) by (induction rs) (simp_all add: scan_front)
  moreover have "unquote (concat (map (\<lambda>r. escape_front (encodeRune r)) rs)) = s"
    unfolding rs(2) using rs(1) by (induction rs) (simp_all add: unquote_front)
  ultimately show thesis using that rs(3) by (simp add: quote_string_def)
qed

section \<open>Numbers are read back\<close>

definition ends_number :: "string \<Rightarrow> bool" where
  "ends_number s = (case s of [] \<Rightarrow> True | c # _ \<Rightarrow> \<not> dec_char c \<and> c \<noteq> CHR ''.'' \<and> c \<noteq> CHR ''e'' \<and> c \<noteq> CHR ''E'')"

lemma ends_number_simps [simp]: "ends_number []" "ends_number (CHR '','' # s)" "ends_number (CHR '']'' # s)"
  "ends_number (CHR ''}'' # s)"
  by (simp_all add: ends_number_def dec_char_def)

lemma scan_digits_extend:
  assumes "scan_digits s = Some (x, u)" and "ends_number t"
  shows "scan_digits (s @ t) = Some (x, u @ t)"
proof -
  have t: "takeWhile dec_char t = []" "dropWhile dec_char t = t" using assms(2) by (cases t; simp add: ends_number_def)+
  have "takeWhile dec_char (s @ t) = takeWhile dec_char s \<and> dropWhile dec_char (s @ t) = dropWhile dec_char s @ t"
    using t by (induction s) auto
  then show ?thesis using assms(1) by (auto simp: scan_digits_def split: if_splits)
qed

lemma scan_parts_extend:
  assumes "ends_number t"
  shows "scan_int s = Some (x, u) \<Longrightarrow> scan_int (s @ t) = Some (x, u @ t)"
    and "scan_frac s = Some (x, u) \<Longrightarrow> scan_frac (s @ t) = Some (x, u @ t)"
    and "scan_exp s = Some (x, u) \<Longrightarrow> scan_exp (s @ t) = Some (x, u @ t)"
  using scan_digits_extend [OF _ assms] assms
  by (auto simp: scan_int_def scan_frac_def scan_exp_def ends_number_def split: list.splits if_splits)
    (metis append_Cons)+

lemma scan_number_extend:
  assumes "scan_number s = Some (x, u)" and "ends_number t"
  shows "scan_number (s @ t) = Some (x, u @ t)"
proof -
  obtain a b where s: "scan_sign s = Some (a, b)" and b: "scan_then scan_int (scan_then scan_frac scan_exp) b = Some (drop (length a) x, u)"
    and x: "x = a @ drop (length a) x"
    using assms(1) by (auto simp: scan_number_def scan_then_Some)
  have "b \<noteq> []" using b by (auto simp: scan_then_Some scan_int_def)
  then have "scan_sign (s @ t) = Some (a, b @ t)"
    using s by (auto simp: scan_sign_def split: list.splits if_splits)
  moreover have "scan_then scan_int (scan_then scan_frac scan_exp) (b @ t) = Some (drop (length a) x, u @ t)"
    using b scan_parts_extend [OF assms(2)] by (fastforce simp: scan_then_Some)
  ultimately show ?thesis using x by (auto simp: scan_number_def scan_then_Some)
qed

lemma scan_all_digits: "list_all dec_char s \<Longrightarrow> s \<noteq> [] \<Longrightarrow> t = [] \<or> \<not> dec_char (hd t) \<Longrightarrow> scan_digits (s @ t) = Some (s, t)"
  by (simp add: scan_digits_def span_digits)

text \<open>The literals that the printers of numbers make.\<close>

lemma scan_literal:
  assumes "list_all dec_char ip" and "ip = ''0'' \<or> ip \<noteq> [] \<and> hd ip \<noteq> CHR ''0''" and "list_all dec_char fp" and "exponent_part ex"
  shows "scan_number (literal neg ip fp ex) = Some (literal neg ip fp ex, [])"
proof -
  have exh: "ex = [] \<or> \<not> dec_char (hd ex) \<and> hd ex \<noteq> CHR ''.''"
    using assms(4) by (auto simp: exponent_part_def dec_char_def)
  let ?fr = "(if fp = [] then [] else CHR ''.'' # fp)"
  have e: "scan_exp ex = Some (ex, [])"
  proof -
    have "ex = [] \<or> (\<exists>sgn n. ex = CHR ''e'' # sgn # n \<and> sgn \<in> {CHR ''+'', CHR ''-''} \<and> scan_digits n = Some (n, []))"
      using assms(4) scan_all_digits [of _ "[]"] by (auto simp: exponent_part_def)
    then show ?thesis by (auto simp: scan_exp_def)
  qed
  have f: "scan_frac (?fr @ ex) = Some (?fr, ex)"
    using exh scan_all_digits [OF assms(3), of ex] by (cases "fp = []"; cases ex) (auto simp: scan_frac_def)
  have "?fr @ ex = [] \<or> \<not> dec_char (hd (?fr @ ex))" using exh by (auto simp: dec_char_def)
  then have i: "scan_int (ip @ ?fr @ ex) = Some (ip, ?fr @ ex)"
    using assms(2) scan_all_digits [OF assms(1), of "?fr @ ex"]
    by (cases ip) (auto simp: scan_int_def)
  have "ip \<noteq> []" "hd ip \<noteq> CHR ''-''" using assms(1,2) by (cases ip; force simp: dec_char_def)+
  then have "scan_sign (literal neg ip fp ex) = Some (if neg then ''-'' else [], ip @ ?fr @ ex)"
    by (cases ip) (auto simp: scan_sign_def literal_def)
  then show ?thesis using i f e by (auto simp: scan_number_def scan_then_Some literal_def)
qed

lemma scan_number_head:
  assumes "scan_number (c # t) = Some (x, u)"
  shows "c = CHR ''-'' \<or> dec_char c"
proof -
  have "scan_int (d # v) = Some p \<Longrightarrow> dec_char d" for d v p
    by (auto simp: scan_int_def scan_digits_def split: if_splits)
  then show ?thesis using assms by (auto simp: scan_number_def scan_then_Some scan_sign_def split: if_splits)
qed

section \<open>Documents are read back\<close>

text \<open>Documents that can be written: valid literals, valid UTF-8, at most \<open>d\<close> containers inside each other.\<close>

fun wf_json :: "nat \<Rightarrow> json \<Rightarrow> bool" where
  "wf_json d (JNum t) = (scan_number t = Some (t, []))"
| "wf_json d (JStr s) = utf8Valid (string_bytes s)"
| "wf_json d (JArr js) = (0 < d \<and> list_all (wf_json (d - 1)) js)"
| "wf_json d (JObj kvs) = (0 < d \<and> list_all (\<lambda>(k, j). utf8Valid (string_bytes k) \<and> wf_json (d - 1) j) kvs)"
| "wf_json d _ = True"

lemma skip_ws_id: "\<not> is_space c \<Longrightarrow> skip_ws (c # t) = c # t"
  by (simp add: skip_ws_def)

lemma print_head:
  assumes "wf_json d j"
  obtains c t where "print_json j = c # t" and "\<not> is_space c" and "c \<noteq> CHR '']''"
proof (cases j)
  case (JNum n)
  then obtain c t where n: "n = c # t" using assms by (cases n) (auto simp: scan_number_def scan_then_def scan_sign_def scan_int_def)
  have "c = CHR ''-'' \<or> dec_char c" using assms JNum n scan_number_head [of c t] by auto
  then have "\<not> is_space c" "c \<noteq> CHR '']''" by (auto simp: is_space_def dec_char_def)
  then show ?thesis using that JNum n by simp
next
  case (JBool b)
  then show ?thesis using that by (cases b) (simp_all add: is_space_def)
qed (use that in \<open>auto simp: is_space_def quote_string_def split: if_splits\<close>)

lemma commas_Cons: "xs \<noteq> [] \<Longrightarrow> commas (x # xs) = x @ CHR '','' # commas xs"
  by (cases xs) simp_all

lemma parse_elements_print:
  assumes "\<And>j rest. j \<in> set js \<Longrightarrow> ends_number rest \<Longrightarrow> parse_value d (print_json j @ rest) = Some (j, rest)" and "js \<noteq> []"
  shows "parse_elements d (commas (map print_json js) @ CHR '']'' # rest) = Some (js, rest)"
  using assms
proof (induction js)
  case (Cons j js)
  show ?case
  proof (cases "js = []")
    case True
    then show ?thesis using Cons.prems(1) [of j "CHR '']'' # rest"]
      by (subst parse_elements.simps) (simp add: skip_ws_id is_space_def)
  next
    case False
    let ?s = "commas (map print_json js) @ CHR '']'' # rest"
    have v: "parse_value d (print_json j @ CHR '','' # ?s) = Some (j, CHR '','' # ?s)" using Cons.prems(1) [of j] by simp
    have ws: "skip_ws (CHR '','' # ?s) = CHR '','' # ?s" by (simp add: skip_ws_id is_space_def)
    have "parse_elements d ?s = Some (js, rest)" using Cons False by simp
    then show ?thesis
      using v ws parse_guard [OF v ws] False by (subst parse_elements.simps) (simp add: commas_Cons)
  qed
qed simp

lemma parse_members_print:
  assumes "\<And>k j rest. (k, j) \<in> set ms \<Longrightarrow> ends_number rest \<Longrightarrow>
      utf8Valid (string_bytes k) \<and> parse_value d (print_json j @ rest) = Some (j, rest)" and "ms \<noteq> []"
  shows "parse_members d (commas (map (\<lambda>(k, j). quote_string k @ CHR '':'' # print_json j) ms) @ CHR ''}'' # rest) = Some (ms, rest)"
  using assms
proof (induction ms)
  case (Cons m ms)
  obtain k j where m: "m = (k, j)" by (rule prod.exhaust)
  note IH = Cons.prems(1) [of k j, unfolded m, OF list.set_intros(1)]
  have ws: "skip_ws (c # t) = c # t" if "c \<in> {CHR '':'', CHR '','', CHR ''}'', CHR 0x22}" for c t
    using that by (auto simp: skip_ws_id is_space_def)
  have val: "utf8Valid (string_bytes k)" using IH [of "[]"] by simp
  show ?case
  proof (cases "ms = []")
    case True
    let ?r = "CHR ''}'' # rest"
    obtain q where q: "quote_string k = CHR 0x22 # q @ [CHR 0x22]"
      "scan_string (q @ CHR 0x22 # CHR '':'' # print_json j @ ?r) = Some (q, CHR '':'' # print_json j @ ?r)" "unquote q = k"
      by (rule quote_read [OF val, of "CHR '':'' # print_json j @ ?r"])
    then show ?thesis using True IH [of ?r] m by (subst parse_members.simps) (simp add: ws)
  next
    case False
    let ?s = "commas (map (\<lambda>(k, j). quote_string k @ CHR '':'' # print_json j) ms) @ CHR ''}'' # rest"
    let ?r = "CHR '','' # ?s"
    obtain q where q: "quote_string k = CHR 0x22 # q @ [CHR 0x22]"
      "scan_string (q @ CHR 0x22 # CHR '':'' # print_json j @ ?r) = Some (q, CHR '':'' # print_json j @ ?r)" "unquote q = k"
      by (rule quote_read [OF val, of "CHR '':'' # print_json j @ ?r"])
    have "parse_members d ?s = Some (ms, rest)" by (rule Cons.IH) (use Cons.prems False in auto)
    then show ?thesis using False IH [of ?r] q m by (subst parse_members.simps) (simp add: ws commas_Cons)
  qed
qed simp

theorem parse_print:
  assumes "wf_json d j" and "ends_number rest"
  shows "parse_value d (print_json j @ rest) = Some (j, rest)"
  using assms
proof (induction j arbitrary: d rest)
  case (JBool b)
  then show ?case by (cases b; subst parse_value.simps) (simp_all add: skip_ws_id is_space_def)
next
  case (JNum t)
  then have n: "scan_number (t @ rest) = Some (t, rest)" using scan_number_extend [of t t "[]" rest] by simp
  from print_head [OF JNum.prems(1)] obtain c u where c: "t = c # u" "\<not> is_space c" by (metis print_json.simps(3))
  have "c = CHR ''-'' \<or> dec_char c" using n c scan_number_head [of c "u @ rest"] by simp
  then have "c \<notin> {CHR ''{'', CHR ''['', CHR 0x22, CHR ''t'', CHR ''f'', CHR ''n''}" by (auto simp: dec_char_def)
  then show ?case using n c by (subst parse_value.simps) (simp add: skip_ws_id)
next
  case (JStr s)
  obtain q where "quote_string s = CHR 0x22 # q @ [CHR 0x22]" "scan_string (q @ CHR 0x22 # rest) = Some (q, rest)" "unquote q = s"
    using quote_read [of s rest] JStr by auto
  then show ?case by (subst parse_value.simps) (simp add: skip_ws_id is_space_def)
next
  case (JArr js)
  show ?case
  proof (cases js)
    case Nil
    then show ?thesis using JArr.prems by (subst parse_value.simps) (simp add: skip_ws_id is_space_def)
  next
    case (Cons j js')
    have e: "parse_elements (d - 1) (commas (map print_json js) @ CHR '']'' # rest) = Some (js, rest)"
      using JArr Cons by (intro parse_elements_print) (auto simp: list_all_iff)
    have "wf_json (d - 1) j" using JArr.prems Cons by simp
    then obtain c t where "print_json j = c # t" "\<not> is_space c" "c \<noteq> CHR '']''" by (rule print_head)
    then have "\<exists>u. commas (map print_json js) @ CHR '']'' # rest = c # u" "\<not> is_space c" "c \<noteq> CHR '']''"
      using Cons by (cases js'; simp)+
    then show ?thesis using e JArr.prems
      by (subst parse_value.simps) (auto simp: skip_ws_id is_space_def [of "CHR ''[''"])
  qed
next
  case (JObj ms)
  show ?case
  proof (cases ms)
    case Nil
    then show ?thesis using JObj.prems by (subst parse_value.simps) (simp add: skip_ws_id is_space_def)
  next
    case (Cons m ms')
    let ?t = "commas (map (\<lambda>(k, j). quote_string k @ CHR '':'' # print_json j) ms) @ CHR ''}'' # rest"
    have e: "parse_members (d - 1) ?t = Some (ms, rest)"
      using JObj Cons by (intro parse_members_print) (fastforce simp: list_all_iff)+
    have "\<exists>u. ?t = CHR 0x22 # u" using Cons by (cases ms'; cases m) (simp_all add: quote_string_def)
    then show ?thesis using e JObj.prems
      by (subst parse_value.simps) (auto simp: skip_ws_id is_space_def)
  qed
qed (subst parse_value.simps, simp add: skip_ws_id is_space_def)

end
