(* ===== verification/JsonCodec.thy ===== *)
theory JsonCodec
  imports Json GoValue Base64 WireFormat
begin

text \<open>
  The uses of Go's package \<open>encoding/json\<close> in \<open>schema_registry.go\<close>: \<open>json.Marshal\<close> of a dynamic value,
  \<open>json.Unmarshal\<close> and \<open>Decoder.Decode\<close> into a map, and decoding into the \<open>Schema\<close> struct with its field tags.
  A value without bytes, 32-bit floats or foreign types is decoded from its encoding, numbers as
  \<open>float64\<close>.
\<close>

section \<open>Encoding\<close>

fun seq_res :: "'a res list \<Rightarrow> 'a list res" where
  "seq_res [] = Inr []"
| "seq_res (r # rs) =
     (case r of Inl e \<Rightarrow> Inl e | Inr x \<Rightarrow> (case seq_res rs of Inl e \<Rightarrow> Inl e | Inr xs \<Rightarrow> Inr (x # xs)))"

definition json_number :: "string option \<Rightarrow> string res" where
  "json_number t = (case t of None \<Rightarrow> Inl (ErrExt ''json: unsupported value'') | Some t \<Rightarrow> Inr t)"

definition bytes_json :: "gobytes \<Rightarrow> string" where
  "bytes_json b = (case b of None \<Rightarrow> ''null'' | Some b \<Rightarrow> CHR 0x22 # b64_encode b @ [CHR 0x22])"

text \<open>\<open>oth\<close> is the text of the values whose encoding is not up to this package (array buffers and other foreign
  types); objects are written in the order of their keys.\<close>

fun encode_value :: "(gval \<Rightarrow> string res) \<Rightarrow> gval \<Rightarrow> string res" where
  "encode_value oth GNil = Inr ''null''"
| "encode_value oth (GBool b) = Inr (if b then ''true'' else ''false'')"
| "encode_value oth (GString s) = Inr (quote_string s)"
| "encode_value oth (GInt k n) = Inr (itoa n)"
| "encode_value oth (GUint k n) = Inr (itoa n)"
| "encode_value oth (GFloat32 f) = json_number (json_float binary32 f)"
| "encode_value oth (GFloat64 f) = json_number (json_float binary64 f)"
| "encode_value oth (GBytes b) = Inr (bytes_json b)"
| "encode_value oth (GBytesPtr p) = Inr (case p of None \<Rightarrow> ''null'' | Some b \<Rightarrow> bytes_json b)"
| "encode_value oth (GPtr p) = (case p of None \<Rightarrow> Inr ''null'' | Some v \<Rightarrow> encode_value oth v)"
| "encode_value oth (GSlice vs) =
     map_sum id (\<lambda>ts. CHR ''['' # commas ts @ '']'') (seq_res (map (encode_value oth) vs))"
| "encode_value oth (GArray vs) =
     map_sum id (\<lambda>ts. CHR ''['' # commas ts @ '']'') (seq_res (map (encode_value oth) vs))"
| "encode_value oth (GMap kvs) =
     map_sum id (\<lambda>ts. CHR ''{'' # commas ts @ ''}'')
       (seq_res (map (\<lambda>(k, r). map_sum id (\<lambda>t. quote_string k @ CHR '':'' # t) r)
          (sort_key fst (map (\<lambda>(k, v). (k, encode_value oth v)) kvs))))"
| "encode_value oth (GArrayBufferPtr None) = Inr ''null''"
| "encode_value oth v = oth v"

definition json_Marshal :: "(gval \<Rightarrow> string res) \<Rightarrow> gval \<Rightarrow> bytes res" where
  "json_Marshal oth v = map_sum id string_bytes (encode_value oth v)"

section \<open>Decoding\<close>

text \<open>A number that is out of range makes the whole decoding fail (\<open>None\<close>); of several members with the same key
  the last one counts.\<close>

definition put_all :: "(string \<times> 'a) list \<Rightarrow> (string \<times> 'a) list" where
  "put_all kvs = fold (\<lambda>(k, v). AList.update k v) kvs []"

fun of_json :: "json \<Rightarrow> gval option" where
  "of_json JNull = Some GNil"
| "of_json (JBool b) = Some (GBool b)"
| "of_json (JNum t) = map_option GFloat64 (parseFloat t)"
| "of_json (JStr s) = Some (GString s)"
| "of_json (JArr js) = map_option GSlice (those (map of_json js))"
| "of_json (JObj kvs) =
     map_option (\<lambda>vs. GMap (put_all vs)) (those (map (\<lambda>(k, j). map_option (Pair k) (of_json j)) kvs))"

definition maxNestingDepth :: nat where "maxNestingDepth = 10000"

definition json_error :: go_error where "json_error = ErrExt ''json''"

text \<open>\<open>Unmarshal\<close> takes a whole text, \<open>Decode\<close> the first value of a stream.\<close>

definition parse_text :: "bytes \<Rightarrow> json res" where
  "parse_text b =
     (case parse_value maxNestingDepth (bytes_string b) of
        None \<Rightarrow> Inl json_error
      | Some (j, rest) \<Rightarrow> if skip_ws rest = [] then Inr j else Inl json_error)"

definition parse_stream :: "bytes \<Rightarrow> json res" where
  "parse_stream b =
     (case parse_value maxNestingDepth (bytes_string b) of None \<Rightarrow> Inl json_error | Some (j, _) \<Rightarrow> Inr j)"

text \<open>Into a \<open>map[string]any\<close>; \<open>null\<close> leaves it nil, which reads like the empty map.\<close>

definition to_map :: "json \<Rightarrow> (string \<times> gval) list res" where
  "to_map j =
     (case j of
        JNull \<Rightarrow> Inr []
      | JObj kvs \<Rightarrow> (case of_json (JObj kvs) of Some (GMap m) \<Rightarrow> Inr m | _ \<Rightarrow> Inl json_error)
      | _ \<Rightarrow> Inl json_error)"

definition json_Unmarshal :: "bytes \<Rightarrow> (string \<times> gval) list res" where
  "json_Unmarshal b = (case parse_text b of Inl e \<Rightarrow> Inl e | Inr j \<Rightarrow> to_map j)"

definition json_Decode :: "bytes \<Rightarrow> (string \<times> gval) list res" where
  "json_Decode b = (case parse_stream b of Inl e \<Rightarrow> Inl e | Inr j \<Rightarrow> to_map j)"

section \<open>Decoding into the Schema struct\<close>

text \<open>\<open>foldName\<close>: upper case for ASCII letters, and the two other runes whose case folding is an ASCII letter
  (U+017F for S and U+212A for K).\<close>

fun fold_name :: "string \<Rightarrow> string" where
  "fold_name [] = []"
| "fold_name (c # s) =
     (if take 2 (c # s) = [CHR 0xC5, CHR 0xBF] then CHR ''S'' # fold_name (drop 1 s)
      else if take 3 (c # s) = [CHR 0xE2, CHR 0x84, CHR 0xAA] then CHR ''K'' # fold_name (drop 2 s)
      else (if 97 \<le> (of_char c :: nat) \<and> (of_char c :: nat) \<le> 122 then char_of ((of_char c :: nat) - 32) else c)
           # fold_name s)"

definition schema_tags :: "string list" where
  "schema_tags = [''id'', ''subject'', ''version'', ''schema'', ''schemaType'']"

text \<open>The field a key names: an exact match, else one up to case.\<close>

definition schema_field :: "string \<Rightarrow> string option" where
  "schema_field k = (if k \<in> set schema_tags then Some k else find (\<lambda>t. fold_name t = fold_name k) schema_tags)"

text \<open>A number as a Go \<open>int\<close>: an integer literal in range.\<close>

definition json_int :: "string \<Rightarrow> int option" where
  "json_int t =
     (let neg = (case t of c # _ \<Rightarrow> c = CHR ''-'' | [] \<Rightarrow> False); ds = (if neg then tl t else t);
          n = (if neg then - int (undec ds) else int (undec ds))
      in if ds \<noteq> [] \<and> list_all dec_char ds \<and> in_int64 n then Some n else None)"

definition int_field :: "(int \<Rightarrow> Schema \<Rightarrow> Schema) \<Rightarrow> json \<Rightarrow> Schema \<Rightarrow> Schema option" where
  "int_field upd j s =
     (case j of JNull \<Rightarrow> Some s | JNum t \<Rightarrow> map_option (\<lambda>n. upd n s) (json_int t) | _ \<Rightarrow> None)"

definition string_field :: "(string \<Rightarrow> Schema \<Rightarrow> Schema) \<Rightarrow> json \<Rightarrow> Schema \<Rightarrow> Schema option" where
  "string_field upd j s = (case j of JNull \<Rightarrow> Some s | JStr t \<Rightarrow> Some (upd t s) | _ \<Rightarrow> None)"

definition set_field :: "string \<times> json \<Rightarrow> Schema \<Rightarrow> Schema option" where
  "set_field m s =
     (case schema_field (fst m) of
        None \<Rightarrow> Some s
      | Some f \<Rightarrow>
          if f = ''id'' then int_field (\<lambda>n. sID_update (\<lambda>_. n)) (snd m) s
          else if f = ''subject'' then string_field (\<lambda>t. sSubject_update (\<lambda>_. t)) (snd m) s
          else if f = ''version'' then int_field (\<lambda>n. sVersion_update (\<lambda>_. n)) (snd m) s
          else if f = ''schema'' then string_field (\<lambda>t. sSchema_update (\<lambda>_. t)) (snd m) s
          else string_field (\<lambda>t. sSchemaType_update (\<lambda>_. t)) (snd m) s)"

definition zeroSchema :: Schema where
  "zeroSchema = \<lparr>sID = 0, sSubject = '''', sVersion = 0, sSchema = '''', sSchemaType = ''''\<rparr>"

definition to_schema :: "json \<Rightarrow> Schema res" where
  "to_schema j =
     (case j of
        JNull \<Rightarrow> Inr zeroSchema
      | JObj kvs \<Rightarrow>
         (case fold (\<lambda>m s. Option.bind s (set_field m)) kvs (Some zeroSchema) of
            Some s \<Rightarrow> Inr s | None \<Rightarrow> Inl json_error)
      | _ \<Rightarrow> Inl json_error)"

definition json_Decode_Schema :: "bytes \<Rightarrow> Schema res" where
  "json_Decode_Schema b = (case parse_stream b of Inl e \<Rightarrow> Inl e | Inr j \<Rightarrow> to_schema j)"

section \<open>Numbers survive\<close>

lemma hd_dec_digits: "0 < n \<Longrightarrow> hd (dec_digits n) \<noteq> CHR ''0''"
proof (induction n rule: dec_digits.induct)
  case (1 n)
  show ?case
  proof (cases "n < 10")
    case True
    then have "(of_char (char_of (48 + n) :: char) :: nat) \<noteq> of_char (CHR ''0'')" using 1(2) by simp
    then have "char_of (48 + n) \<noteq> CHR ''0''" by metis
    then show ?thesis using True by (subst dec_digits.simps) simp
  next
    case False
    then have "hd (dec_digits (n div 10)) \<noteq> CHR ''0''" using 1 by (simp add: div_greater_zero_iff)
    then show ?thesis using False by (subst dec_digits.simps) simp
  qed
qed

lemma dec_digits_part: "dec_digits n = ''0'' \<or> dec_digits n \<noteq> [] \<and> hd (dec_digits n) \<noteq> CHR ''0''"
proof (cases "n = 0")
  case True
  then show ?thesis by (subst dec_digits.simps) (simp add: char_of_def bit_Suc_0_iff)
qed (simp add: hd_dec_digits)

lemma itoa_literal: "itoa n = literal (n < 0) (dec_digits (nat \<bar>n\<bar>)) [] []"
  by (simp add: itoa_def literal_def)

lemma exponent_Nil: "exponent_part []" "exponent_value [] = 0"
  by (simp_all add: exponent_part_def exponent_value_def)

lemma scan_itoa: "scan_number (itoa n) = Some (itoa n, [])"
  unfolding itoa_literal by (rule scan_literal) (simp_all only: all_dec_digits dec_digits_part exponent_Nil list.pred_inject)

text \<open>Rounding never goes far up.\<close>

lemma round_float_bound:
  assumes "1 \<le> p" and "emin \<le> 0" and "1 \<le> \<bar>x\<bar>" and "2 * \<bar>x\<bar> < 2 powi (emax + 1)"
  shows "round_float p emin emax x \<noteq> PosInf \<and> round_float p emin emax x \<noteq> NegInf"
proof -
  define e where "e = max emin (ilog2 \<bar>x\<bar>)"
  define u where "u = (2 :: rat) powi (e - p + 1)"
  have u0: "0 < u" by (simp add: u_def)
  have l: "2 powi ilog2 \<bar>x\<bar> \<le> \<bar>x\<bar>" "\<bar>x\<bar> < 2 powi (ilog2 \<bar>x\<bar> + 1)" using ilog2_bounds [of "\<bar>x\<bar>"] assms(3) by auto
  have "(2 :: rat) powi 0 < 2 powi (ilog2 \<bar>x\<bar> + 1)" using l(2) assms(3) by simp
  then have "e = ilog2 \<bar>x\<bar>" using assms(2) unfolding powi_mono e_def by simp
  then have "2 powi e \<le> \<bar>x\<bar>" using l(1) by simp
  moreover have "u \<le> 2 powi e" using assms(1) by (simp add: u_def powi_mono)
  ultimately have ux: "u \<le> \<bar>x\<bar>" by linarith
  have "of_int (round_even y) \<le> y + 1" for y :: rat
    by (auto simp: round_even_def Let_def intro: order_trans [OF of_int_floor_le])
  then have "of_int (round_even (\<bar>x\<bar> / u)) \<le> \<bar>x\<bar> / u + 1" .
  then have "of_int (round_even (\<bar>x\<bar> / u)) * u \<le> (\<bar>x\<bar> / u + 1) * u" using u0 by (intro mult_right_mono) simp_all
  also have "\<dots> = \<bar>x\<bar> + u" using u0 by (simp add: distrib_right)
  finally have "of_int (round_even (\<bar>x\<bar> / u)) * u < 2 powi (emax + 1)" using ux assms(4) by linarith
  then show ?thesis using assms(3) by (auto simp: round_float_def Let_def e_def [symmetric] u_def [symmetric])
qed

text \<open>An integer literal is read as the nearest \<open>float64\<close>, the same as Go's conversion of the integer.\<close>

lemma parse_itoa:
  assumes "\<bar>n\<bar> < 2 ^ 64"
  shows "parseFloat (itoa n) = Some (f64_of_int n)"
proof (cases "n = 0")
  case True
  then show ?thesis
    by (simp add: parseFloat_def itoa_literal read_literal [OF _ _ _ exponent_Nil(1)] all_dec_digits f64_of_int_def round_float_def)
next
  case False
  have rd: "read_decimal (itoa n) = (n < 0, nat \<bar>n\<bar>, 0)"
    using read_literal [of "dec_digits (nat \<bar>n\<bar>)" "[]" "[]" "n < 0"] by (simp add: itoa_literal all_dec_digits exponent_Nil)
  have v: "(if n < 0 then -1 else 1) * decimal_value (nat \<bar>n\<bar>) 0 = (of_int n :: rat)" by (simp add: decimal_value_def)
  have "\<bar>of_int n :: rat\<bar> = of_int \<bar>n\<bar>" by simp
  then have "1 \<le> \<bar>of_int n :: rat\<bar>" using False by (simp only: of_int_1_le_iff)
  moreover have "2 * \<bar>of_int n :: rat\<bar> < 2 powi (1023 + 1)"
  proof -
    have "(of_int \<bar>n\<bar> :: rat) < of_int (2 ^ 64)" using assms by (simp only: of_int_less_iff)
    then have "2 * \<bar>of_int n :: rat\<bar> < 2 * 2 ^ 64" by simp
    also have "\<dots> = 2 powi 65" by simp
    also have "\<dots> < 2 powi (1023 + 1)" unfolding powi_mono by simp
    finally show ?thesis .
  qed
  ultimately have "f64_of_int n \<noteq> PosInf \<and> f64_of_int n \<noteq> NegInf"
    unfolding f64_of_int_def by (intro round_float_bound) simp_all
  then show ?thesis
    using False unfolding parseFloat_def rd Let_def prod.case v round_to_def f64_of_int_def [symmetric]
    by (auto split: float64.split)
qed

lemma scan_decimal_text:
  assumes x: "x \<noteq> 0" "round_to binary64 \<bar>x\<bar> = Fin \<bar>x\<bar>" and d: "digits_of binary64 \<bar>x\<bar> = (ds, dp)"
    and t: "t = (if x < 0 then ''-'' else []) @ (if b then format_e 1 ds dp else format_f ds dp)"
  shows "scan_number t = Some (t, [])"
proof -
  obtain m e where s: "shortest binary64 \<bar>x\<bar> = (m, e)" by fastforce
  have m0: "0 < m" using shortest_rounds [OF _ x(2) s] x(1) by simp
  have ds: "ds = dec_digits m" using d s by (simp add: digits_of_def Let_def)
  have h: "ds \<noteq> []" "list_all dec_char ds" "hd ds \<noteq> CHR ''0''" using hd_dec_digits [OF m0] all_dec_digits by (simp_all add: ds)
  show ?thesis
  proof (cases b)
    case True
    show ?thesis unfolding t if_P [OF True] format_e_literal(1) [OF h(1,2)]
      by (rule scan_literal [OF format_e_literal(2) [OF h(1,2)] _ format_e_literal(3) [OF h(1,2)] exponent_text_part])
        (use h in simp)
  next
    case False
    obtain ip fp where l: "(if x < 0 then ''-'' else []) @ format_f ds dp = literal (x < 0) ip fp []" "ip \<noteq> []"
      "list_all dec_char ip" "list_all dec_char fp" "ip = ''0'' \<or> hd ip = hd ds"
      by (rule format_f_literal [OF h(1,2), of "x < 0" dp]) blast
    show ?thesis unfolding t if_not_P [OF False] l(1) by (rule scan_literal) (use l h exponent_Nil in auto)
  qed
qed

lemma scan_json_float:
  assumes "finite_f64 f"
  obtains t where "json_float binary64 f = Some t" and "scan_number t = Some (t, [])" and "parseFloat t = Some f"
proof -
  obtain t where t: "json_float binary64 f = Some t" "parseFloat t = Some f" using parse_json_float [OF assms] by blast
  have "scan_number t = Some (t, [])"
  proof -
    have z: "scan_number ''0'' = Some (''0'', [])" "scan_number ''-0'' = Some (''-0'', [])"
      using scan_literal [of "''0''" "[]" "[]" False] scan_literal [of "''0''" "[]" "[]" True] by (simp_all add: literal_def exponent_Nil)
    show ?thesis
    proof (cases f)
      case (Fin x)
      obtain ds dp where d: "digits_of binary64 \<bar>x\<bar> = (ds, dp)" by fastforce
      show ?thesis
      proof (cases "x = 0")
        case False
        then have "round_to binary64 \<bar>x\<bar> = Fin \<bar>x\<bar>" using assms Fin by (simp add: finite_f64_def)
        have "\<exists>b. t = (if x < 0 then ''-'' else []) @ (if b then format_e 1 ds dp else format_f ds dp)"
          using t(1) False unfolding Fin json_float_def float64.case d Let_def prod.case if_not_P [OF False] option.inject by metis
        then show ?thesis using scan_decimal_text [OF False \<open>round_to binary64 \<bar>x\<bar> = Fin \<bar>x\<bar>\<close> d] by blast
      qed (use t(1) z Fin in \<open>simp add: json_float_def\<close>)
    qed (use t(1) z in \<open>simp_all add: json_float_def\<close>)
  qed
  then show thesis using that t by blast
qed

section \<open>Values survive\<close>

text \<open>Values whose encoding is a document of this package: valid UTF-8, finite numbers, integers of 64 bits, no
  32-bit floats, no foreign types and at most \<open>d\<close> containers inside each other.\<close>

fun json_clean :: "nat \<Rightarrow> gval \<Rightarrow> bool" where
  "json_clean d (GString s) = utf8Valid (string_bytes s)"
| "json_clean d (GInt k n) = (\<bar>n\<bar> < 2 ^ 64)"
| "json_clean d (GUint k n) = (\<bar>n\<bar> < 2 ^ 64)"
| "json_clean d (GFloat32 f) = False"
| "json_clean d (GFloat64 f) = finite_f64 f"
| "json_clean d (GArrayBuffer b) = False"
| "json_clean d (GArrayBufferPtr p) = (p = None)"
| "json_clean d (GPtr p) = (case p of None \<Rightarrow> True | Some v \<Rightarrow> json_clean d v)"
| "json_clean d (GSlice vs) = (0 < d \<and> list_all (json_clean (d - 1)) vs)"
| "json_clean d (GArray vs) = (0 < d \<and> list_all (json_clean (d - 1)) vs)"
| "json_clean d (GMap kvs) =
     (0 < d \<and> distinct (map fst kvs) \<and> list_all (\<lambda>(k, v). utf8Valid (string_bytes k) \<and> json_clean (d - 1) v) kvs)"
| "json_clean d (GOther t) = False"
| "json_clean d _ = True"

text \<open>The document of a value, and what it is decoded to: numbers become \<open>float64\<close>, bytes base64 text, pointers
  what they point to, and maps get the order of their keys.\<close>

definition bytes_doc :: "gobytes \<Rightarrow> json" where
  "bytes_doc b = (case b of None \<Rightarrow> JNull | Some b \<Rightarrow> JStr (b64_encode b))"

fun doc :: "gval \<Rightarrow> json" where
  "doc (GBool b) = JBool b"
| "doc (GString s) = JStr s"
| "doc (GInt k n) = JNum (itoa n)"
| "doc (GUint k n) = JNum (itoa n)"
| "doc (GFloat64 f) = JNum (the (json_float binary64 f))"
| "doc (GBytes b) = bytes_doc b"
| "doc (GBytesPtr p) = (case p of None \<Rightarrow> JNull | Some b \<Rightarrow> bytes_doc b)"
| "doc (GPtr p) = (case p of None \<Rightarrow> JNull | Some v \<Rightarrow> doc v)"
| "doc (GSlice vs) = JArr (map doc vs)"
| "doc (GArray vs) = JArr (map doc vs)"
| "doc (GMap kvs) = JObj (sort_key fst (map (\<lambda>(k, v). (k, doc v)) kvs))"
| "doc _ = JNull"

definition bytes_view :: "gobytes \<Rightarrow> gval" where
  "bytes_view b = (case b of None \<Rightarrow> GNil | Some b \<Rightarrow> GString (b64_encode b))"

fun json_view :: "gval \<Rightarrow> gval" where
  "json_view (GInt k n) = GFloat64 (f64_of_int n)"
| "json_view (GUint k n) = GFloat64 (f64_of_int n)"
| "json_view (GBytes b) = bytes_view b"
| "json_view (GBytesPtr p) = (case p of None \<Rightarrow> GNil | Some b \<Rightarrow> bytes_view b)"
| "json_view (GArrayBufferPtr p) = GNil"
| "json_view (GPtr p) = (case p of None \<Rightarrow> GNil | Some v \<Rightarrow> json_view v)"
| "json_view (GSlice vs) = GSlice (map json_view vs)"
| "json_view (GArray vs) = GSlice (map json_view vs)"
| "json_view (GMap kvs) = GMap (sort_key fst (map (\<lambda>(k, v). (k, json_view v)) kvs))"
| "json_view v = v"

lemma insort_map: "(\<And>y. fst (h y) = fst y) \<Longrightarrow> insort_key fst (h x) (map h xs) = map h (insort_key fst x xs)"
  by (induction xs) simp_all

lemma sort_map: "(\<And>y. fst (h y) = fst y) \<Longrightarrow> sort_key fst (map h xs) = map h (sort_key fst xs)"
  by (induction xs) (simp_all add: insort_map)

lemma sort_entries: "sort_key fst (map (\<lambda>(k, v). (k, f v)) kvs) = map (\<lambda>(k, v). (k, f v)) (sort_key fst kvs)"
  by (rule sort_map) (simp add: case_prod_beta)

lemma map_of_sorted: "distinct (map fst kvs) \<Longrightarrow> map_of (sort_key fst kvs) = map_of kvs"
  by (subst map_of_inject_set) (auto simp: distinct_map inj_on_def)

lemma seq_res_map: "(\<And>x. x \<in> set xs \<Longrightarrow> f x = Inr (g x)) \<Longrightarrow> seq_res (map f xs) = Inr (map g xs)"
  by (induction xs) simp_all

lemma those_map: "(\<And>x. x \<in> set xs \<Longrightarrow> f x = Some (g x)) \<Longrightarrow> those (map f xs) = Some (map g xs)"
  by (induction xs) simp_all

lemma update_new: "k \<notin> fst ` set m \<Longrightarrow> AList.update k v m = m @ [(k, v)]"
  by (induction m) auto

lemma put_all_distinct: "distinct (map fst kvs) \<Longrightarrow> put_all kvs = kvs"
proof (induction kvs rule: rev_induct)
  case (snoc x kvs)
  then show ?case by (cases x) (simp add: put_all_def update_new)
qed (simp add: put_all_def)

text \<open>Base64 text needs no escapes.\<close>

lemma plain_text:
  assumes "list_all (\<lambda>c. html_safe (of_char c)) s"
  shows "escape (string_bytes s) = s" and "utf8Valid (string_bytes s)"
proof -
  have one: "scalar (of_char c)" "string_bytes (c # s) = encodeRune (of_char c) @ string_bytes s"
    "escape_front (encodeRune (of_char c)) = [c]" if "html_safe (of_char c)" for c s
  proof -
    have c: "(of_char c :: nat) < 128" using that by (simp add: html_safe_def)
    then show sc: "scalar (of_char c)" by (simp add: scalar_def)
    have "encodeRune (of_char c) = [of_nat (of_char c)]" using c sc by (simp add: encodeRune_def encode_nat_def)
    then show "string_bytes (c # s) = encodeRune (of_char c) @ string_bytes s" by (simp add: string_bytes_def)
    show "escape_front (encodeRune (of_char c)) = [c]"
      using escape_front_rune [OF sc, of "[]"] c that by (simp add: escape_ascii_def)
  qed
  have z: "string_bytes [] = []" by (simp add: string_bytes_def)
  show "escape (string_bytes s) = s"
    using assms by (induction s) (simp_all add: z one(2) escape_rune [OF one(1)] one(3))
  show "utf8Valid (string_bytes s)"
    using assms by (induction s) (simp_all add: z one(2) utf8Valid_encode [OF one(1)])
qed

lemma b64_plain: "list_all (\<lambda>c. html_safe (of_char c)) (b64_encode b)"
proof -
  have "list_all (\<lambda>c. html_safe (of_char c)) b64_alphabet" by (simp add: b64_alphabet_def html_safe_def)
  then have "html_safe (of_char (b64_char n))" for n using b64_char_in [of n] by (simp add: list_all_iff)
  moreover have "html_safe (of_char (CHR ''=''))" by (simp add: html_safe_def)
  ultimately show ?thesis by (induction b rule: b64_encode.induct) (simp_all add: Let_def)
qed

lemmas b64_text = plain_text [OF b64_plain]

lemma bytes_json_doc: "bytes_json b = print_json (bytes_doc b)" and wf_bytes_doc: "wf_json d (bytes_doc b)"
  and of_bytes_doc: "of_json (bytes_doc b) = Some (bytes_view b)"
  by (cases b; simp add: bytes_json_def bytes_doc_def bytes_view_def quote_string_def b64_text)+

lemma encode_doc: "json_clean d v \<Longrightarrow> encode_value oth v = Inr (print_json (doc v))"
proof (induction d v rule: json_clean.induct)
  case (5 d f)
  then show ?case by (auto intro: scan_json_float [of f] simp: json_number_def)
next
  case (9 d vs)
  then have "seq_res (map (encode_value oth) vs) = Inr (map (\<lambda>v. print_json (doc v)) vs)"
    by (intro seq_res_map) (simp add: list_all_iff)
  then show ?case by (simp add: comp_def)
next
  case (10 d vs)
  then have "seq_res (map (encode_value oth) vs) = Inr (map (\<lambda>v. print_json (doc v)) vs)"
    by (intro seq_res_map) (simp add: list_all_iff)
  then show ?case by (simp add: comp_def)
next
  case (11 d kvs)
  have "encode_value oth v = Inr (print_json (doc v))" if "(k, v) \<in> set kvs" for k v
    using 11 that by (fastforce simp: list_all_iff)
  then have "seq_res (map (\<lambda>(k, v). map_sum id (\<lambda>t. quote_string k @ CHR '':'' # t) (encode_value oth v)) (sort_key fst kvs)) =
      Inr (map (\<lambda>(k, v). quote_string k @ CHR '':'' # print_json (doc v)) (sort_key fst kvs))"
    by (intro seq_res_map) auto
  then show ?case by (simp add: sort_entries [unfolded split_def] comp_def split_def)
qed (auto simp: bytes_json_doc split: option.splits)

lemma wf_doc: "json_clean d v \<Longrightarrow> wf_json d (doc v)"
proof (induction d v rule: json_clean.induct)
  case (5 d f)
  then show ?case by (auto intro: scan_json_float [of f])
next
  case (11 d kvs)
  have "utf8Valid (string_bytes k) \<and> wf_json (d - 1) (doc v)" if "(k, v) \<in> set kvs" for k v
    using 11 that by (fastforce simp: list_all_iff)
  then show ?case using 11(2) by (auto simp: sort_entries list_all_iff)
qed (auto simp: scan_itoa wf_bytes_doc list_all_iff split: option.splits)

lemma of_doc: "json_clean d v \<Longrightarrow> of_json (doc v) = Some (json_view v)"
proof (induction d v rule: json_clean.induct)
  case (5 d f)
  then show ?case by (auto intro: scan_json_float [of f])
next
  case (9 d vs)
  then have "those (map (\<lambda>v. of_json (doc v)) vs) = Some (map json_view vs)" by (intro those_map) (simp add: list_all_iff)
  then show ?case by (simp add: comp_def)
next
  case (10 d vs)
  then have "those (map (\<lambda>v. of_json (doc v)) vs) = Some (map json_view vs)" by (intro those_map) (simp add: list_all_iff)
  then show ?case by (simp add: comp_def)
next
  case (11 d kvs)
  have "of_json (doc v) = Some (json_view v)" if "(k, v) \<in> set kvs" for k v
    using 11 that by (fastforce simp: list_all_iff)
  then have t: "those (map (\<lambda>(k, v). map_option (Pair k) (of_json (doc v))) (sort_key fst kvs)) =
      Some (map (\<lambda>(k, v). (k, json_view v)) (sort_key fst kvs))"
    by (intro those_map) auto
  have "distinct (map fst (sort_key fst kvs))"
    using 11(2) by (simp add: distinct_map inj_on_def)
  then have "put_all (map (\<lambda>(k, v). (k, json_view v)) (sort_key fst kvs)) = map (\<lambda>(k, v). (k, json_view v)) (sort_key fst kvs)"
    by (intro put_all_distinct) (simp add: comp_def case_prod_beta)
  then show ?case using t by (simp add: sort_entries [unfolded split_def] comp_def split_def)
qed (auto simp: parse_itoa of_bytes_doc split: option.splits)

text \<open>Encoding and decoding, in the two ways the program decodes.\<close>

lemma parse_document:
  assumes "wf_json maxNestingDepth j"
  shows "parse_text (string_bytes (print_json j)) = Inr j" and "parse_stream (string_bytes (print_json j)) = Inr j"
  using parse_print [OF assms, of "[]"] by (simp_all add: parse_text_def parse_stream_def skip_ws_def)

lemma marshal_unmarshal_map:
  assumes "json_clean maxNestingDepth (GMap kvs)"
  shows "\<exists>b. json_Marshal oth (GMap kvs) = Inr b \<and>
     json_Unmarshal b = Inr (sort_key fst (map (\<lambda>(k, v). (k, json_view v)) kvs)) \<and>
     json_Decode b = Inr (sort_key fst (map (\<lambda>(k, v). (k, json_view v)) kvs))"
proof -
  have t: "to_map (doc (GMap kvs)) = Inr (sort_key fst (map (\<lambda>(k, v). (k, json_view v)) kvs))"
    using of_doc [OF assms] by (simp add: to_map_def del: of_json.simps)
  show ?thesis
    using parse_document [OF wf_doc [OF assms]] t encode_doc [OF assms, of oth]
    by (intro exI [of _ "string_bytes (print_json (doc (GMap kvs)))"])
      (simp only: json_Marshal_def json_Unmarshal_def json_Decode_def map_sum.simps sum.case simp_thms)
qed

section \<open>What the Schema struct gets\<close>

text \<open>The members of an object that set a field, in order; null sets nothing.\<close>

definition field_values :: "(string \<times> json) list \<Rightarrow> string \<Rightarrow> json list" where
  "field_values kvs f = map snd (filter (\<lambda>(k, j). schema_field k = Some f \<and> j \<noteq> JNull) kvs)"

definition member_ok :: "string \<times> json \<Rightarrow> bool" where
  "member_ok m =
     (case schema_field (fst m) of
        None \<Rightarrow> True
      | Some f \<Rightarrow>
          (case snd m of
             JNull \<Rightarrow> True
           | JNum t \<Rightarrow> f \<in> {''id'', ''version''} \<and> json_int t \<noteq> None
           | JStr _ \<Rightarrow> f \<notin> {''id'', ''version''}
           | _ \<Rightarrow> False))"

definition last_int :: "json list \<Rightarrow> int" where
  "last_int js = (if js = [] then 0 else case last js of JNum t \<Rightarrow> the (json_int t) | _ \<Rightarrow> 0)"

definition last_string :: "json list \<Rightarrow> string" where
  "last_string js = (if js = [] then '''' else case last js of JStr t \<Rightarrow> t | _ \<Rightarrow> '''')"

text \<open>Each field is the last value given to it, under any spelling of its name up to case, and zero without one.\<close>

definition schema_of_members :: "(string \<times> json) list \<Rightarrow> Schema" where
  "schema_of_members kvs =
     \<lparr>sID = last_int (field_values kvs ''id''), sSubject = last_string (field_values kvs ''subject''),
      sVersion = last_int (field_values kvs ''version''), sSchema = last_string (field_values kvs ''schema''),
      sSchemaType = last_string (field_values kvs ''schemaType'')\<rparr>"

lemma schema_field_tag: "schema_field k = Some f \<Longrightarrow> f \<in> set schema_tags"
  by (auto simp: schema_field_def find_Some_iff split: if_splits)

lemma set_field_step:
  "set_field m (schema_of_members kvs) = (if member_ok m then Some (schema_of_members (kvs @ [m])) else None)"
proof (cases "schema_field (fst m)")
  case None
  then show ?thesis by (cases m) (simp add: set_field_def member_ok_def schema_of_members_def field_values_def)
next
  case (Some f)
  consider "f = ''id''" | "f = ''subject''" | "f = ''version''" | "f = ''schema''" | "f = ''schemaType''"
    using schema_field_tag [OF Some] by (auto simp: schema_tags_def)
  then show ?thesis
    by cases (cases m; cases "snd m";
      use Some in \<open>auto simp: set_field_def member_ok_def schema_of_members_def field_values_def int_field_def
        string_field_def last_int_def last_string_def\<close>)+
qed

lemma to_schema_members:
  "to_schema (JObj kvs) = (if list_all member_ok kvs then Inr (schema_of_members kvs) else Inl json_error)"
proof -
  have z: "schema_of_members [] = zeroSchema"
    by (simp add: schema_of_members_def zeroSchema_def field_values_def last_int_def last_string_def)
  have "fold (\<lambda>m s. Option.bind s (set_field m)) kvs (Some zeroSchema) =
      (if list_all member_ok kvs then Some (schema_of_members kvs) else None)"
    by (induction kvs rule: rev_induct) (simp_all add: z set_field_step)
  then show ?thesis by (simp add: to_schema_def)
qed

lemma json_int_itoa: "in_int64 n \<Longrightarrow> json_int (itoa n) = Some n"
proof (cases "n < 0")
  case True
  then show "in_int64 n \<Longrightarrow> json_int (itoa n) = Some n" by (simp add: json_int_def itoa_def all_dec_digits)
next
  case False
  obtain c u where c: "dec_digits (nat n) = c # u" by (cases "dec_digits (nat n)") auto
  have "(case dec_digits (nat n) of [] \<Rightarrow> False | c # x \<Rightarrow> c = CHR ''-'') = False"
    using dec_digits_chars [of c "nat n"] c by auto
  then show "in_int64 n \<Longrightarrow> json_int (itoa n) = Some n"
    using False by (simp add: json_int_def itoa_def all_dec_digits)
qed

end
