(* ===== verification/JsonTypes.thy ===== *)
theory JsonTypes
  imports JsonCodec
begin

text \<open>
  What decoding can give: every text it accepts, however it is written, yields valid UTF-8 strings, finite
  numbers, objects with distinct keys and at most the permitted nesting, so that a decoded value can always
  be encoded again and is then decoded to itself.
\<close>

section \<open>Strings are valid UTF-8\<close>

lemma utf8_rune: "utf8Valid (string_bytes (rune_text r) @ string_bytes t) = utf8Valid (string_bytes t)"
proof -
  have e: "encodeRune r = encodeRune (if scalar r then r else runeError)" by (simp add: encodeRune_def scalar_def runeError_def)
  have s: "scalar (if scalar r then r else runeError)" by (simp add: scalar_def runeError_def)
  show ?thesis unfolding rune_text_def by (subst e) (simp add: utf8Valid_encode [OF s])
qed

lemma utf8_ascii_Cons:
  assumes "(of_char c :: nat) < 128"
  shows "utf8Valid (string_bytes (c # t)) = utf8Valid (string_bytes t)"
  using utf8_rune [of "of_char c" t] rune_text_ascii [OF assms] by (simp add: string_bytes_def)

lemma unescape_ascii: "simple_escape e \<Longrightarrow> (of_char (unescape e) :: nat) < 128"
  unfolding simple_escape_def by (elim insertE emptyE) (simp_all add: unescape_def)

lemma unquote_valid: "utf8Valid (string_bytes (unquote s))"
proof (induction s rule: unquote.induct)
  case (1 s)
  show ?case
  proof (cases s)
    case Nil
    then show ?thesis by (simp add: string_bytes_def)
  next
    case (Cons c t)
    consider "c = CHR 0x5C" | "c \<noteq> CHR 0x5C" "(of_char c :: nat) < 128" | "c \<noteq> CHR 0x5C" "\<not> (of_char c :: nat) < 128" by blast
    then show ?thesis
    proof cases
      case 1
      note c = this
      show ?thesis
      proof (cases "getu4 s")
        case None
        have "utf8Valid (string_bytes (unquote s))" if "t = e # u" "simple_escape e" for e u
          using "1.IH"(1) [OF Cons c None] that None Cons c
          by (subst unquote.simps) (simp add: utf8_ascii_Cons unescape_ascii)
        moreover have "unquote s = []" if "t = [] \<or> (\<exists>e u. t = e # u \<and> \<not> simple_escape e)"
          using that None Cons c by (subst unquote.simps) auto
        moreover have "utf8Valid (string_bytes [])" by (simp add: string_bytes_def)
        ultimately show ?thesis by (metis list.exhaust)
      next
        case (Some r)
        then show ?thesis using "1.IH"(2-4) [OF Cons c Some] Cons c
          by (subst unquote.simps) (auto simp: utf8_rune Let_def)
      qed
    next
      case 2
      then show ?thesis using "1.IH"(5) [OF Cons 2] Cons by (subst unquote.simps) (simp add: utf8_ascii_Cons)
    next
      case 3
      obtain r n where "decodeRune (string_bytes s) = (r, n)" by fastforce
      then show ?thesis using "1.IH"(6) [OF Cons 3] Cons 3 by (subst unquote.simps) (simp add: utf8_rune)
    qed
  qed
qed

section \<open>Numbers are finite\<close>

lemma round_even_between: "of_int m \<le> y \<Longrightarrow> y \<le> of_int n \<Longrightarrow> m \<le> round_even y \<and> round_even y \<le> n"
proof -
  assume a: "of_int m \<le> y" "y \<le> of_int n"
  have lo: "m \<le> \<lfloor>y\<rfloor>" using a(1) by (simp add: le_floor_iff)
  have hi: "\<lfloor>y\<rfloor> \<le> n" using a(2) by (simp add: floor_le_iff; linarith)
  have "\<lfloor>y\<rfloor> = n \<Longrightarrow> y - of_int \<lfloor>y\<rfloor> \<le> 0" using a(2) by simp
  then have "\<lfloor>y\<rfloor> + 1 \<le> n" if "\<not> y - of_int \<lfloor>y\<rfloor> < 1 / 2" using that hi by fastforce
  then show ?thesis using lo hi by (auto simp: round_even_def Let_def)
qed

text \<open>Rounding gives a number that rounds to itself.\<close>

text \<open>Rounding down to the grid of a binade stays in the binade.\<close>

lemma binade_kept:
  assumes "0 < x" and "1 \<le> p" and e: "e = max emin (ilog2 x)" and u: "u = (2 :: rat) powi (e - p + 1)"
    and y: "y = of_int m * u" and m: "m = round_even (x / u)" "m < 2 ^ nat p" and y0: "0 < y"
  shows "max emin (ilog2 y) = e"
proof -
  have u0: "0 < u" by (simp add: u)
  have q: "2 powi e = 2 powi (p - 1) * u" "2 powi (e + 1) = 2 powi p * u"
    by (simp_all add: u power_int_add [symmetric])
  have pi: "(2 :: rat) powi (p - 1) = of_int (2 ^ nat (p - 1))" "(2 :: rat) powi p = of_int (2 ^ nat p)"
    using assms(2) by (simp_all add: power_int_def)
  have "of_int (m + 1) \<le> (of_int (2 ^ nat p) :: rat)" using m(2) by (simp only: of_int_le_iff)
  then have "(of_int m :: rat) < 2 powi p" unfolding pi by (simp; linarith)
  then have "y < 2 powi (e + 1)" using u0 unfolding y q(2) by simp
  then have "(2 :: rat) powi ilog2 y < 2 powi (e + 1)" using ilog2_bounds(1) [OF y0] by linarith
  then have le: "ilog2 y \<le> e" unfolding powi_mono by simp
  show ?thesis
  proof (cases "emin < ilog2 x")
    case True
    then have ee: "e = ilog2 x" by (simp add: e)
    have "of_int (2 ^ nat (p - 1)) \<le> x / u" using ilog2_bounds(1) [OF assms(1)] q(1) u0 unfolding ee [symmetric] pi(1) [symmetric]
      by (simp add: pos_le_divide_eq)
    then have "2 ^ nat (p - 1) \<le> m" using round_even_between [of "2 ^ nat (p - 1)" "x / u" "\<lceil>x / u\<rceil>"] by (simp add: m(1))
    then have "of_int (2 ^ nat (p - 1)) \<le> (of_int m :: rat)" by (simp only: of_int_le_iff)
    then have "2 powi e \<le> y" using u0 unfolding y q(1) pi(1) by simp
    then have "(2 :: rat) powi e < 2 powi (ilog2 y + 1)" using ilog2_bounds(2) [OF y0] by linarith
    then show ?thesis using le True ee unfolding powi_mono by simp
  next
    case False
    then show ?thesis using le by (simp add: e)
  qed
qed

lemma round_float_idem:
  assumes "0 < x" and "round_float p emin emax x = Fin y" and "y \<noteq> 0" and "1 \<le> p"
  shows "0 < y \<and> round_float p emin emax y = Fin y"
proof -
  define e where "e = max emin (ilog2 x)"
  define u where "u = (2 :: rat) powi (e - p + 1)"
  define m where "m = round_even (x / u)"
  have u0: "0 < u" by (simp add: u_def)
  have y: "y = of_int m * u" and top: "y < 2 powi (emax + 1)"
    using assms(1-3) by (auto simp: round_float_def Let_def e_def [symmetric] u_def [symmetric] m_def [symmetric] split: if_splits)
  have q: "2 powi e = 2 powi (p - 1) * u" "2 powi (e + 1) = 2 powi p * u"
    by (simp_all add: u_def power_int_add [symmetric])
  have pi: "(2 :: rat) powi (p - 1) = of_int (2 ^ nat (p - 1))" "(2 :: rat) powi p = of_int (2 ^ nat p)"
    using assms(4) by (simp_all add: power_int_def)
  have "x < 2 powi (ilog2 x + 1)" using ilog2_bounds [OF assms(1)] by simp
  also have "\<dots> \<le> 2 powi (e + 1)" unfolding powi_mono by (simp add: e_def)
  finally have "x / u \<le> of_int (2 ^ nat p)" using u0 unfolding q(2) pi by (simp add: pos_divide_le_eq)
  moreover have "0 \<le> x / u" using assms(1) u0 by simp
  ultimately have m: "0 \<le> m" "m \<le> 2 ^ nat p" using round_even_between [of 0 "x / u" "2 ^ nat p"] by (simp_all add: m_def)
  have m0: "m \<noteq> 0" using assms(3) y by auto
  then have y0: "0 < y" using m y u0 by simp
  have "\<exists>k. \<bar>y\<bar> / 2 powi (max emin (ilog2 \<bar>y\<bar>) - p + 1) = of_int k"
  proof (cases "m = 2 ^ nat p")
    case True
    then have ye: "y = 2 powi (e + 1)" using y q(2) pi(2) by simp
    have "(2 :: rat) powi (e + 1) < 2 powi (e + 1 + 1)" unfolding powi_mono by simp
    then have "ilog2 y = e + 1" using ilog2_unique [of "e + 1" y] ye by simp
    then have "max emin (ilog2 \<bar>y\<bar>) = e + 1" using y0 by (simp add: e_def)
    moreover have "y / 2 powi (e + 1 - p + 1) = 2 powi (p - 1)" unfolding ye by (simp add: power_int_diff [symmetric])
    ultimately show ?thesis using y0 pi(1) by (intro exI [of _ "2 ^ nat (p - 1)"]) simp
  next
    case False
    then have "max emin (ilog2 y) = e" using binade_kept [OF assms(1,4) e_def u_def, of y] y y0 m(2) by (simp add: m_def)
    then show ?thesis using y0 u0 y by (intro exI [of _ m]) (simp add: u_def)
  qed
  then show ?thesis using round_float_exact [of y emin p _ emax] y0 top by auto
qed

lemma round_float_neg: "x < 0 \<Longrightarrow> round_float p emin emax x = Fin y \<Longrightarrow> y \<noteq> 0 \<Longrightarrow> round_float p emin emax (- x) = Fin (- y)"
  by (auto simp: round_float_def Let_def split: if_splits)

lemma round_finite:
  assumes "round_to binary64 x = f" and "f \<noteq> PosInf" and "f \<noteq> NegInf"
  shows "finite_f64 f"
proof (cases f)
  case (Fin y)
  have r: "round_float 53 (-1022) 1023 x = Fin y" using assms(1) Fin by (simp add: round_to_def)
  have "y = 0 \<or> round_float 53 (-1022) 1023 \<bar>y\<bar> = Fin \<bar>y\<bar>"
  proof (cases "y = 0")
    case False
    then have "x \<noteq> 0" using r by (auto simp: round_float_def)
    then consider "0 < x" | "x < 0" by linarith
    then show ?thesis
    proof cases
      case 1
      from round_float_idem [OF 1 r False] show ?thesis by simp
    next
      case 2
      have "0 < - x" "- y \<noteq> 0" using 2 False by simp_all
      from round_float_idem [OF this(1) round_float_neg [OF 2 r False] this(2)] show ?thesis by simp
    qed
  qed simp
  then show ?thesis by (simp add: Fin finite_f64_def round_to_def)
qed (use assms in \<open>auto simp: finite_f64_def round_to_def round_float_def Let_def split: if_splits\<close>)

lemma parseFloat_finite: "parseFloat t = Some f \<Longrightarrow> finite_f64 f"
proof -
  assume p: "parseFloat t = Some f"
  obtain neg m e where d: "read_decimal t = (neg, m, e)" by (metis prod_cases3)
  show "finite_f64 f"
  proof (cases "m = 0")
    case True
    then show ?thesis using p by (auto simp: parseFloat_def d finite_f64_def)
  next
    case False
    define r where "r = round_to binary64 ((if neg then -1 else 1) * decimal_value m e)"
    have "r = f \<and> f \<noteq> PosInf \<and> f \<noteq> NegInf"
      using p unfolding parseFloat_def d Let_def prod.case if_not_P [OF False] r_def [symmetric] by (cases r) auto
    then show ?thesis using round_finite r_def by blast
  qed
qed

section \<open>What the parser gives\<close>

fun json_typed :: "nat \<Rightarrow> json \<Rightarrow> bool" where
  "json_typed d (JStr s) = utf8Valid (string_bytes s)"
| "json_typed d (JArr js) = (0 < d \<and> list_all (json_typed (d - 1)) js)"
| "json_typed d (JObj kvs) = (0 < d \<and> list_all (\<lambda>(k, j). utf8Valid (string_bytes k) \<and> json_typed (d - 1) j) kvs)"
| "json_typed d _ = True"

lemma parse_value_shape:
  assumes "parse_value d s = Some (x, w)"
  obtains c t where "skip_ws s = c # t"
    "(0 < d \<and> x \<in> {JObj [], JArr []}) \<or> (0 < d \<and> (\<exists>ms. parse_members (d - 1) t = Some (ms, w) \<and> x = JObj ms)) \<or>
     (0 < d \<and> (\<exists>es. parse_elements (d - 1) t = Some (es, w) \<and> x = JArr es)) \<or> (\<exists>k. x = JStr (unquote k)) \<or>
     (\<exists>b. x = JBool b) \<or> x = JNull \<or> (\<exists>n. x = JNum n)"
proof (cases "skip_ws s")
  case Nil
  then show thesis using assms by (subst (asm) parse_value.simps) simp
next
  case (Cons c t)
  then show thesis using assms that [OF Cons]
    by (subst (asm) parse_value.simps) (simp split: list.splits if_splits; blast)
qed

lemma parse_typed:
  "(parse_value d s = Some (x, w) \<longrightarrow> json_typed d x) \<and>
   (parse_members d s = Some (ms, w) \<longrightarrow> list_all (\<lambda>(k, j). utf8Valid (string_bytes k) \<and> json_typed d j) ms) \<and>
   (parse_elements d s = Some (es, w) \<longrightarrow> list_all (json_typed d) es)"
proof (induction "length s" arbitrary: d s x w ms es rule: less_induct)
  case less
  have v: "json_typed d x" if p: "parse_value d s = Some (x, w)" for x w
  proof -
    from p obtain c t where c: "skip_ws s = c # t"
      and h: "(0 < d \<and> x \<in> {JObj [], JArr []}) \<or> (0 < d \<and> (\<exists>ms. parse_members (d - 1) t = Some (ms, w) \<and> x = JObj ms)) \<or>
     (0 < d \<and> (\<exists>es. parse_elements (d - 1) t = Some (es, w) \<and> x = JArr es)) \<or> (\<exists>k. x = JStr (unquote k)) \<or>
     (\<exists>b. x = JBool b) \<or> x = JNull \<or> (\<exists>n. x = JNum n)" by (rule parse_value_shape)
    note ih = less [OF skip_ws_Cons [OF c], of "d - 1"]
    from h ih show ?thesis by (elim disjE exE conjE) (auto simp: unquote_valid)
  qed
  moreover have "list_all (\<lambda>(k, j). utf8Valid (string_bytes k) \<and> json_typed d j) ms" if p: "parse_members d s = Some (ms, w)"
  proof -
    obtain t k u y x z e r where h: "skip_ws s = CHR 0x22 # t" "scan_string t = Some (k, u)" "skip_ws u = CHR '':'' # y"
      "parse_value d y = Some (x, z)"
      "ms = [(unquote k, x)] \<or> length r < length s \<and> (\<exists>ms'. parse_members d r = Some (ms', w) \<and> ms = (unquote k, x) # ms')"
      by (rule parse_members_Some [OF p]) blast
    have "length y < length s"
      using skip_ws_Cons [OF h(1)] scan_string_length [OF h(2)] skip_ws_Cons [OF h(3)] by simp
    then have x: "json_typed d x" using less h(4) by blast
    have "\<forall>ms'. length r < length s \<and> parse_members d r = Some (ms', w) \<longrightarrow>
        list_all (\<lambda>(k, j). utf8Valid (string_bytes k) \<and> json_typed d j) ms'" using less by blast
    then show ?thesis using h(5) x by (auto simp: unquote_valid)
  qed
  moreover have "list_all (json_typed d) es" if p: "parse_elements d s = Some (es, w)"
  proof -
    obtain x y e r where h: "parse_value d s = Some (x, y)"
      "es = [x] \<or> length r < length s \<and> (\<exists>es'. parse_elements d r = Some (es', w) \<and> es = x # es')"
      by (rule parse_elements_Some [OF p]) blast
    have "\<forall>es'. length r < length s \<and> parse_elements d r = Some (es', w) \<longrightarrow> list_all (json_typed d) es'" using less by blast
    then show ?thesis using h v by auto
  qed
  ultimately show ?case by blast
qed

section \<open>What decoding gives\<close>

text \<open>The types a decoded value is made of.\<close>

fun json_native :: "gval \<Rightarrow> bool" where
  "json_native GNil = True"
| "json_native (GBool b) = True"
| "json_native (GString s) = True"
| "json_native (GFloat64 f) = True"
| "json_native (GSlice vs) = list_all json_native vs"
| "json_native (GMap kvs) = list_all (\<lambda>(k, v). json_native v) kvs"
| "json_native _ = False"

lemma those_Some: "those xs = Some ys \<longleftrightarrow> xs = map Some ys"
  by (induction xs arbitrary: ys) (auto split: option.splits simp: Cons_eq_map_conv)

lemma put_all_keys: "distinct (map fst (put_all kvs)) \<and> set (put_all kvs) \<subseteq> set kvs"
proof (induction kvs rule: rev_induct)
  case (snoc x kvs)
  obtain k v where x: "x = (k, v)" by (rule prod.exhaust)
  have "set (AList.update k v m) \<subseteq> insert (k, v) (set m)" for m :: "(string \<times> 'a) list" by (induction m) auto
  then show ?case using snoc by (auto simp: put_all_def x distinct_update)
qed (simp add: put_all_def)

lemma of_json_clean: "json_typed d j \<Longrightarrow> of_json j = Some v \<Longrightarrow> json_clean d v \<and> json_native v"
proof (induction d j arbitrary: v rule: json_typed.induct)
  case (2 d js)
  then obtain vs where v: "v = GSlice vs" "map of_json js = map Some vs" by (auto simp: those_Some)
  have "json_clean (d - 1) y \<and> json_native y" if "y \<in> set vs" for y
  proof -
    have "Some y \<in> set (map of_json js)" using that unfolding v(2) by simp
    then obtain j where "j \<in> set js" "of_json j = Some y" by auto
    then show ?thesis using 2 by (auto simp: list_all_iff)
  qed
  then show ?case using 2(2) v(1) by (auto simp: list_all_iff)
next
  case (3 d kvs)
  then obtain vs where v: "v = GMap (put_all vs)"
    "map (\<lambda>(k, j). map_option (Pair k) (of_json j)) kvs = map Some vs" by (auto simp: those_Some)
  have e: "utf8Valid (string_bytes k) \<and> json_clean (d - 1) y \<and> json_native y" if "(k, y) \<in> set vs" for k y
  proof -
    have "Some (k, y) \<in> set (map (\<lambda>(k, j). map_option (Pair k) (of_json j)) kvs)" using that unfolding v(2) by force
    then obtain j where "(k, j) \<in> set kvs" "of_json j = Some y" by (auto simp: eq_commute [of "Some (k, y)"])
    then show ?thesis using 3 by (fastforce simp: list_all_iff)
  qed
  have "set (put_all vs) \<subseteq> set vs" "distinct (map fst (put_all vs))" using put_all_keys [of vs] by simp_all
  then show ?case using 3(2) v(1) e by (auto simp: list_all_iff)
qed (auto intro: parseFloat_finite)

lemma unmarshal_clean:
  assumes "json_Unmarshal b = Inr m"
  shows "json_clean maxNestingDepth (GMap m)" and "json_native (GMap m)"
proof -
  obtain j where j: "parse_text b = Inr j" "to_map j = Inr m" using assms by (auto simp: json_Unmarshal_def split: sum.splits)
  have "\<exists>rest. parse_value maxNestingDepth (bytes_string b) = Some (j, rest)"
    using j(1) by (auto simp: parse_text_def split: option.splits if_splits)
  then have t: "json_typed maxNestingDepth j" using parse_typed by blast
  have "j = JNull \<and> m = [] \<or> (\<exists>kvs. j = JObj kvs \<and> of_json (JObj kvs) = Some (GMap m))"
    using j(2) by (auto simp: to_map_def split: json.splits option.splits gval.splits)
  then have "json_clean maxNestingDepth (GMap m) \<and> json_native (GMap m)"
    using of_json_clean [OF t] by (auto simp: maxNestingDepth_def)
  then show "json_clean maxNestingDepth (GMap m)" and "json_native (GMap m)" by simp_all
qed

end
