(* ===== verification/Registry.thy ===== *)
theory Registry
  imports JsonCodec Avro Client
begin

text \<open>
  The registry client of \<open>schema_registry.go\<close>: its configuration, the HTTP requests it makes, the
  response cache and the cache of parsed Avro schemas, fetching and registering schemas, and
  subject names. A schema returned to a script is an object the script can change, so schemas live in
  an explicit store and the cache holds addresses. The network is a parameter that maps a request
  and a world to a response and the next world.
\<close>

section \<open>Data\<close>

record BasicAuth =
  baUsername :: string
  baPassword :: string

record SchemaRegistryConfig =
  scURL :: string
  scBasicAuth :: "BasicAuth option"
  scTLS :: "TLSConfig option"
  scEnableCaching :: bool

record SubjectNameConfig =
  snTopic :: string
  snElement :: string
  snStrategy :: string
  snSchema :: string

text \<open>\<open>http.Client\<close>: its timeout and, when the configuration has TLS material, its TLS settings.\<close>

record http_client =
  hcTimeout :: int
  hcTLS :: "tls_Config option"

datatype req_context = BackgroundCtx | VuCtx

record http_request =
  hqMethod :: string
  hqURL :: string
  hqContext :: req_context
  hqAuth :: "BasicAuth option"
  hqContentType :: string
  hqBody :: bytes

record http_response =
  hsStatus :: int
  hsBody :: bytes

type_synonym parsed_avro = "avro_env \<times> avro_schema"

text \<open>A virtual user may be absent, and may have no context yet (\<open>rvContext = False\<close>).\<close>

record registry_vu =
  rvContext :: bool

text \<open>\<open>None\<close> for a cache is Go's nil map; a schema cache entry is an address of the store. \<open>rgParses\<close> is no field of the
  struct: it numbers the calls of \<open>avro.Parse\<close>, whose answers depend on what was parsed before (anywhere in the
  process: the parser resolves named types in a global cache of its own).\<close>

record SchemaRegistry =
  rgVU :: "registry_vu option"
  rgConfig :: "SchemaRegistryConfig option"
  rgClient :: "http_client option"
  rgEnableCaching :: bool
  rgSchemaCache :: "nat gomap"
  rgAvroCache :: "parsed_avro gomap option"
  rgParses :: nat

text \<open>The Go heap as far as schemas go (the address is the position), and the network.\<close>

record 'w machine =
  mHeap :: "Schema list"
  mNet :: 'w

text \<open>
  What lies outside: \<open>http.NewRequest\<close>'s verdict on a URL, the round trip of a request through
  a client, \<open>avro.Parse\<close> (its \<open>n\<close>-th call), the JSON text of values of foreign types, and the lower case of text
  that is not ASCII.
\<close>

record 'w outside =
  newRequestErr :: "string \<Rightarrow> go_error option"
  httpDo :: "http_client \<Rightarrow> http_request \<Rightarrow> 'w \<Rightarrow> http_response res \<times> 'w"
  avroParse :: "nat \<Rightarrow> string \<Rightarrow> parsed_avro res"
  jsOther :: "gval \<Rightarrow> string res"
  lowerUnicode :: "string \<Rightarrow> string"
  intOverflow :: int

definition schemaRegistryTimeout :: int where "schemaRegistryTimeout = 60 * 1000000000"

definition vuContext :: "registry_vu option \<Rightarrow> req_context" where
  "vuContext vuo = (case vuo of Some v \<Rightarrow> if rvContext v then VuCtx else BackgroundCtx | None \<Rightarrow> BackgroundCtx)"

definition reqContext :: "SchemaRegistry \<Rightarrow> req_context" where
  "reqContext sr = vuContext (rgVU sr)"

section \<open>Construction\<close>

definition NewSchemaRegistry ::
  "'w outside \<Rightarrow> crypto \<Rightarrow> registry_vu option \<Rightarrow> SchemaRegistryConfig option \<Rightarrow> 'w \<Rightarrow> SchemaRegistry res \<times> 'w" where
  "NewSchemaRegistry ext cr vuo config w =
     (case config of
        None \<Rightarrow>
          (Inr \<lparr>rgVU = vuo, rgConfig = None, rgClient = None, rgEnableCaching = False, rgSchemaCache = [],
                rgAvroCache = Some [], rgParses = 0\<rparr>, w)
      | Some cfg \<Rightarrow>
          if scURL cfg = '''' then (Inl (Errorf ''SchemaRegistry: url is required'' []), w)
          else
            (case (case scTLS cfg of
                     None \<Rightarrow> Inr \<lparr>hcTimeout = schemaRegistryTimeout, hcTLS = None\<rparr>
                   | Some tls \<Rightarrow>
                       (case tlsConfigFrom cr tls of
                          Inl err \<Rightarrow> Inl (Wrapf ''SchemaRegistry: %w'' [] err)
                        | Inr t \<Rightarrow> Inr \<lparr>hcTimeout = schemaRegistryTimeout, hcTLS = Some t\<rparr>)) of
               Inl err \<Rightarrow> (Inl err, w)
             | Inr httpClient \<Rightarrow>
                (case newRequestErr ext (scURL cfg @ ''/config'') of
                   Some err \<Rightarrow> (Inl (Wrapf ''SchemaRegistry: failed to create request: %w'' [] err), w)
                 | None \<Rightarrow>
                    (let req = \<lparr>hqMethod = ''GET'', hqURL = scURL cfg @ ''/config'', hqContext = vuContext vuo,
                                hqAuth = scBasicAuth cfg, hqContentType = '''', hqBody = []\<rparr>;
                         (r, w) = httpDo ext httpClient req w
                     in case r of
                          Inl err \<Rightarrow>
                            (Inl (Wrapf ''SchemaRegistry: failed to reach registry at %s: %w'' [AStr (scURL cfg)] err), w)
                        | Inr resp \<Rightarrow>
                            if hsStatus resp < 200 \<or> hsStatus resp \<ge> 300
                            then (Inl (Errorf ''SchemaRegistry: registry returned %d (expected 2xx)'' [AInt (hsStatus resp)]), w)
                            else (Inr \<lparr>rgVU = vuo, rgConfig = Some cfg, rgClient = Some httpClient,
                                       rgEnableCaching = scEnableCaching cfg, rgSchemaCache = [], rgAvroCache = Some [],
                                       rgParses = 0\<rparr>, w)))))"

section \<open>Caches\<close>

definition schemaCacheKey :: "string \<Rightarrow> int option \<Rightarrow> string" where
  "schemaCacheKey subject version =
     (case version of None \<Rightarrow> subject @ [CHR 0x00] | Some v \<Rightarrow> subject @ [CHR 0x00] @ itoa v)"

definition parsedAvro :: "'w outside \<Rightarrow> string \<Rightarrow> SchemaRegistry \<Rightarrow> parsed_avro res \<times> SchemaRegistry" where
  "parsedAvro ext schemaStr sr =
     (case (case rgAvroCache sr of None \<Rightarrow> None | Some cache \<Rightarrow> map_of cache schemaStr) of
        Some cached \<Rightarrow> (Inr cached, sr)
      | None \<Rightarrow>
         (let n = rgParses sr; sr = sr\<lparr>rgParses := n + 1\<rparr> in
          case avroParse ext n schemaStr of
            Inl err \<Rightarrow> (Inl err, sr)
          | Inr parsed \<Rightarrow>
             (Inr parsed, sr\<lparr>rgAvroCache := map_option (AList.update schemaStr parsed) (rgAvroCache sr)\<rparr>)))"

text \<open>Allocation of a schema, and the copy handed out for a cached one.\<close>

definition alloc :: "Schema \<Rightarrow> 'w machine \<Rightarrow> nat \<times> 'w machine" where
  "alloc s m = (length (mHeap m), m\<lparr>mHeap := mHeap m @ [s]\<rparr>)"

definition copySchema :: "nat \<Rightarrow> 'w machine \<Rightarrow> nat \<times> 'w machine" where
  "copySchema a m = alloc (mHeap m ! a) m"

section \<open>Fetching\<close>

definition schema_path :: "string \<Rightarrow> int option \<Rightarrow> string" where
  "schema_path subject version =
     (case version of
        None \<Rightarrow> ''/subjects/'' @ subject @ ''/versions/latest''
      | Some v \<Rightarrow> ''/subjects/'' @ subject @ ''/versions/'' @ itoa v)"

text \<open>The request and its answer, and the cache around it.\<close>

definition requestSchema ::
  "'w outside \<Rightarrow> SchemaRegistryConfig \<Rightarrow> string \<Rightarrow> SchemaRegistry \<Rightarrow> 'w \<Rightarrow> Schema res \<times> 'w" where
  "requestSchema ext cfg path sr w =
     (case newRequestErr ext (scURL cfg @ path) of
        Some err \<Rightarrow> (Inl (Wrapf ''SchemaRegistry: failed to create request: %w'' [] err), w)
      | None \<Rightarrow>
         (let req = \<lparr>hqMethod = ''GET'', hqURL = scURL cfg @ path, hqContext = reqContext sr,
                     hqAuth = scBasicAuth cfg, hqContentType = '''', hqBody = []\<rparr>;
              (r, w) = httpDo ext (the (rgClient sr)) req w
          in case r of
               Inl err \<Rightarrow> (Inl (Wrapf ''SchemaRegistry: request failed: %w'' [] err), w)
             | Inr resp \<Rightarrow>
                if hsStatus resp \<noteq> 200
                then (Inl (Errorf ''SchemaRegistry: GET %s returned %d'' [AStr path, AInt (hsStatus resp)]), w)
                else
                  (case json_Decode_Schema (hsBody resp) of
                     Inl err \<Rightarrow> (Inl (Wrapf ''SchemaRegistry: failed to decode response: %w'' [] err), w)
                   | Inr schema \<Rightarrow> (Inr schema, w))))"

definition getSchema ::
  "'w outside \<Rightarrow> string \<Rightarrow> int option \<Rightarrow> SchemaRegistry \<Rightarrow> 'w machine
   \<Rightarrow> nat res \<times> SchemaRegistry \<times> 'w machine" where
  "getSchema ext subject version sr m =
     (case rgConfig sr of
        None \<Rightarrow> (Inl (Errorf ''SchemaRegistry: getSchema requires registry configuration (standalone mode not supported)'' []), sr, m)
      | Some cfg \<Rightarrow>
         (let key = schemaCacheKey subject version in
          case (if rgEnableCaching sr then map_of (rgSchemaCache sr) key else None) of
            Some cached \<Rightarrow> (let (c, m) = copySchema cached m in (Inr c, sr, m))
          | None \<Rightarrow>
             (case requestSchema ext cfg (schema_path subject version) sr (mNet m) of
                (Inl err, w) \<Rightarrow> (Inl err, sr, m\<lparr>mNet := w\<rparr>)
              | (Inr schema, w) \<Rightarrow>
                 (let (a, m) = alloc schema (m\<lparr>mNet := w\<rparr>) in
                  if rgEnableCaching sr
                  then let (c, m) = copySchema a m
                       in (Inr c, sr\<lparr>rgSchemaCache := AList.update key a (rgSchemaCache sr)\<rparr>, m)
                  else (Inr a, sr, m)))))"

definition GetSchema ::
  "'w outside \<Rightarrow> Schema option \<Rightarrow> SchemaRegistry \<Rightarrow> 'w machine \<Rightarrow> nat res \<times> SchemaRegistry \<times> 'w machine" where
  "GetSchema ext schemaParam sr m =
     (if rgConfig sr = None
      then (Inl (Errorf ''SchemaRegistry: GetSchema requires registry configuration (standalone mode not supported)'' []), sr, m)
      else case schemaParam of
        None \<Rightarrow> (Inl (Errorf ''SchemaRegistry: GetSchema requires schema with subject'' []), sr, m)
      | Some s \<Rightarrow>
         if sSubject s = '''' then (Inl (Errorf ''SchemaRegistry: GetSchema requires schema with subject'' []), sr, m)
         else getSchema ext (sSubject s) (if sVersion s > 0 then Some (sVersion s) else None) sr m)"

section \<open>Registering\<close>

text \<open>The request; its answer is the identifier and, when the registry reports it, the version.\<close>

definition postSchema ::
  "'w outside \<Rightarrow> SchemaRegistryConfig \<Rightarrow> string \<Rightarrow> string \<Rightarrow> string \<Rightarrow> SchemaRegistry \<Rightarrow> 'w
   \<Rightarrow> (int \<times> int) res \<times> 'w" where
  "postSchema ext cfg subject schemaStr schemaType sr w =
     (case json_Marshal (jsOther ext) (GMap [(''schema'', GString schemaStr), (''schemaType'', GString schemaType)]) of
        Inl err \<Rightarrow> (Inl (Wrapf ''SchemaRegistry: failed to marshal request: %w'' [] err), w)
      | Inr body \<Rightarrow>
         (let url = scURL cfg @ ''/subjects/'' @ subject @ ''/versions'' in
          case newRequestErr ext url of
            Some err \<Rightarrow> (Inl (Wrapf ''SchemaRegistry: failed to create request: %w'' [] err), w)
          | None \<Rightarrow>
             (let req = \<lparr>hqMethod = ''POST'', hqURL = url, hqContext = reqContext sr, hqAuth = scBasicAuth cfg,
                         hqContentType = ''application/vnd.schemaregistry.v1+json'', hqBody = body\<rparr>;
                  (r, w) = httpDo ext (the (rgClient sr)) req w
              in case r of
                   Inl err \<Rightarrow> (Inl (Wrapf ''SchemaRegistry: request failed: %w'' [] err), w)
                 | Inr resp \<Rightarrow>
                    if hsStatus resp \<noteq> 200
                    then (Inl (Errorf ''SchemaRegistry: POST /subjects/%s/versions returned %d: %s''
                                 [AStr subject, AInt (hsStatus resp), AStr (bytes_string (hsBody resp))]), w)
                    else
                      (case json_Decode (hsBody resp) of
                         Inl err \<Rightarrow> (Inl (Wrapf ''SchemaRegistry: failed to decode response: %w'' [] err), w)
                       | Inr registryResp \<Rightarrow>
                          (case map_of registryResp ''id'' of
                             Some (GFloat64 i) \<Rightarrow>
                               (let version = (case map_of registryResp ''version'' of
                                                 Some (GFloat64 v) \<Rightarrow> int64_of_float (intOverflow ext) v | _ \<Rightarrow> 0)
                                in (Inr (int64_of_float (intOverflow ext) i, version), w))
                           | _ \<Rightarrow> (Inl (Errorf ''SchemaRegistry: response missing schema id'' []), w))))))"

definition createSchema ::
  "'w outside \<Rightarrow> string \<Rightarrow> string \<Rightarrow> string \<Rightarrow> SchemaRegistry \<Rightarrow> 'w machine
   \<Rightarrow> nat res \<times> SchemaRegistry \<times> 'w machine" where
  "createSchema ext subject schemaStr schemaType sr m =
     (case rgConfig sr of
        None \<Rightarrow> (Inl (Errorf ''SchemaRegistry: createSchema requires registry configuration (standalone mode not supported)'' []), sr, m)
      | Some cfg \<Rightarrow>
         (case postSchema ext cfg subject schemaStr schemaType sr (mNet m) of
            (Inl err, w) \<Rightarrow> (Inl err, sr, m\<lparr>mNet := w\<rparr>)
          | (Inr (i, version), w) \<Rightarrow>
             (let (a, m) = alloc \<lparr>sID = i, sSubject = subject, sVersion = version, sSchema = schemaStr,
                                 sSchemaType = schemaType\<rparr> (m\<lparr>mNet := w\<rparr>)
              in (Inr a, sr, m))))"

definition CreateSchema ::
  "'w outside \<Rightarrow> Schema option \<Rightarrow> SchemaRegistry \<Rightarrow> 'w machine \<Rightarrow> nat res \<times> SchemaRegistry \<times> 'w machine" where
  "CreateSchema ext schemaParam sr m =
     (if rgConfig sr = None
      then (Inl (Errorf ''SchemaRegistry: CreateSchema requires registry configuration (standalone mode not supported)'' []), sr, m)
      else case schemaParam of
        None \<Rightarrow> (Inl (Errorf ''SchemaRegistry: CreateSchema requires schema with subject, schema, and schemaType'' []), sr, m)
      | Some s \<Rightarrow>
         if sSubject s = '''' \<or> sSchema s = '''' \<or> sSchemaType s = ''''
         then (Inl (Errorf ''SchemaRegistry: CreateSchema requires schema with subject, schema, and schemaType'' []), sr, m)
         else createSchema ext (sSubject s) (sSchema s) (sSchemaType s) sr m)"

section \<open>Subject names\<close>

text \<open>\<open>strings.ToLower\<close>: letter by letter for ASCII text, by the Unicode tables otherwise.\<close>

definition ascii_lower :: "char \<Rightarrow> char" where
  "ascii_lower c = (if 65 \<le> (of_char c :: nat) \<and> (of_char c :: nat) \<le> 90 then char_of ((of_char c :: nat) + 32) else c)"

definition toLower :: "'w outside \<Rightarrow> string \<Rightarrow> string" where
  "toLower ext s = (if list_all (\<lambda>c. (of_char c :: nat) < 128) s then map ascii_lower s else lowerUnicode ext s)"

fun avro_type :: "avro_schema \<Rightarrow> string" where
  "avro_type (APrim AvroInt) = ''int''"
| "avro_type (APrim AvroLong) = ''long''"
| "avro_type (APrim AvroFloat) = ''float''"
| "avro_type (APrim AvroDouble) = ''double''"
| "avro_type (APrim AvroBytes) = ''bytes''"
| "avro_type (APrim AvroString) = ''string''"
| "avro_type (APrim AvroBoolean) = ''boolean''"
| "avro_type (APrim AvroNull) = ''null''"
| "avro_type (ANamed (ARecord _ _)) = ''record''"
| "avro_type (ANamed (AEnum _ _)) = ''enum''"
| "avro_type (ANamed (AFixed _ _)) = ''fixed''"
| "avro_type (AArray _) = ''array''"
| "avro_type (AMap _) = ''map''"
| "avro_type (AUnion _) = ''union''"
| "avro_type (ARef _) = ''<ref>''"

definition recordFullName :: "'w outside \<Rightarrow> string \<Rightarrow> SchemaRegistry \<Rightarrow> string res \<times> SchemaRegistry" where
  "recordFullName ext schemaStr sr =
     (if schemaStr = '''' then (Inl (Errorf ''SchemaRegistry: record-name strategy requires a schema'' []), sr)
      else case parsedAvro ext schemaStr sr of
        (Inl err, sr) \<Rightarrow> (Inl (Wrapf ''SchemaRegistry: record-name strategy requires a parseable Avro schema: %w'' [] err), sr)
      | (Inr (_, s), sr) \<Rightarrow>
         (case s of
            ANamed n \<Rightarrow> (Inr (fullName n), sr)
          | _ \<Rightarrow> (Inl (Errorf ''SchemaRegistry: record-name strategy requires a named Avro schema (record/enum/fixed), got %q''
                        [AStr (avro_type s)]), sr)))"

definition getSubjectName ::
  "'w outside \<Rightarrow> string \<Rightarrow> string \<Rightarrow> string \<Rightarrow> string \<Rightarrow> SchemaRegistry \<Rightarrow> string res \<times> SchemaRegistry" where
  "getSubjectName ext topic element strategy schema sr =
     (if strategy = '''' \<or> strategy = topicNameStrategy then (Inr (topic @ ''-'' @ toLower ext element), sr)
      else if strategy = recordNameStrategy then
        (case recordFullName ext schema sr of
           (Inl err, sr) \<Rightarrow> (Inl err, sr) | (Inr name, sr) \<Rightarrow> (Inr name, sr))
      else if strategy = topicRecordNameStrategy then
        (case recordFullName ext schema sr of
           (Inl err, sr) \<Rightarrow> (Inl err, sr) | (Inr name, sr) \<Rightarrow> (Inr (topic @ ''-'' @ name), sr))
      else (Inl (Errorf ''SchemaRegistry: unknown subjectNameStrategy %q'' [AStr strategy]), sr))"

definition GetSubjectName ::
  "'w outside \<Rightarrow> SubjectNameConfig option \<Rightarrow> SchemaRegistry \<Rightarrow> string res \<times> SchemaRegistry" where
  "GetSubjectName ext config sr =
     (case config of
        None \<Rightarrow> (Inl (Errorf ''SchemaRegistry: GetSubjectName requires a config'' []), sr)
      | Some c \<Rightarrow>
         if snTopic c = '''' then (Inl (Errorf ''SchemaRegistry: GetSubjectName requires topic'' []), sr)
         else if snElement c = '''' then (Inl (Errorf ''SchemaRegistry: GetSubjectName requires element'' []), sr)
         else getSubjectName ext (snTopic c) (snElement c) (snStrategy c) (snSchema c) sr)"

section \<open>Cached calls\<close>

text \<open>
  The contract of a call with a memory: a stored result is returned without any effect, a successful
  call stores its result, and nothing that may happen in between (the steps of the environment,
  other calls included) forgets or changes what is stored.
\<close>

locale cached_call =
  fixes call :: "'k \<Rightarrow> 's \<Rightarrow> 'v res \<times> 's"
    and stored :: "'s \<Rightarrow> 'k \<Rightarrow> 'v option"
    and effects :: "'s \<Rightarrow> 'e"
    and active :: "'s \<Rightarrow> bool"
    and step :: "'ev \<Rightarrow> 's \<Rightarrow> 's"
  assumes active_call: "active s \<Longrightarrow> active (snd (call k s))"
    and hit: "active s \<Longrightarrow> stored s k = Some v \<Longrightarrow> fst (call k s) = Inr v \<and> effects (snd (call k s)) = effects s"
    and store: "active s \<Longrightarrow> fst (call k s) = Inr v \<Longrightarrow> stored (snd (call k s)) k = Some v"
    and active_step: "active s \<Longrightarrow> active (step ev s)"
    and keep: "active s \<Longrightarrow> stored s k = Some v \<Longrightarrow> stored (step ev s) k = Some v"
begin

lemma keep_steps:
  "active s \<Longrightarrow> stored s k = Some v \<Longrightarrow> active (fold step evs s) \<and> stored (fold step evs s) k = Some v"
  by (induction evs arbitrary: s) (simp_all add: active_step keep)

text \<open>After a successful call, the same call later returns the same value and has no effect.\<close>

lemma call_stable:
  assumes "active s" and "fst (call k s) = Inr v" and "s' = fold step evs (snd (call k s))"
  shows "fst (call k s') = Inr v \<and> effects (snd (call k s')) = effects s'"
  using keep_steps [OF active_call [OF assms(1)] store [OF assms(1,2)], of evs] hit assms(3) by blast

end

interpretation avro_cache:
  cached_call "parsedAvro ext" "\<lambda>sr k. case rgAvroCache sr of None \<Rightarrow> None | Some cache \<Rightarrow> map_of cache k"
    "\<lambda>sr. sr" "\<lambda>sr. rgAvroCache sr \<noteq> None" "\<lambda>k sr. snd (parsedAvro ext k sr)"
  for ext
  by unfold_locales (auto simp: parsedAvro_def Let_def update_conv split: option.splits sum.splits)

section \<open>The schema a registry knows for a text\<close>

text \<open>The one it parsed first, or else what the parser says now.\<close>

definition known_schema :: "'w outside \<Rightarrow> SchemaRegistry \<Rightarrow> string \<Rightarrow> parsed_avro res" where
  "known_schema ext sr t =
     (case Option.bind (rgAvroCache sr) (\<lambda>cache. map_of cache t) of
        Some p \<Rightarrow> Inr p
      | None \<Rightarrow> avroParse ext (rgParses sr) t)"

lemma parsedAvro_known: "fst (parsedAvro ext t sr) = known_schema ext sr t"
  by (auto simp: parsedAvro_def known_schema_def Let_def split: option.splits sum.splits)

lemma known_schema_kept:
  assumes "rgAvroCache sr \<noteq> None" and "known_schema ext sr t = Inr p"
  shows "known_schema ext (snd (parsedAvro ext t sr)) t = Inr p"
  using avro_cache.call_stable [OF assms(1), of ext t p _ "[]", OF _ refl] assms(2) by (simp add: parsedAvro_known)

lemma parsedAvro_frame:
  "rgConfig (snd (parsedAvro ext k sr)) = rgConfig sr" "rgSchemaCache (snd (parsedAvro ext k sr)) = rgSchemaCache sr"
  "rgEnableCaching (snd (parsedAvro ext k sr)) = rgEnableCaching sr" "rgClient (snd (parsedAvro ext k sr)) = rgClient sr"
  "rgVU (snd (parsedAvro ext k sr)) = rgVU sr"
  by (auto simp: parsedAvro_def Let_def split: option.splits sum.splits)

section \<open>Cache keys\<close>

lemma schemaCacheKey_inj:
  "schemaCacheKey s v = schemaCacheKey s' v' \<longleftrightarrow> s = s' \<and> v = v'"
proof -
  define tl where "tl x = (case x of None \<Rightarrow> [] | Some n \<Rightarrow> itoa n)" for x :: "int option"
  have key: "schemaCacheKey s v = s @ CHR 0x00 # tl v" for s v
    by (simp add: schemaCacheKey_def tl_def split: option.split)
  have nul: "CHR 0x00 \<notin> set (tl v)" for v by (simp add: tl_def nul_notin_itoa split: option.split)
  have inj: "tl v = tl v' \<longleftrightarrow> v = v'" for v v'
    by (auto simp: tl_def itoa_inj split: option.splits dest: sym)
  have "dropWhile (\<lambda>c. c \<noteq> CHR 0x00) (rev (s @ CHR 0x00 # tl v)) = CHR 0x00 # rev s" for s v
    using nul [of v] by (simp, subst dropWhile_append2) auto
  then have "s @ CHR 0x00 # tl v = s' @ CHR 0x00 # tl v' \<Longrightarrow> rev s = rev s'" by (metis list.inject)
  then show ?thesis using inj by (auto simp: key)
qed

section \<open>Sessions of a script\<close>

text \<open>
  What a script can do with a registry in caching mode: fetch, register, and change a schema object it
  was given. \<open>ssGiven\<close> are the objects the script holds.
\<close>

record 'w session =
  ssRegistry :: SchemaRegistry
  ssMachine :: "'w machine"
  ssGiven :: "nat list"

datatype session_event =
    Fetch "Schema option"
  | Register "Schema option"
  | Subject "SubjectNameConfig option"
  | Write nat Schema

definition given :: "nat res \<Rightarrow> nat list" where
  "given r = (case r of Inl _ \<Rightarrow> [] | Inr a \<Rightarrow> [a])"

definition run_call :: "nat res \<times> SchemaRegistry \<times> 'w machine \<Rightarrow> 'w session \<Rightarrow> 'w session" where
  "run_call r s = (case r of (res, sr, m) \<Rightarrow>
     \<lparr>ssRegistry = sr, ssMachine = m, ssGiven = given res @ ssGiven s\<rparr>)"

fun session_step :: "'w outside \<Rightarrow> session_event \<Rightarrow> 'w session \<Rightarrow> 'w session" where
  "session_step ext (Fetch p) s = run_call (GetSchema ext p (ssRegistry s) (ssMachine s)) s"
| "session_step ext (Register p) s = run_call (CreateSchema ext p (ssRegistry s) (ssMachine s)) s"
| "session_step ext (Subject c) s = s\<lparr>ssRegistry := snd (GetSubjectName ext c (ssRegistry s))\<rparr>"
| "session_step ext (Write a x) s =
     (if a \<in> set (ssGiven s) then s\<lparr>ssMachine := (ssMachine s)\<lparr>mHeap := (mHeap (ssMachine s))[a := x]\<rparr>\<rparr> else s)"

text \<open>Fetching through \<open>getSchema\<close>, seen as a call that gives the schema's content.\<close>

definition fetch_call :: "'w outside \<Rightarrow> string \<times> int option \<Rightarrow> 'w session \<Rightarrow> Schema res \<times> 'w session" where
  "fetch_call ext k s =
     (let (r, sr, m) = getSchema ext (fst k) (snd k) (ssRegistry s) (ssMachine s)
      in (map_sum id (\<lambda>a. mHeap m ! a) r, run_call (r, sr, m) s))"

definition cached_schema :: "'w session \<Rightarrow> string \<times> int option \<Rightarrow> Schema option" where
  "cached_schema s k =
     map_option (\<lambda>a. mHeap (ssMachine s) ! a)
       (map_of (rgSchemaCache (ssRegistry s)) (schemaCacheKey (fst k) (snd k)))"

text \<open>Caching is on, every cached entry is an object of the store, and the script holds none of them.\<close>

definition session_ok :: "'w session \<Rightarrow> bool" where
  "session_ok s \<longleftrightarrow>
     rgConfig (ssRegistry s) \<noteq> None \<and> rgEnableCaching (ssRegistry s) \<and>
     (\<forall>a\<in>snd ` set (rgSchemaCache (ssRegistry s)). a < length (mHeap (ssMachine s)) \<and> a \<notin> set (ssGiven s)) \<and>
     (\<forall>a\<in>set (ssGiven s). a < length (mHeap (ssMachine s)))"

lemma alloc_simps [simp]:
  "fst (alloc s m) = length (mHeap m)" "mHeap (snd (alloc s m)) = mHeap m @ [s]" "mNet (snd (alloc s m)) = mNet m"
  by (simp_all add: alloc_def)

lemma copySchema_simps [simp]:
  "fst (copySchema a m) = length (mHeap m)" "mHeap (snd (copySchema a m)) = mHeap m @ [mHeap m ! a]"
  "mNet (snd (copySchema a m)) = mNet m"
  by (simp_all add: copySchema_def)

text \<open>What a fetch does, by cases: a hit, a failure, or a fresh answer that is stored and copied.\<close>

lemma getSchema_cases:
  assumes "rgConfig sr \<noteq> None" and "rgEnableCaching sr" and "getSchema ext subj ver sr m = (r, sr', m')"
  defines "key \<equiv> schemaCacheKey subj ver"
  obtains (hit) a where "map_of (rgSchemaCache sr) key = Some a" "r = Inr (length (mHeap m))" "sr' = sr"
      "mHeap m' = mHeap m @ [mHeap m ! a]" "mNet m' = mNet m"
  | (fail) e where "map_of (rgSchemaCache sr) key = None" "r = Inl e" "sr' = sr" "mHeap m' = mHeap m"
  | (fresh) x where "map_of (rgSchemaCache sr) key = None" "r = Inr (Suc (length (mHeap m)))"
      "sr' = sr\<lparr>rgSchemaCache := AList.update key (length (mHeap m)) (rgSchemaCache sr)\<rparr>"
      "mHeap m' = mHeap m @ [x, x]"
proof (cases "map_of (rgSchemaCache sr) key")
  case (Some a)
  with assms show thesis by (intro hit [of a]) (auto simp: getSchema_def Let_def case_prod_beta)
next
  case None
  from assms(1) obtain cfg where cfg: "rgConfig sr = Some cfg" by auto
  obtain q w where q: "requestSchema ext cfg (schema_path subj ver) sr (mNet m) = (q, w)" by fastforce
  show thesis
  proof (cases q)
    case (Inl e)
    with assms cfg q None show thesis by (intro fail [of e]) (auto simp: getSchema_def)
  next
    case (Inr x)
    with assms cfg q None show thesis
      by (intro fresh [of x]) (auto simp: getSchema_def Let_def case_prod_beta nth_append)
  qed
qed

lemma update_range: "snd ` set (AList.update k v al) \<subseteq> insert v (snd ` set al)"
  by (induction al) auto

lemma map_of_range: "map_of al k = Some a \<Longrightarrow> a \<in> snd ` set al"
  by (force dest: map_of_SomeD)

text \<open>Everything a step of a session must keep: the invariant and what is cached.\<close>

definition keeps :: "'w session \<Rightarrow> 'w session \<Rightarrow> bool" where
  "keeps s s' \<longleftrightarrow> session_ok s' \<and> (\<forall>k x. cached_schema s k = Some x \<longrightarrow> cached_schema s' k = Some x)"

text \<open>New objects in the store, given to the script or not, change nothing that is cached.\<close>

lemma keeps_extend:
  assumes "session_ok s" and "mHeap m' = mHeap (ssMachine s) @ new"
    and "rgConfig sr' = rgConfig (ssRegistry s)" "rgEnableCaching sr' = rgEnableCaching (ssRegistry s)"
    and "rgSchemaCache sr' = rgSchemaCache (ssRegistry s)"
    and "\<forall>a\<in>set g. length (mHeap (ssMachine s)) \<le> a \<and> a < length (mHeap m')"
  shows "keeps s \<lparr>ssRegistry = sr', ssMachine = m', ssGiven = g @ ssGiven s\<rparr>"
proof -
  have "map_of (rgSchemaCache (ssRegistry s)) k = Some a \<Longrightarrow> mHeap m' ! a = mHeap (ssMachine s) ! a" for k a
    using assms(1) map_of_range [of "rgSchemaCache (ssRegistry s)" k a]
    by (auto simp: session_ok_def assms(2) nth_append)
  then show ?thesis
    using assms unfolding keeps_def session_ok_def cached_schema_def by (auto simp: nth_append; fastforce)
qed

lemma fetch_keeps:
  assumes ok: "session_ok s" and g: "getSchema ext u v (ssRegistry s) (ssMachine s) = (r, sr', m')"
  shows "keeps s (run_call (r, sr', m') s) \<and>
    (\<forall>a. r = Inr a \<longrightarrow> cached_schema (run_call (r, sr', m') s) (u, v) = Some (mHeap m' ! a))"
proof -
  let ?H = "mHeap (ssMachine s)" and ?C = "rgSchemaCache (ssRegistry s)" and ?k = "schemaCacheKey u v"
  have c: "rgConfig (ssRegistry s) \<noteq> None" "rgEnableCaching (ssRegistry s)" using ok by (simp_all add: session_ok_def)
  have valid: "map_of ?C k = Some a \<Longrightarrow> a < length ?H" for k a
    using ok map_of_range [of ?C k a] by (auto simp: session_ok_def)
  from c g show ?thesis
  proof (cases rule: getSchema_cases)
    case (hit a)
    have "keeps s \<lparr>ssRegistry = sr', ssMachine = m', ssGiven = given r @ ssGiven s\<rparr>"
      using hit by (intro keeps_extend [OF ok]) (auto simp: given_def)
    then show ?thesis using hit valid by (simp add: run_call_def cached_schema_def nth_append)
  next
    case (fail e)
    have "keeps s \<lparr>ssRegistry = sr', ssMachine = m', ssGiven = given r @ ssGiven s\<rparr>"
      using fail by (intro keeps_extend [OF ok]) (auto simp: given_def)
    then show ?thesis using fail by (simp add: run_call_def)
  next
    case (fresh x)
    have "session_ok (run_call (r, sr', m') s)"
      using ok fresh update_range [of ?k "length ?H" ?C]
      by (auto simp: session_ok_def run_call_def given_def; fastforce)
    moreover have "cached_schema (run_call (r, sr', m') s) k = Some y" if "cached_schema s k = Some y" for k y
      using that fresh valid
      by (cases k) (auto simp: cached_schema_def run_call_def update_conv schemaCacheKey_inj nth_append)
    ultimately show ?thesis
      using fresh by (auto simp: keeps_def cached_schema_def run_call_def update_conv nth_append)
  qed
qed

lemma getSubjectName_frame:
  "snd (GetSubjectName ext c sr) = sr \<or> (\<exists>k. snd (GetSubjectName ext c sr) = snd (parsedAvro ext k sr))"
proof -
  have r: "snd (recordFullName ext k sr) = sr \<or> snd (recordFullName ext k sr) = snd (parsedAvro ext k sr)" for k
    by (cases "parsedAvro ext k sr") (auto simp: recordFullName_def split: sum.splits avro_schema.splits)
  show ?thesis
    using r by (auto simp: GetSubjectName_def getSubjectName_def case_prod_beta split: option.splits sum.splits)
qed

lemma create_keeps:
  assumes ok: "session_ok s" and c: "CreateSchema ext p (ssRegistry s) (ssMachine s) = (r, sr', m')"
  shows "keeps s (run_call (r, sr', m') s)"
proof -
  have cfg: "rgConfig (ssRegistry s) \<noteq> None" using ok by (simp add: session_ok_def)
  have cs: "sr' = ssRegistry s \<and> ((\<exists>e. r = Inl e) \<and> mHeap m' = mHeap (ssMachine s) \<or>
      (\<exists>x. r = Inr (length (mHeap (ssMachine s))) \<and> mHeap m' = mHeap (ssMachine s) @ [x]))"
    if "createSchema ext u x y (ssRegistry s) (ssMachine s) = (r, sr', m')" for u x y
  proof -
    obtain cfg where cfg': "rgConfig (ssRegistry s) = Some cfg" using cfg by auto
    obtain q w where q: "postSchema ext cfg u x y (ssRegistry s) (mNet (ssMachine s)) = (q, w)" by fastforce
    show ?thesis using that q cfg' by (cases q) (auto simp: createSchema_def Let_def case_prod_beta)
  qed
  have "sr' = ssRegistry s \<and> ((\<exists>e. r = Inl e) \<and> mHeap m' = mHeap (ssMachine s) \<or>
      (\<exists>x. r = Inr (length (mHeap (ssMachine s))) \<and> mHeap m' = mHeap (ssMachine s) @ [x]))"
    using c cfg by (auto simp: CreateSchema_def split: option.splits if_splits dest: cs)
  then have "keeps s \<lparr>ssRegistry = sr', ssMachine = m', ssGiven = given r @ ssGiven s\<rparr>"
    by (elim conjE disjE exE; intro keeps_extend [OF ok]) (auto simp: given_def)
  then show ?thesis by (simp add: run_call_def)
qed

lemma session_step_keeps:
  assumes "session_ok s"
  shows "keeps s (session_step ext ev s)"
proof (cases ev)
  case (Fetch p)
  have "GetSchema ext p (ssRegistry s) (ssMachine s) = (r, sr', m') \<Longrightarrow> keeps s (run_call (r, sr', m') s)" for r sr' m'
  proof -
    assume g: "GetSchema ext p (ssRegistry s) (ssMachine s) = (r, sr', m')"
    show "keeps s (run_call (r, sr', m') s)"
    proof (cases "\<exists>u v. getSchema ext u v (ssRegistry s) (ssMachine s) = (r, sr', m')")
      case True
      then show ?thesis using fetch_keeps [OF assms] by blast
    next
      case False
      then have "(\<exists>e. r = Inl e) \<and> sr' = ssRegistry s \<and> m' = ssMachine s"
        using g by (auto simp: GetSchema_def split: if_splits option.splits)
      then show ?thesis by (auto simp: run_call_def given_def intro!: keeps_extend [OF assms, where g = "[]", simplified])
    qed
  qed
  then show ?thesis by (cases "GetSchema ext p (ssRegistry s) (ssMachine s)") (simp add: Fetch)
next
  case (Register p)
  then show ?thesis
    using create_keeps [OF assms] by (cases "CreateSchema ext p (ssRegistry s) (ssMachine s)") simp
next
  case (Subject c)
  then show ?thesis
    using getSubjectName_frame [of ext c "ssRegistry s"] assms parsedAvro_frame [of ext _ "ssRegistry s"]
    by (auto simp: keeps_def session_ok_def cached_schema_def)
next
  case (Write a x)
  have "a \<in> set (ssGiven s) \<Longrightarrow> map_of (rgSchemaCache (ssRegistry s)) k = Some b \<Longrightarrow>
      (mHeap (ssMachine s))[a := x] ! b = mHeap (ssMachine s) ! b" for k b
    using assms map_of_range [of "rgSchemaCache (ssRegistry s)" k b]
    by (cases "b = a") (auto simp: session_ok_def)
  then show ?thesis
    using assms unfolding Write keeps_def session_ok_def cached_schema_def by auto
qed

interpretation schema_cache:
  cached_call "fetch_call ext" cached_schema "\<lambda>s. mNet (ssMachine s)" session_ok "session_step ext"
  for ext :: "'w outside"
proof (unfold_locales, goal_cases)
  case (1 s k)
  then show ?case using fetch_keeps [OF 1]
    by (cases "getSchema ext (fst k) (snd k) (ssRegistry s) (ssMachine s)") (auto simp: fetch_call_def keeps_def)
next
  case (2 s k v)
  obtain r sr' m' where g: "getSchema ext (fst k) (snd k) (ssRegistry s) (ssMachine s) = (r, sr', m')" by (rule prod_cases3)
  have c: "rgConfig (ssRegistry s) \<noteq> None" "rgEnableCaching (ssRegistry s)" using 2(1) by (simp_all add: session_ok_def)
  from c g show ?case
    by (cases rule: getSchema_cases) (use 2 g in \<open>auto simp: fetch_call_def cached_schema_def run_call_def\<close>)
next
  case (3 s k v)
  then show ?case using fetch_keeps [OF 3(1)]
    by (cases "getSchema ext (fst k) (snd k) (ssRegistry s) (ssMachine s)"; cases k)
       (auto simp: fetch_call_def split: sum.splits; case_tac a; simp)
next
  case (4 s ev)
  then show ?case using session_step_keeps by (auto simp: keeps_def)
next
  case (5 s k v ev)
  then show ?case using session_step_keeps [OF 5(1)] unfolding keeps_def by blast
qed

section \<open>Properties\<close>

text \<open>C17: A schema fetched with caching on stays what it was: after any session of the script, whatever it
  fetches and registers in between, whatever names it computes and however it overwrites the
  schema objects it was given, fetching the same subject and version again returns the same schema
  and makes no request.\<close>

theorem cached_schema_stable:
  assumes "session_ok s" and "fst (fetch_call ext (subject, version) s) = Inr x"
    and "s' = fold (session_step ext) evs (snd (fetch_call ext (subject, version) s))"
  shows "fst (fetch_call ext (subject, version) s') = Inr x \<and>
         mNet (ssMachine (snd (fetch_call ext (subject, version) s'))) = mNet (ssMachine s')"
  by (rule schema_cache.call_stable [OF assms])

text \<open>A registry on a network that counts its requests and always answers with the same schema.\<close>

definition demo_required :: string where
  "demo_required = print_json (JObj [(''required'', JArr [JStr ''id''])])"

definition demo_schema :: Schema where
  "demo_schema = \<lparr>sID = 7, sSubject = ''s'', sVersion = 1, sSchema = demo_required, sSchemaType = ''AVRO''\<rparr>"

definition demo_answer :: json where
  "demo_answer = JObj [(''id'', JNum (itoa 7)), (''subject'', JStr ''s''), (''version'', JNum (itoa 1)),
     (''schema'', JStr demo_required), (''schemaType'', JStr ''AVRO'')]"

definition demo_outside :: "nat outside" where
  "demo_outside = \<lparr>newRequestErr = (\<lambda>_. None),
     httpDo = (\<lambda>c r n. (Inr \<lparr>hsStatus = 200, hsBody = string_bytes (print_json demo_answer)\<rparr>, n + 1)),
     avroParse = (\<lambda>_ _. Inl Canceled), jsOther = (\<lambda>_. Inl Canceled), lowerUnicode = id, intOverflow = 0\<rparr>"

lemma utf8_ascii: "list_all (\<lambda>c. (of_char c :: nat) < 128) s \<Longrightarrow> utf8Valid (string_bytes s)"
proof (induction s)
  case (Cons c s)
  then have "scalar (of_char c)" by (simp add: scalar_def)
  moreover from this have "string_bytes (c # s) = encodeRune (of_char c) @ string_bytes s"
    using Cons.prems by (simp add: string_bytes_def encodeRune_def encode_nat_def)
  ultimately show ?case using Cons by (simp add: utf8Valid_encode)
qed (simp add: string_bytes_def)

lemma demo_required_text: "demo_required = ''{\"required\":[\"id\"]}''"
  by (simp add: demo_required_def quote_string_def plain_text html_safe_def)

lemma demo_required_valid: "utf8Valid (string_bytes demo_required)"
  by (rule utf8_ascii) (simp add: demo_required_text)

lemma demo_answer_decodes:
  "json_Decode_Schema (string_bytes (print_json demo_answer)) = Inr demo_schema"
  "\<exists>m. json_Decode (string_bytes (print_json demo_answer)) = Inr m \<and>
       map_of m ''id'' = Some (GFloat64 (Fin 7)) \<and> map_of m ''version'' = Some (GFloat64 (Fin 1))"
proof -
  have "wf_json maxNestingDepth demo_answer"
    by (simp add: demo_answer_def maxNestingDepth_def scan_itoa demo_required_valid utf8_ascii)
  note p = parse_document(2) [OF this]
  have f: "schema_field k = Some k" if "k \<in> set schema_tags" for k using that by (simp add: schema_field_def)
  have "json_int (itoa 7) = Some 7" "json_int (itoa 1) = Some 1" by (simp_all add: json_int_itoa in_int64_def int_limits)
  then show "json_Decode_Schema (string_bytes (print_json demo_answer)) = Inr demo_schema"
    unfolding json_Decode_Schema_def p
    by (simp add: demo_answer_def to_schema_members member_ok_def f schema_tags_def schema_of_members_def field_values_def
        last_int_def last_string_def demo_schema_def)
  have "parseFloat (itoa 7) = Some (Fin 7)" "parseFloat (itoa 1) = Some (Fin 1)"
    using f64_of_int_exact [of 7] f64_of_int_exact [of 1] by (simp_all add: parse_itoa)
  then show "\<exists>m. json_Decode (string_bytes (print_json demo_answer)) = Inr m \<and>
       map_of m ''id'' = Some (GFloat64 (Fin 7)) \<and> map_of m ''version'' = Some (GFloat64 (Fin 1))"
    unfolding json_Decode_def p by (simp add: demo_answer_def to_map_def put_all_def)
qed

definition demo_registry_config :: SchemaRegistryConfig where
  "demo_registry_config = \<lparr>scURL = ''http://r'', scBasicAuth = None, scTLS = None, scEnableCaching = True\<rparr>"

definition demo_registry :: SchemaRegistry where
  "demo_registry = \<lparr>rgVU = None, rgConfig = Some demo_registry_config,
     rgClient = Some \<lparr>hcTimeout = schemaRegistryTimeout, hcTLS = None\<rparr>, rgEnableCaching = True, rgSchemaCache = [],
     rgAvroCache = Some [], rgParses = 0\<rparr>"

definition demo_session :: "nat session" where
  "demo_session = \<lparr>ssRegistry = demo_registry, ssMachine = \<lparr>mHeap = [], mNet = 0\<rparr>, ssGiven = []\<rparr>"

lemmas demo_registry_defs = demo_answer_decodes(1) demo_schema_def demo_outside_def demo_registry_config_def demo_registry_def demo_session_def

theorem cached_schema_stable_witness:
  "fst (fetch_call demo_outside (''s'', None)
      (fold (session_step demo_outside) [Write 1 (demo_schema\<lparr>sID := 99\<rparr>), Fetch (Some demo_schema)]
        (snd (fetch_call demo_outside (''s'', None) demo_session)))) = Inr demo_schema"
  by (rule cached_schema_stable [THEN conjunct1, OF _ _ refl, of demo_session])
     (simp_all add: session_ok_def fetch_call_def getSchema_def requestSchema_def demo_registry_defs Let_def alloc_def
       copySchema_def schemaCacheKey_def schema_path_def)

text \<open>Two cache keys coincide only for the same subject and the same version (or both times the
  latest), whatever bytes a subject holds.\<close>

theorem cache_keys_distinct:
  "schemaCacheKey s v = schemaCacheKey s' v' \<longleftrightarrow> s = s' \<and> v = v'"
  by (rule schemaCacheKey_inj)

definition parse_all :: "'w outside \<Rightarrow> string list \<Rightarrow> SchemaRegistry \<Rightarrow> SchemaRegistry" where
  "parse_all ext texts sr = fold (\<lambda>t r. snd (parsedAvro ext t r)) texts sr"

lemma parsedAvro_failed:
  assumes "fst (parsedAvro ext t sr) = Inl err"
  shows "snd (parsedAvro ext t sr) = sr\<lparr>rgParses := rgParses sr + 1\<rparr>"
    and "fst (parsedAvro ext t (snd (parsedAvro ext t sr))) = avroParse ext (rgParses sr + 1) t"
  using assms by (auto simp: parsedAvro_def Let_def split: option.splits sum.splits)

text \<open>A parser that always says the same of a text is asked about, or its first answer is reused.\<close>

lemma parse_all_answers:
  assumes "\<And>n. avroParse ext n t = x" and "known_schema ext r t = x"
  shows "known_schema ext (parse_all ext ts r) t = x"
proof -
  have one: "known_schema ext (snd (parsedAvro ext u q)) t = x" if "known_schema ext q t = x" for u q
    using that assms(1)
    by (cases "rgAvroCache q")
       (auto simp: parsedAvro_def known_schema_def Let_def update_conv split: option.splits sum.splits)
  show ?thesis using assms(2) by (induction ts arbitrary: r) (simp_all add: parse_all_def one)
qed

text \<open>C36: The first parse of an Avro schema that succeeds is kept: whatever texts are parsed afterwards, and whatever
  the parser would say of the text by then, it gives the same schema again without calling the parser. A parse that fails
  leaves nothing behind but the call, and the next attempt asks the parser again. For a text of which the parser always says
  the same, reuse is therefore invisible: every call answers what the parser says, failures included.\<close>

theorem avro_reuse_neutral:
  assumes "rgAvroCache sr \<noteq> None"
  shows "let (res, sr1) = parsedAvro ext t sr; sr2 = parse_all ext texts sr1 in
           (\<forall>p. res = Inr p \<longrightarrow> parsedAvro ext t sr2 = (Inr p, sr2)) \<and>
           (\<forall>err. res = Inl err \<longrightarrow> sr1 = sr\<lparr>rgParses := rgParses sr + 1\<rparr> \<and>
              fst (parsedAvro ext t sr1) = avroParse ext (rgParses sr + 1) t) \<and>
           ((\<forall>n. avroParse ext n t = x) \<and> rgAvroCache sr = Some [] \<longrightarrow> fst (parsedAvro ext t (parse_all ext texts sr)) = x)"
proof -
  let ?first = "parsedAvro ext t sr"
  have "parsedAvro ext t (parse_all ext texts (snd ?first)) = (Inr p, parse_all ext texts (snd ?first))" if "fst ?first = Inr p" for p
    using avro_cache.call_stable [OF assms(1) _ refl, of ext t p texts] that
    by (simp add: prod_eq_iff parse_all_def)
  moreover have "fst (parsedAvro ext t (parse_all ext texts sr)) = x"
    if "\<forall>n. avroParse ext n t = x" "rgAvroCache sr = Some []"
    using parse_all_answers [of ext t x sr texts] that by (simp add: parsedAvro_known known_schema_def)
  ultimately show ?thesis using parsedAvro_failed [of ext t sr] by (auto simp: Let_def case_prod_beta)
qed

text \<open>A parser that changes its mind about everything after its first call.\<close>

definition demo_fickle :: "nat outside" where
  "demo_fickle = demo_outside\<lparr>avroParse := (\<lambda>n _. Inr (\<lambda>_. AEnum ''e'' [], if n = 0 then APrim AvroInt else APrim AvroLong))\<rparr>"

theorem avro_reuse_neutral_witness:
  "fst (parsedAvro demo_fickle ''x'' (parse_all demo_fickle [''y'', ''x''] (snd (parsedAvro demo_fickle ''x'' demo_registry)))) =
     Inr (\<lambda>_. AEnum ''e'' [], APrim AvroInt) \<and>
   avroParse demo_fickle 1 ''x'' = Inr (\<lambda>_. AEnum ''e'' [], APrim AvroLong)"
proof -
  have "fst (parsedAvro demo_fickle ''x'' demo_registry) = Inr (\<lambda>_. AEnum ''e'' [], APrim AvroInt)"
    by (simp add: parsedAvro_known known_schema_def demo_registry_defs demo_fickle_def)
  moreover have "rgAvroCache demo_registry \<noteq> None" by (simp add: demo_registry_defs)
  ultimately have "fst (parsedAvro demo_fickle ''x'' (parse_all demo_fickle [''y'', ''x''] (snd (parsedAvro demo_fickle ''x'' demo_registry)))) =
     Inr (\<lambda>_. AEnum ''e'' [], APrim AvroInt)"
    using avro_reuse_neutral [of demo_registry demo_fickle "''x''" "[''y'', ''x'']"] by (simp only: Let_def case_prod_beta) simp
  then show ?thesis by (simp add: demo_fickle_def)
qed

text \<open>The body of a registration: an object of two strings, which is what it is read back as.\<close>

definition registration :: "string \<Rightarrow> string \<Rightarrow> gval" where
  "registration schemaStr schemaType = GMap [(''schema'', GString schemaStr), (''schemaType'', GString schemaType)]"

lemma registration_ok: "\<exists>body. json_Marshal oth (registration a b) = Inr body"
proof -
  have "seq_res (map (\<lambda>(k, r). map_sum id (f k) r) kvs) = Inr (map (\<lambda>(k, r). f k (projr r)) kvs)"
    if "list_all (\<lambda>(k, r). is_ok r) kvs" for f :: "string \<Rightarrow> string \<Rightarrow> string" and kvs :: "(string \<times> string res) list"
    using that by (induction kvs) (auto simp: is_ok_iff)
  note s = this
  have "list_all (\<lambda>(k, r). is_ok r) (sort_key fst [(''schema'', Inr x), (''schemaType'', Inr y :: string res)])" for x y
    by (simp add: list_all_iff)
  from s [OF this, of "\<lambda>k t. quote_string k @ CHR '':'' # t"] show ?thesis
    by (simp add: registration_def json_Marshal_def)
qed

lemma registration_decodes:
  assumes "utf8Valid (string_bytes a)" and "utf8Valid (string_bytes b)" and "json_Marshal oth (registration a b) = Inr body"
  shows "\<exists>m. json_Unmarshal body = Inr m \<and> map_of m = [''schema'' \<mapsto> GString a, ''schemaType'' \<mapsto> GString b]"
proof -
  have c: "json_clean maxNestingDepth (registration a b)"
    using assms by (simp add: registration_def maxNestingDepth_def utf8_ascii)
  have "json_Unmarshal body = Inr (sort_key fst [(''schema'', GString a), (''schemaType'', GString b)])"
    using marshal_unmarshal_map [of "[(''schema'', GString a), (''schemaType'', GString b)]" oth] c assms(3)
    by (simp add: registration_def)
  moreover have "map_of (sort_key fst [(''schema'', GString a), (''schemaType'', GString b)]) =
      [''schema'' \<mapsto> GString a, ''schemaType'' \<mapsto> GString b]"
    by (subst map_of_sorted) (auto simp: fun_eq_iff)
  ultimately show ?thesis by blast
qed

text \<open>One registration over the network: the request, and the answer it reports.\<close>

definition registered ::
  "'w outside \<Rightarrow> SchemaRegistryConfig \<Rightarrow> string \<Rightarrow> string \<Rightarrow> string \<Rightarrow> SchemaRegistry \<Rightarrow> 'w \<Rightarrow> int \<Rightarrow> int \<Rightarrow> 'w \<Rightarrow> bool" where
  "registered ext cfg subject schemaStr schemaType sr w i v w' \<longleftrightarrow>
     (\<exists>body resp d f. json_Marshal (jsOther ext) (registration schemaStr schemaType) = Inr body \<and>
        newRequestErr ext (scURL cfg @ ''/subjects/'' @ subject @ ''/versions'') = None \<and>
        httpDo ext (the (rgClient sr)) \<lparr>hqMethod = ''POST'', hqURL = scURL cfg @ ''/subjects/'' @ subject @ ''/versions'',
            hqContext = reqContext sr, hqAuth = scBasicAuth cfg,
            hqContentType = ''application/vnd.schemaregistry.v1+json'', hqBody = body\<rparr> w = (Inr resp, w') \<and>
        hsStatus resp = 200 \<and> json_Decode (hsBody resp) = Inr d \<and>
        map_of d ''id'' = Some (GFloat64 f) \<and> i = int64_of_float (intOverflow ext) f \<and>
        v = (case map_of d ''version'' of Some (GFloat64 g) \<Rightarrow> int64_of_float (intOverflow ext) g | _ \<Rightarrow> 0))"

lemma postSchema_registered:
  "postSchema ext cfg subject schemaStr schemaType sr w = (Inr (i, v), w') \<longleftrightarrow>
     registered ext cfg subject schemaStr schemaType sr w i v w'"
proof -
  obtain body where b: "json_Marshal (jsOther ext) (registration schemaStr schemaType) = Inr body" using registration_ok by blast
  let ?u = "scURL cfg @ ''/subjects/'' @ subject @ ''/versions''"
  obtain r w1 where h: "httpDo ext (the (rgClient sr)) \<lparr>hqMethod = ''POST'', hqURL = ?u, hqContext = reqContext sr,
      hqAuth = scBasicAuth cfg, hqContentType = ''application/vnd.schemaregistry.v1+json'', hqBody = body\<rparr> w = (r, w1)" by fastforce
  show ?thesis
    using b h unfolding registered_def postSchema_def registration_def
    by (cases "newRequestErr ext ?u"; cases r)
      (auto simp: Let_def split: sum.splits option.splits gval.splits if_splits)
qed

text \<open>C37: Registering a schema makes exactly one request, a POST to the subject with the configured credentials,
  whose body is read as the object of the given text and type (texts that are valid UTF-8). It returns a
  new object with the subject, text and type it was given and the identifier (and version, 0 when
  it is not reported) of the registry's answer, and leaves the registry's state and both caches as they
  were. Without a registry configuration, or with an empty subject, text or type, it fails without a request.\<close>

theorem create_schema_echoes:
  "(case CreateSchema ext p sr m of (r, sr', m') \<Rightarrow>
      sr' = sr \<and>
      (\<forall>a. r = Inr a \<longrightarrow> (\<exists>cfg s i v. p = Some s \<and> rgConfig sr = Some cfg \<and>
         registered ext cfg (sSubject s) (sSchema s) (sSchemaType s) sr (mNet m) i v (mNet m') \<and>
         a = length (mHeap m) \<and> mHeap m' = mHeap m @ [\<lparr>sID = i, sSubject = sSubject s, sVersion = v, sSchema = sSchema s, sSchemaType = sSchemaType s\<rparr>])) \<and>
      (rgConfig sr = None \<or> p = None \<or> sSubject (the p) = '''' \<or> sSchema (the p) = '''' \<or> sSchemaType (the p) = '''' \<longrightarrow>
         (\<exists>e. r = Inl e) \<and> m' = m)) \<and>
   (utf8Valid (string_bytes x) \<and> utf8Valid (string_bytes t) \<and> json_Marshal (jsOther ext) (registration x t) = Inr body \<longrightarrow>
      (\<exists>d. json_Unmarshal body = Inr d \<and> map_of d = [''schema'' \<mapsto> GString x, ''schemaType'' \<mapsto> GString t]))"
proof -
  have "case createSchema ext u x y sr m of (r, sr', m') \<Rightarrow> sr' = sr \<and> (\<forall>a. r = Inr a \<longrightarrow> (\<exists>i v.
      registered ext cfg u x y sr (mNet m) i v (mNet m') \<and> a = length (mHeap m) \<and>
      mHeap m' = mHeap m @ [\<lparr>sID = i, sSubject = u, sVersion = v, sSchema = x, sSchemaType = y\<rparr>]))"
    if "rgConfig sr = Some cfg" for cfg u x y
  proof -
    obtain q w where q: "postSchema ext cfg u x y sr (mNet m) = (q, w)" by fastforce
    then show ?thesis
      using that by (cases q) (auto simp: createSchema_def Let_def alloc_def postSchema_registered [symmetric])
  qed
  then have "case CreateSchema ext p sr m of (r, sr', m') \<Rightarrow>
      sr' = sr \<and>
      (\<forall>a. r = Inr a \<longrightarrow> (\<exists>cfg s i v. p = Some s \<and> rgConfig sr = Some cfg \<and>
         registered ext cfg (sSubject s) (sSchema s) (sSchemaType s) sr (mNet m) i v (mNet m') \<and>
         a = length (mHeap m) \<and> mHeap m' = mHeap m @ [\<lparr>sID = i, sSubject = sSubject s, sVersion = v, sSchema = sSchema s, sSchemaType = sSchemaType s\<rparr>])) \<and>
      (rgConfig sr = None \<or> p = None \<or> sSubject (the p) = '''' \<or> sSchema (the p) = '''' \<or> sSchemaType (the p) = '''' \<longrightarrow>
         (\<exists>e. r = Inl e) \<and> m' = m)"
    by (cases p; cases "rgConfig sr") (auto simp: CreateSchema_def split: prod.splits)
  then show ?thesis by (rule conjI) (use registration_decodes [of x t "jsOther ext" body] in blast)
qed

theorem create_schema_echoes_witness:
  "mHeap (snd (snd (CreateSchema demo_outside (Some demo_schema) demo_registry \<lparr>mHeap = [], mNet = 0\<rparr>))) = [demo_schema] \<and>
   (\<exists>body d. json_Marshal (jsOther demo_outside) (registration demo_required ''AVRO'') = Inr body \<and>
      json_Unmarshal body = Inr d \<and> map_of d ''schema'' = Some (GString demo_required))"
proof -
  obtain body where b: "json_Marshal (\<lambda>_. Inl Canceled) (registration demo_required ''AVRO'') = Inr body"
    using registration_ok by blast
  obtain d where d: "json_Decode (string_bytes (print_json demo_answer)) = Inr d"
    "map_of d ''id'' = Some (GFloat64 (Fin 7))" "map_of d ''version'' = Some (GFloat64 (Fin 1))"
    using demo_answer_decodes(2) by blast
  have post: "postSchema demo_outside demo_registry_config ''s'' demo_required ''AVRO'' demo_registry 0 = (Inr (7, 1), 1)"
    by (simp add: postSchema_def demo_registry_defs b [unfolded registration_def] d Let_def int64_of_float_def in_int64_def int_limits f_int_def)
  have only: "registered demo_outside demo_registry_config ''s'' demo_required ''AVRO'' demo_registry 0 i v w \<Longrightarrow> i = 7 \<and> v = 1" for i v w
    using post by (simp add: postSchema_registered [symmetric])
  have "demo_required \<noteq> []" by (simp add: demo_required_text)
  then have "fst (CreateSchema demo_outside (Some demo_schema) demo_registry \<lparr>mHeap = [], mNet = 0\<rparr>) = Inr 0"
    using post by (simp add: CreateSchema_def createSchema_def demo_registry_def demo_schema_def Let_def alloc_def)
  moreover have "utf8Valid (string_bytes demo_required)" "utf8Valid (string_bytes ''AVRO'')"
    by (simp_all add: demo_required_valid utf8_ascii)
  moreover have "jsOther demo_outside = (\<lambda>_. Inl Canceled)" "rgConfig demo_registry = Some demo_registry_config"
    by (simp_all add: demo_outside_def demo_registry_def)
  ultimately show ?thesis
    using create_schema_echoes [where ext = demo_outside and p = "Some demo_schema" and sr = demo_registry
      and m = "\<lparr>mHeap = [], mNet = 0\<rparr>" and x = demo_required and t = "''AVRO''" and body = body] b
    by (auto simp: demo_schema_def split: prod.splits dest!: only)
qed

lemma tlsConfigFrom_err: "tlsConfigFrom cr tls = Inl e \<Longrightarrow> \<not> tls_material_ok cr tls"
  using tlsConfigFrom_ok [of cr tls "tls_config_spec tls"] by auto

text \<open>C38: A registry client is built exactly when there is no configuration (standalone: no client, nothing is
  requested), or when the URL is not empty, the TLS material is usable and the registry answers the
  authenticated connectivity check with a 2xx status. It then carries the configured caching, the
  60-second timeout and exactly the configured TLS settings, whatever \<open>enableTls\<close> says, and starts with
  empty caches.\<close>

theorem registry_construction:
  "NewSchemaRegistry ext cr vuo config w = (Inr sr, w') \<longleftrightarrow>
     (config = None \<and> w' = w \<and>
        sr = \<lparr>rgVU = vuo, rgConfig = None, rgClient = None, rgEnableCaching = False, rgSchemaCache = [], rgAvroCache = Some [],
              rgParses = 0\<rparr>) \<or>
     (\<exists>cfg hc resp. config = Some cfg \<and> scURL cfg \<noteq> '''' \<and> hcTimeout hc = 60 * 1000000000 \<and>
        (case scTLS cfg of None \<Rightarrow> hcTLS hc = None
         | Some tls \<Rightarrow> tls_material_ok cr tls \<and> hcTLS hc = Some (tls_config_spec tls)) \<and>
        newRequestErr ext (scURL cfg @ ''/config'') = None \<and>
        httpDo ext hc \<lparr>hqMethod = ''GET'', hqURL = scURL cfg @ ''/config'', hqContext = vuContext vuo,
                       hqAuth = scBasicAuth cfg, hqContentType = '''', hqBody = []\<rparr> w = (Inr resp, w') \<and>
        200 \<le> hsStatus resp \<and> hsStatus resp < 300 \<and>
        sr = \<lparr>rgVU = vuo, rgConfig = Some cfg, rgClient = Some hc, rgEnableCaching = scEnableCaching cfg,
              rgSchemaCache = [], rgAvroCache = Some [], rgParses = 0\<rparr>)"
proof (cases config)
  case None
  then show ?thesis by (auto simp: NewSchemaRegistry_def)
next
  case (Some cfg)
  define hc where "hc t = \<lparr>hcTimeout = 60 * 1000000000, hcTLS = t\<rparr>" for t
  have hc_eq: "h = hc t \<longleftrightarrow> hcTimeout h = 60 * 1000000000 \<and> hcTLS h = t" for h t
    by (cases h) (simp add: hc_def)
  have eq: "NewSchemaRegistry ext cr vuo config w = (Inr sr, w') \<longleftrightarrow>
      (\<exists>h resp. scURL cfg \<noteq> '''' \<and>
        (case scTLS cfg of None \<Rightarrow> h = hc None | Some tls \<Rightarrow> tls_material_ok cr tls \<and> h = hc (Some (tls_config_spec tls))) \<and>
        newRequestErr ext (scURL cfg @ ''/config'') = None \<and>
        httpDo ext h \<lparr>hqMethod = ''GET'', hqURL = scURL cfg @ ''/config'', hqContext = vuContext vuo,
                       hqAuth = scBasicAuth cfg, hqContentType = '''', hqBody = []\<rparr> w = (Inr resp, w') \<and>
        200 \<le> hsStatus resp \<and> hsStatus resp < 300 \<and>
        sr = \<lparr>rgVU = vuo, rgConfig = Some cfg, rgClient = Some h, rgEnableCaching = scEnableCaching cfg,
              rgSchemaCache = [], rgAvroCache = Some [], rgParses = 0\<rparr>)"
    by (cases "scTLS cfg"; cases "newRequestErr ext (scURL cfg @ ''/config'')")
       (auto simp: NewSchemaRegistry_def Some Let_def case_prod_beta hc_def schemaRegistryTimeout_def
          tlsConfigFrom_ok prod_eq_iff dest: tlsConfigFrom_err split: sum.splits if_splits)
  show ?thesis
    unfolding eq by (cases "scTLS cfg") (simp add: Some hc_eq; blast)+
qed

text \<open>The initial session of a caching registry satisfies the invariant of sessions.\<close>

lemma initial_session_ok:
  assumes "NewSchemaRegistry ext cr vuo (Some cfg) w = (Inr sr, w')" and "scEnableCaching cfg"
  shows "session_ok \<lparr>ssRegistry = sr, ssMachine = \<lparr>mHeap = [], mNet = w'\<rparr>, ssGiven = []\<rparr>"
  using assms by (auto simp: NewSchemaRegistry_def Let_def case_prod_beta session_ok_def split: sum.splits option.splits if_splits)

text \<open>Without caching, a fetch asks the registry once, under the path of the subject and the version (or
  the latest), with the configured credentials, and gives exactly the schema it answers; any status but 200,
  a failed request and an undecodable body are errors, and nothing is cached. Without a subject or a
  registry configuration nothing is requested.\<close>

theorem fetch_uncached:
  assumes "rgConfig sr = Some cfg" and "rgEnableCaching sr = False" and "sSubject p \<noteq> ''''"
    and "GetSchema ext (Some p) sr m = (r, sr', m')"
  defines "path \<equiv> ''/subjects/'' @ sSubject p @ ''/versions/'' @ (if sVersion p > 0 then itoa (sVersion p) else ''latest'')"
  shows "sr' = sr \<and>
         (is_ok r \<longleftrightarrow> newRequestErr ext (scURL cfg @ path) = None \<and>
           (\<exists>resp w x. httpDo ext (the (rgClient sr)) \<lparr>hqMethod = ''GET'', hqURL = scURL cfg @ path, hqContext = reqContext sr,
               hqAuth = scBasicAuth cfg, hqContentType = '''', hqBody = []\<rparr> (mNet m) = (Inr resp, w) \<and>
             hsStatus resp = 200 \<and> json_Decode_Schema (hsBody resp) = Inr x \<and>
             r = Inr (length (mHeap m)) \<and> mHeap m' = mHeap m @ [x] \<and> mNet m' = w))"
proof -
  let ?v = "if sVersion p > 0 then Some (sVersion p) else None"
  let ?req = "\<lparr>hqMethod = ''GET'', hqURL = scURL cfg @ path, hqContext = reqContext sr,
               hqAuth = scBasicAuth cfg, hqContentType = '''', hqBody = []\<rparr>"
  have pa: "schema_path (sSubject p) ?v = path" by (simp add: schema_path_def path_def)
  have g: "(r, sr', m') = getSchema ext (sSubject p) ?v sr m"
    using assms(1,3,4) by (simp add: GetSchema_def)
  obtain q w where q: "requestSchema ext cfg path sr (mNet m) = (q, w)" by fastforce
  have rq: "q = Inr x \<longleftrightarrow> newRequestErr ext (scURL cfg @ path) = None \<and>
      (\<exists>resp. httpDo ext (the (rgClient sr)) ?req (mNet m) = (Inr resp, w) \<and> hsStatus resp = 200 \<and> json_Decode_Schema (hsBody resp) = Inr x)" for x
    using q by (auto simp: requestSchema_def Let_def case_prod_beta prod_eq_iff split: option.splits sum.splits if_splits)
  show ?thesis
  proof (cases q)
    case (Inl e)
    then have r: "r = Inl e" "sr' = sr" using g assms(1,2) q unfolding pa getSchema_def by (simp_all add: Let_def)
    have "\<not> (\<exists>x. q = Inr x)" using Inl by simp
    then show ?thesis using r unfolding rq by auto
  next
    case (Inr x)
    then have r: "r = Inr (length (mHeap m))" "sr' = sr" "mHeap m' = mHeap m @ [x]" "mNet m' = w"
      using g assms(1,2) q unfolding pa getSchema_def by (simp_all add: Let_def alloc_def)
    show ?thesis using r iffD1 [OF rq Inr] by auto
  qed
qed

theorem fetch_uncached_witness:
  "is_ok (fst (GetSchema demo_outside (Some demo_schema) (demo_registry\<lparr>rgEnableCaching := False\<rparr>) \<lparr>mHeap = [], mNet = 0\<rparr>))"
proof -
  let ?r = "GetSchema demo_outside (Some demo_schema) (demo_registry\<lparr>rgEnableCaching := False\<rparr>) \<lparr>mHeap = [], mNet = 0\<rparr>"
  obtain r sr' m' where g: "?r = (r, sr', m')" by (rule prod_cases3)
  have "r = Inr 0 \<and> mHeap m' = [demo_schema] \<and> mNet m' = 1"
    using g by (auto simp: GetSchema_def getSchema_def requestSchema_def demo_registry_defs Let_def alloc_def)
  then show ?thesis
    using fetch_uncached [OF _ _ _ g, of demo_registry_config] g
    by (auto simp: demo_registry_defs)
qed

text \<open>What the record-name strategies need of a schema text.\<close>

definition record_name :: "'w outside \<Rightarrow> SchemaRegistry \<Rightarrow> string \<Rightarrow> string option" where
  "record_name ext sr t =
     (if t = '''' then None
      else case known_schema ext sr t of Inr (_, ANamed n) \<Rightarrow> Some (fullName n) | _ \<Rightarrow> None)"

lemma recordFullName_spec:
  "fst (recordFullName ext t sr) = Inr n \<longleftrightarrow> record_name ext sr t = Some n"
  using parsedAvro_known [of ext t sr]
  by (cases "parsedAvro ext t sr")
     (auto simp: recordFullName_def record_name_def split: sum.splits avro_schema.splits prod.splits)

text \<open>C40: Subject names follow the strategy: topic and lower-cased element by default (the schema is
  ignored), the full name of the named Avro schema for the record strategy, topic and full name for
  the combined one. The call fails exactly without a topic or an element, for an unknown
  strategy, or when a record strategy has no parseable named schema; the schema of a text is the one the
  registry client has parsed for it before, if any, and else what the parser makes of it.\<close>

theorem subject_name_strategies:
  shows "fst (GetSubjectName ext config sr) = Inr name \<longleftrightarrow>
    (\<exists>c. config = Some c \<and> snTopic c \<noteq> '''' \<and> snElement c \<noteq> '''' \<and>
       (snStrategy c \<in> {'''', ''TopicNameStrategy''} \<and> name = snTopic c @ ''-'' @ toLower ext (snElement c) \<or>
        snStrategy c = ''RecordNameStrategy'' \<and> record_name ext sr (snSchema c) = Some name \<or>
        snStrategy c = ''TopicRecordNameStrategy'' \<and>
          (\<exists>n. record_name ext sr (snSchema c) = Some n \<and> name = snTopic c @ ''-'' @ n)))"
proof -
  note r = recordFullName_spec [of ext _ sr]
  have g: "fst (getSubjectName ext t el st sch sr) = Inr name \<longleftrightarrow>
      (st \<in> {'''', ''TopicNameStrategy''} \<and> name = t @ ''-'' @ toLower ext el \<or>
       st = ''RecordNameStrategy'' \<and> record_name ext sr sch = Some name \<or>
       st = ''TopicRecordNameStrategy'' \<and> (\<exists>n. record_name ext sr sch = Some n \<and> name = t @ ''-'' @ n))" for t el st sch
    using r [of sch] by (cases "recordFullName ext sch sr") (auto simp: getSubjectName_def split: sum.splits)
  show ?thesis by (cases config) (simp_all add: GetSubjectName_def g)
qed

theorem subject_name_strategies_witness:
  "fst (GetSubjectName demo_outside (Some \<lparr>snTopic = ''orders'', snElement = ''VALUE'', snStrategy = '''', snSchema = ''''\<rparr>) demo_registry)
     = Inr (''orders-'' @ toLower demo_outside ''VALUE'')"
  by (simp add: subject_name_strategies)

text \<open>C39: What a fetch makes of the registry's answer: an object gives the schema whose fields are the last values
  given to \<open>id\<close>, \<open>subject\<close>, \<open>version\<close>, \<open>schema\<close> and \<open>schemaType\<close> under any spelling up to case, zero for the
  missing or null ones, other members ignored; a fraction, an integer outside 64 bits or a value of another
  type in one of these fields is an error.\<close>

theorem registry_answer_fields:
  assumes "newRequestErr ext (scURL cfg @ path) = None"
    and "httpDo ext (the (rgClient sr)) \<lparr>hqMethod = ''GET'', hqURL = scURL cfg @ path, hqContext = reqContext sr,
            hqAuth = scBasicAuth cfg, hqContentType = '''', hqBody = []\<rparr> w = (Inr resp, w')"
    and "hsStatus resp = 200" and "hsBody resp = string_bytes (print_json (JObj kvs))" and "wf_json maxNestingDepth (JObj kvs)"
  shows "requestSchema ext cfg path sr w =
     (if list_all member_ok kvs then Inr (schema_of_members kvs)
      else Inl (Wrapf ''SchemaRegistry: failed to decode response: %w'' [] json_error), w')"
  using assms parse_document(2) [OF assms(5)] unfolding json_Decode_Schema_def requestSchema_def
  by (simp add: Let_def to_schema_members json_Decode_Schema_def del: print_json.simps)

theorem registry_answer_fields_witness:
  "requestSchema (demo_outside\<lparr>httpDo := (\<lambda>_ _ n. (Inr \<lparr>hsStatus = 200,
        hsBody = string_bytes (print_json (JObj [(''ID'', JNum (itoa 5)), (''other'', JNull), (''subject'', JStr ''t''), (''id'', JNull)]))\<rparr>, n))\<rparr>)
     demo_registry_config ''/p'' demo_registry 0 =
     (Inr \<lparr>sID = 5, sSubject = ''t'', sVersion = 0, sSchema = [], sSchemaType = []\<rparr>, 0)"
proof -
  let ?kvs = "[(''ID'', JNum (itoa 5)), (''other'', JNull), (''subject'', JStr ''t''), (''id'', JNull)]"
  let ?resp = "\<lparr>hsStatus = 200, hsBody = string_bytes (print_json (JObj ?kvs))\<rparr>"
  let ?ext = "demo_outside\<lparr>httpDo := (\<lambda>_ _ n. (Inr ?resp, n))\<rparr>"
  have w: "wf_json maxNestingDepth (JObj ?kvs)" by (simp add: maxNestingDepth_def scan_itoa utf8_ascii)
  have up: "char_of (73 :: nat) = CHR ''I''" "char_of (68 :: nat) = CHR ''D''" by (simp_all add: char_of_def bit_Suc_0_iff)
  have f: "schema_field ''ID'' = Some ''id''" "schema_field ''other'' = None" "schema_field ''subject'' = Some ''subject''"
    "schema_field ''id'' = Some ''id''"
    by (simp_all add: schema_field_def schema_tags_def up)
  have n: "json_int (itoa 5) = Some 5" by (simp add: json_int_itoa in_int64_def int_limits)
  have o: "newRequestErr ?ext (scURL demo_registry_config @ ''/p'') = None" by (simp add: demo_outside_def)
  have "requestSchema ?ext demo_registry_config ''/p'' demo_registry 0 =
     (if list_all member_ok ?kvs then Inr (schema_of_members ?kvs)
      else Inl (Wrapf ''SchemaRegistry: failed to decode response: %w'' [] json_error), 0)"
    by (rule registry_answer_fields [where resp = ?resp, OF o _ _ _ w]) simp_all
  then show ?thesis
    by (simp add: member_ok_def f n schema_of_members_def field_values_def last_int_def last_string_def del: print_json.simps)
qed

end
