(* ===== verification/Serdes.thy ===== *)
theory Serdes
  imports Registry JsonTypes
begin

text \<open>
  The serializers and deserializers of \<open>schema_registry.go\<close>: the container a script passes, the
  dispatch on the schema type, the STRING, BYTES, AVRO and JSON codecs with the Confluent envelope
  around the latter two, and the check of a JSON schema's required fields. JSON is the codec of
  theory JsonCodec; the Avro codec and the JavaScript runtime's \<open>Uint8Array\<close> are parameters.
\<close>

section \<open>Data\<close>

record Container =
  cnData :: gval
  cnSchemaType :: string
  cnSchema :: "Schema option"

text \<open>
  \<open>avro.Marshal\<close> and \<open>avro.Unmarshal\<close> under a parsed schema, the value
  that \<open>new Uint8Array(buffer)\<close> gives in the runtime, and the name of a value's type for the
  verb \<open>%T\<close>.
\<close>

record codecs =
  avMarshal :: "parsed_avro \<Rightarrow> gval \<Rightarrow> bytes res"
  avUnmarshal :: "parsed_avro \<Rightarrow> bytes \<Rightarrow> gval res"
  newUint8Array :: "gobytes \<Rightarrow> gval res"
  typeName :: "gval \<Rightarrow> string"

definition errProtobufUnsupported :: go_error where
  "errProtobufUnsupported = ErrNew ''SchemaRegistry: Protobuf serdes is not supported in v1 (Avro and JSON only)''"

section \<open>Required fields\<close>

text \<open>The first name of the list that the data lacks; entries that are no strings are skipped.\<close>

fun first_missing :: "gval list \<Rightarrow> (string \<times> gval) list \<Rightarrow> string option" where
  "first_missing [] data = None"
| "first_missing (GString field # fs) data =
     (if map_of data field = None then Some field else first_missing fs data)"
| "first_missing (_ # fs) data = first_missing fs data"

definition validateJSONRequired :: "(string \<times> gval) list \<Rightarrow> string \<Rightarrow> go_error option" where
  "validateJSONRequired data schemaStr =
     (case json_Unmarshal (string_bytes schemaStr) of
        Inl err \<Rightarrow> Some (Wrapf ''invalid JSON schema: %w'' [] err)
      | Inr schema \<Rightarrow>
         (case map_of schema ''required'' of
            Some (GSlice required) \<Rightarrow>
              map_option (\<lambda>field. Errorf ''required field missing: %s'' [AStr field]) (first_missing required data)
          | _ \<Rightarrow> None))"

section \<open>Serialization\<close>

definition serialize ::
  "'w outside \<Rightarrow> codecs \<Rightarrow> gval \<Rightarrow> string \<Rightarrow> Schema option \<Rightarrow> SchemaRegistry \<Rightarrow> gobytes res \<times> SchemaRegistry" where
  "serialize ext cd data schemaType schema sr =
     (if schemaType = ''STRING'' then
        (case data of
           GString str \<Rightarrow> (Inr (Some (string_bytes str)), sr)
         | _ \<Rightarrow> (Inl (Errorf ''SchemaRegistry: STRING serialize expects string, got %T'' [AStr (typeName cd data)]), sr))
      else if schemaType = ''BYTES'' then
        (case coerceBytes data of
           Some b \<Rightarrow> (Inr b, sr)
         | None \<Rightarrow> (Inl (Errorf ''SchemaRegistry: BYTES serialize expects []byte, got %T'' [AStr (typeName cd data)]), sr))
      else if schemaType = ''AVRO'' then
        (case schema of
           None \<Rightarrow> (Inl (Errorf ''SchemaRegistry: AVRO serialize requires schema'' []), sr)
         | Some s \<Rightarrow>
            (case parsedAvro ext (sSchema s) sr of
               (Inl err, sr) \<Rightarrow> (Inl (Wrapf ''SchemaRegistry: failed to parse Avro schema: %w'' [] err), sr)
             | (Inr avroSchema, sr) \<Rightarrow>
                (case normalizeAvroValue (intOverflow ext) (fst avroSchema) (snd avroSchema) data of
                   Inl err \<Rightarrow> (Inl (Wrapf ''SchemaRegistry: failed to normalize Avro data: %w'' [] err), sr)
                 | Inr normalized \<Rightarrow>
                    (case avMarshal cd avroSchema normalized of
                       Inl err \<Rightarrow> (Inl (Wrapf ''SchemaRegistry: Avro encode failed: %w'' [] err), sr)
                     | Inr encoded \<Rightarrow> (withWireFormat schema (Some encoded), sr)))))
      else if schemaType = ''JSON'' then
        (case schema of
           None \<Rightarrow> (Inl (Errorf ''SchemaRegistry: JSON serialize requires schema'' []), sr)
         | Some s \<Rightarrow>
            (case (case data of GMap dataMap \<Rightarrow> validateJSONRequired dataMap (sSchema s) | _ \<Rightarrow> None) of
               Some err \<Rightarrow> (Inl (Wrapf ''SchemaRegistry: JSON validation failed: %w'' [] err), sr)
             | None \<Rightarrow>
                (case json_Marshal (jsOther ext) data of
                   Inl err \<Rightarrow> (Inl (Wrapf ''SchemaRegistry: JSON encode failed: %w'' [] err), sr)
                 | Inr encoded \<Rightarrow> (withWireFormat schema (Some encoded), sr))))
      else if schemaType = schemaTypeProtobuf then (Inl errProtobufUnsupported, sr)
      else (Inl (Errorf ''SchemaRegistry: unsupported schema type: %s'' [AStr schemaType]), sr))"

definition bytesToUint8Array :: "codecs \<Rightarrow> gobytes \<Rightarrow> gval res" where
  "bytesToUint8Array cd b =
     (case newUint8Array cd b of
        Inl err \<Rightarrow> Inl (Wrapf ''SchemaRegistry: building Uint8Array: %w'' [] err)
      | Inr u8 \<Rightarrow> Inr u8)"

definition Serialize ::
  "'w outside \<Rightarrow> codecs \<Rightarrow> Container option \<Rightarrow> SchemaRegistry \<Rightarrow> gval res \<times> SchemaRegistry" where
  "Serialize ext cd container sr =
     (case container of
        None \<Rightarrow> (Inl (Errorf ''SchemaRegistry: Serialize requires a container'' []), sr)
      | Some c \<Rightarrow>
         if rgVU sr = None
         then (Inl (Errorf ''SchemaRegistry: Serialize requires a runtime (call it from a VU)'' []), sr)
         else (case serialize ext cd (cnData c) (cnSchemaType c) (cnSchema c) sr of
                 (Inl err, sr) \<Rightarrow> (Inl err, sr)
               | (Inr b, sr) \<Rightarrow> (bytesToUint8Array cd b, sr)))"

section \<open>Deserialization\<close>

definition deserialize ::
  "'w outside \<Rightarrow> codecs \<Rightarrow> gobytes \<Rightarrow> string \<Rightarrow> Schema option \<Rightarrow> SchemaRegistry \<Rightarrow> gval res \<times> SchemaRegistry" where
  "deserialize ext cd data schemaType schema sr =
     (if schemaType = ''STRING'' then
        (case checkAndStripWireFormat data schema of
           Inl err \<Rightarrow> (Inl err, sr)
         | Inr data \<Rightarrow>
            if \<not> utf8Valid (slice_of data) then (Inl (Errorf ''SchemaRegistry: STRING deserialize: invalid UTF-8'' []), sr)
            else (Inr (GString (bytes_string (slice_of data))), sr))
      else if schemaType = ''BYTES'' then
        (case checkAndStripWireFormat data schema of
           Inl err \<Rightarrow> (Inl err, sr)
         | Inr data \<Rightarrow> (Inr (GBytes data), sr))
      else if schemaType = ''AVRO'' then
        (case schema of
           None \<Rightarrow> (Inl (Errorf ''SchemaRegistry: AVRO deserialize requires schema'' []), sr)
         | Some s \<Rightarrow>
            (case checkAndStripWireFormat data schema of
               Inl err \<Rightarrow> (Inl err, sr)
             | Inr data \<Rightarrow>
                (case parsedAvro ext (sSchema s) sr of
                   (Inl err, sr) \<Rightarrow> (Inl (Wrapf ''SchemaRegistry: failed to parse Avro schema: %w'' [] err), sr)
                 | (Inr avroSchema, sr) \<Rightarrow>
                    (case avUnmarshal cd avroSchema (slice_of data) of
                       Inl err \<Rightarrow> (Inl (Wrapf ''SchemaRegistry: Avro decode failed: %w'' [] err), sr)
                     | Inr result \<Rightarrow> (Inr result, sr)))))
      else if schemaType = ''JSON'' then
        (case schema of
           None \<Rightarrow> (Inl (Errorf ''SchemaRegistry: JSON deserialize requires schema'' []), sr)
         | Some s \<Rightarrow>
            (case checkAndStripWireFormat data schema of
               Inl err \<Rightarrow> (Inl err, sr)
             | Inr data \<Rightarrow>
                (case json_Unmarshal (slice_of data) of
                   Inl err \<Rightarrow> (Inl (Wrapf ''SchemaRegistry: JSON decode failed: %w'' [] err), sr)
                 | Inr result \<Rightarrow>
                    (case validateJSONRequired result (sSchema s) of
                       Some err \<Rightarrow> (Inl (Wrapf ''SchemaRegistry: JSON validation failed: %w'' [] err), sr)
                     | None \<Rightarrow> (Inr (GMap result), sr)))))
      else if schemaType = schemaTypeProtobuf then (Inl errProtobufUnsupported, sr)
      else (Inl (Errorf ''SchemaRegistry: unsupported schema type: %s'' [AStr schemaType]), sr))"

definition Deserialize ::
  "'w outside \<Rightarrow> codecs \<Rightarrow> Container option \<Rightarrow> SchemaRegistry \<Rightarrow> gval res \<times> SchemaRegistry" where
  "Deserialize ext cd container sr =
     (case container of
        None \<Rightarrow> (Inl (Errorf ''SchemaRegistry: Deserialize requires a container'' []), sr)
      | Some c \<Rightarrow>
         (case coerceBytes (cnData c) of
            None \<Rightarrow> (Inl (Errorf ''SchemaRegistry: Deserialize expects byte-like data, got %T'' [AStr (typeName cd (cnData c))]), sr)
          | Some data \<Rightarrow> deserialize ext cd data (cnSchemaType c) (cnSchema c) sr))"

section \<open>Required fields: what the check decides\<close>

lemma first_missing_None:
  "first_missing fs data = None \<longleftrightarrow> (\<forall>f. GString f \<in> set fs \<longrightarrow> map_of data f \<noteq> None)"
  by (induction fs data rule: first_missing.induct) auto

lemma first_missing_Some:
  "first_missing fs data = Some f \<Longrightarrow>
   \<exists>pre post. fs = pre @ GString f # post \<and> map_of data f = None \<and> first_missing pre data = None"
proof (induction fs data rule: first_missing.induct)
  case (2 field fs data)
  then show ?case by (cases "map_of data field") (force intro: exI [of _ "[]"] exI [of _ "GString field # _"])+
qed (force intro: exI [of _ "_ # _"])+

definition required_ok :: "string \<Rightarrow> (string \<times> gval) list \<Rightarrow> bool" where
  "required_ok schemaStr data \<longleftrightarrow>
     (\<exists>schema. json_Unmarshal (string_bytes schemaStr) = Inr schema \<and>
        (\<forall>fs f. map_of schema ''required'' = Some (GSlice fs) \<longrightarrow> GString f \<in> set fs \<longrightarrow> map_of data f \<noteq> None))"

lemma validate_None: "validateJSONRequired data schemaStr = None \<longleftrightarrow> required_ok schemaStr data"
  unfolding validateJSONRequired_def required_ok_def
  by (auto simp: first_missing_None split: sum.split option.split gval.split)

section \<open>Avro and JSON inside the envelope\<close>

lemma serialize_avro:
  assumes "known_schema ext sr (sSchema s) = Inr (env, a)"
    and "normalizeAvroValue (intOverflow ext) env a d = Inr v" and "avMarshal cd (env, a) v = Inr b"
  shows "serialize ext cd d ''AVRO'' (Some s) sr = (withWireFormat (Some s) (Some b), snd (parsedAvro ext (sSchema s) sr))"
  using assms parsedAvro_known [of ext "sSchema s" sr] by (cases "parsedAvro ext (sSchema s) sr") (simp add: serialize_def)

lemma deserialize_avro:
  assumes "known_schema ext sr (sSchema s) = Inr p" and "checkAndStripWireFormat data (Some s) = Inr (Some b)"
  shows "fst (deserialize ext cd data ''AVRO'' (Some s) sr) =
     (case avUnmarshal cd p b of Inl err \<Rightarrow> Inl (Wrapf ''SchemaRegistry: Avro decode failed: %w'' [] err) | Inr x \<Rightarrow> Inr x)"
  using assms parsedAvro_known [of ext "sSchema s" sr]
  by (cases "parsedAvro ext (sSchema s) sr") (simp add: deserialize_def split: sum.split)

section \<open>Properties\<close>

text \<open>The runtime turns bytes into a value that is read back as the same bytes.\<close>

definition uint8_ok :: "codecs \<Rightarrow> bool" where
  "uint8_ok cd \<longleftrightarrow> (\<forall>b. \<exists>v. newUint8Array cd b = Inr v \<and> coerceBytes v = Some (Some (slice_of b)))"

definition demo_codecs :: codecs where
  "demo_codecs = \<lparr>
     avMarshal = (\<lambda>_ v. case v of GInt _ n \<Rightarrow> Inr [word_of_int n] | _ \<Rightarrow> Inl (ErrExt ''avro'')),
     avUnmarshal = (\<lambda>_ b. if length b = 1 then Inr (GInt KInt (uint (hd b))) else Inl (ErrExt ''avro'')),
     newUint8Array = (\<lambda>b. Inr (GBytes (Some (slice_of b)))), typeName = (\<lambda>_. ''any'')\<rparr>"

text \<open>Every Avro schema is \<open>int\<close>.\<close>

definition demo_avro :: "nat outside" where
  "demo_avro = demo_outside\<lparr>avroParse := (\<lambda>_ _. Inr (\<lambda>_. AEnum ''e'' [], APrim AvroInt))\<rparr>"

lemma uint8_demo: "uint8_ok demo_codecs"
  by (simp add: uint8_ok_def demo_codecs_def)

text \<open>C21: Without a registry ID, whatever a script serializes as STRING or BYTES it gets back by deserializing
  the \<open>Uint8Array\<close>: the same text (for text that is valid UTF-8; the encodings of sequences of Unicode
  scalar values) and the same bytes, from any byte-like value.\<close>

theorem plain_serdes_roundtrip:
  assumes "rgVU sr \<noteq> None" and "uint8_ok cd" and "\<And>s. schema = Some s \<Longrightarrow> sID s = 0"
  shows "(\<exists>v. fst (Serialize ext cd (Some \<lparr>cnData = GString str, cnSchemaType = ''STRING'', cnSchema = schema\<rparr>) sr) = Inr v \<and>
            (is_ok (fst (Deserialize ext cd (Some \<lparr>cnData = v, cnSchemaType = ''STRING'', cnSchema = schema\<rparr>) sr')) \<longleftrightarrow>
               (\<exists>rs. list_all scalar rs \<and> string_bytes str = concat (map encodeRune rs))) \<and>
            (\<forall>y. fst (Deserialize ext cd (Some \<lparr>cnData = v, cnSchemaType = ''STRING'', cnSchema = schema\<rparr>) sr') = Inr y \<longrightarrow>
               y = GString str)) \<and>
         (coerceBytes d = Some b \<longrightarrow>
            (\<exists>v. fst (Serialize ext cd (Some \<lparr>cnData = d, cnSchemaType = ''BYTES'', cnSchema = schema\<rparr>) sr) = Inr v \<and>
                 fst (Deserialize ext cd (Some \<lparr>cnData = v, cnSchemaType = ''BYTES'', cnSchema = schema\<rparr>) sr') =
                   Inr (GBytes (Some (slice_of b)))))"
proof -
  obtain u where u: "newUint8Array cd b = Inr (u b)" "coerceBytes (u b) = Some (Some (slice_of b))" for b
    using assms(2) unfolding uint8_ok_def by metis
  have strip: "checkAndStripWireFormat x schema = Inr x" for x
    using assms(3) by (auto simp: checkAndStripWireFormat_def split: option.split)
  show ?thesis
    using assms(1) u strip utf8Valid_iff [of "string_bytes str"]
    by (auto simp: Serialize_def Deserialize_def serialize_def deserialize_def bytesToUint8Array_def)
qed

theorem plain_serdes_roundtrip_witness:
  "\<exists>v. fst (Serialize demo_outside demo_codecs (Some \<lparr>cnData = GArray [GInt KInt64 1, GFloat64 (Fin 2)],
           cnSchemaType = ''BYTES'', cnSchema = None\<rparr>) (demo_registry\<lparr>rgVU := Some \<lparr>rvContext = True\<rparr>\<rparr>)) = Inr v \<and>
       fst (Deserialize demo_outside demo_codecs (Some \<lparr>cnData = v, cnSchemaType = ''BYTES'', cnSchema = None\<rparr>) demo_registry) =
         Inr (GBytes (Some [1, 2]))"
  using plain_serdes_roundtrip [where sr = "demo_registry\<lparr>rgVU := Some \<lparr>rvContext = True\<rparr>\<rparr>" and schema = None
      and cd = demo_codecs and d = "GArray [GInt KInt64 1, GFloat64 (Fin 2)]" and b = "Some [1, 2]" and ext = demo_outside
      and sr' = demo_registry, OF _ uint8_demo, THEN conjunct2]
  by (simp add: float_order f_trunc_def f_int_def)

text \<open>C25: With a registry ID, STRING and BYTES are not symmetric: serialization adds no envelope, but
  deserialization takes one off. Bytes that happen to start with the schema's own envelope lose those five
  bytes in the round trip, and bytes that start with another envelope are rejected.\<close>

theorem plain_serdes_envelope:
  assumes "sID s \<noteq> 0" and "encodeWireFormat j = Inr e" and "coerceBytes d = Some (Some (e @ p))"
  shows "serialize ext cd d ''BYTES'' (Some s) sr = (Inr (Some (e @ p)), sr) \<and>
         fst (deserialize ext cd (Some (e @ p)) ''BYTES'' (Some s) sr) =
           (if j = sID s then Inr (GBytes (Some p))
            else Inl (Errorf ''SchemaRegistry: schema ID mismatch: expected %d, got %d'' [AInt (sID s), AInt j]))"
  using assms encodeWireFormat_shape(1,2) [OF assms(2)] decode_encode [OF assms(2), of p]
  by (auto simp: serialize_def deserialize_def checkAndStripWireFormat_def)

theorem plain_serdes_envelope_witness:
  "fst (deserialize demo_outside demo_codecs (Some ([0, 0, 0, 0, 7] @ [65])) ''BYTES'' (Some demo_schema) demo_registry) =
     Inr (GBytes (Some [65]))"
  using plain_serdes_envelope [of demo_schema 7 "[0, 0, 0, 0, 7]" "GBytes (Some [0, 0, 0, 0, 7, 65])" "[65]"
      demo_outside demo_codecs demo_registry]
  by (simp add: demo_schema_def encodeWireFormat_def putUint32_def maxUint32_def)

text \<open>C10: An Avro value survives serialization and deserialization with the same schema, with or without
  a registry ID, also by another registry client that knows the same schema for the text: the encoder gets exactly the Go value that stands for the script's value under the schema,
  its output is framed with the schema's ID (or left alone without one), and the decoder gets exactly that
  output back, so the result is what \<open>avro.Unmarshal\<close> makes of what \<open>avro.Marshal\<close> made.\<close>

theorem avro_serdes_roundtrip:
  assumes "known_schema ext sr (sSchema s) = Inr (env, a)" and "avro_rep env a d v"
    and "avMarshal cd (env, a) v = Inr b" and "0 \<le> sID s" and "sID s \<le> maxUint32"
  shows "\<exists>out sr'. serialize ext cd d ''AVRO'' (Some s) sr = (Inr (Some out), sr') \<and>
           (sID s = 0 \<longrightarrow> out = b) \<and> (sID s \<noteq> 0 \<longrightarrow> encodeWireFormat (sID s) = Inr (take 5 out) \<and> drop 5 out = b) \<and>
           (rgAvroCache sr \<noteq> None \<longrightarrow> known_schema ext sr' (sSchema s) = Inr (env, a)) \<and>
           (\<forall>sr2. known_schema ext sr2 (sSchema s) = Inr (env, a) \<longrightarrow>
              fst (deserialize ext cd (Some out) ''AVRO'' (Some s) sr2) =
                (case avUnmarshal cd (env, a) b of
                   Inl err \<Rightarrow> Inl (Wrapf ''SchemaRegistry: Avro decode failed: %w'' [] err) | Inr x \<Rightarrow> Inr x))"
proof -
  have n: "normalizeAvroValue (intOverflow ext) env a d = Inr v" using normalize_rep assms(2) by blast
  have "frameable (Some s)" using assms(4,5) by (simp add: frameable_def)
  then obtain fr where fr: "withWireFormat (Some s) (Some b) = Inr fr" by (rule wire.frame_some)
  let ?sr = "snd (parsedAvro ext (sSchema s) sr)"
  have s: "serialize ext cd d ''AVRO'' (Some s) sr = (Inr fr, ?sr)"
    using serialize_avro [OF assms(1) n assms(3)] fr by simp
  obtain out where out: "fr = Some out"
    and f: "sID s = 0 \<Longrightarrow> out = b" "sID s \<noteq> 0 \<Longrightarrow> \<exists>e. encodeWireFormat (sID s) = Inr e \<and> out = e @ b"
    using fr by (auto simp: withWireFormat_def split: if_splits sum.splits)
  have "sID s \<noteq> 0 \<Longrightarrow> encodeWireFormat (sID s) = Inr (take 5 out) \<and> drop 5 out = b"
    using f(2) encodeWireFormat_shape(2) by fastforce
  then show ?thesis
    using s f(1) known_schema_kept [OF _ assms(1)] deserialize_avro [OF _ wire.unframe_frame [OF fr]] unfolding out by blast
qed

theorem avro_serdes_roundtrip_witness:
  "\<exists>out sr'. serialize demo_avro demo_codecs (GFloat64 (Fin 3)) ''AVRO'' (Some demo_schema) demo_registry = (Inr (Some out), sr') \<and>
     drop 5 out = [3] \<and>
     fst (deserialize demo_avro demo_codecs (Some out) ''AVRO'' (Some demo_schema) sr') = Inr (GInt KInt 3)"
proof -
  have rep: "avro_rep (\<lambda>_. AEnum ''e'' []) (APrim AvroInt) (GFloat64 (Fin 3)) (GInt KInt32 3)"
    by (rule rep_int) (simp_all add: int_limits)
  have m: "avMarshal demo_codecs p (GInt KInt32 3) = Inr [3]" and u: "avUnmarshal demo_codecs p [3] = Inr (GInt KInt 3)" for p
    by (simp_all add: demo_codecs_def)
  have p: "known_schema demo_avro demo_registry t = Inr (\<lambda>_. AEnum ''e'' [], APrim AvroInt)" for t
    by (simp add: known_schema_def demo_avro_def demo_registry_def)
  have c: "rgAvroCache demo_registry \<noteq> None" "0 \<le> sID demo_schema" "sID demo_schema \<le> maxUint32" "sID demo_schema \<noteq> 0"
    by (simp_all add: demo_registry_def demo_schema_def maxUint32_def)
  from avro_serdes_roundtrip [OF p rep m c(2,3)] c(1,4) u show ?thesis by (metis sum.case(2))
qed

lemma demo_required_decodes: "json_Unmarshal (string_bytes demo_required) = Inr [(''required'', GSlice [GString ''id''])]"
proof -
  have "wf_json maxNestingDepth (JObj [(''required'', JArr [JStr ''id''])])" by (simp add: maxNestingDepth_def utf8_ascii)
  from parse_document(1) [OF this] show ?thesis
    by (simp add: json_Unmarshal_def demo_required_def to_map_def put_all_def del: print_json.simps)
qed

lemma json_roundtrip:
  assumes "json_clean maxNestingDepth (GMap kvs)" and "required_ok (sSchema s) kvs" and "0 \<le> sID s" and "sID s \<le> maxUint32"
  shows "\<exists>out m. serialize ext cd (GMap kvs) ''JSON'' (Some s) sr = (Inr (Some out), sr) \<and>
           (sID s \<noteq> 0 \<longrightarrow> encodeWireFormat (sID s) = Inr (take 5 out)) \<and>
           deserialize ext cd (Some out) ''JSON'' (Some s) sr' = (Inr (GMap m), sr') \<and>
           map_of m = map_option json_view \<circ> map_of kvs"
proof -
  let ?m = "sort_key fst (map (\<lambda>(k, v). (k, json_view v)) kvs)"
  obtain b where b: "json_Marshal (jsOther ext) (GMap kvs) = Inr b" "json_Unmarshal b = Inr ?m"
    using marshal_unmarshal_map [OF assms(1), of "jsOther ext"] by blast
  have "distinct (map fst (map (\<lambda>(k, v). (k, json_view v)) kvs))"
    using assms(1) by (simp add: comp_def split_def)
  then have m: "map_of ?m = map_option json_view \<circ> map_of kvs"
    by (simp only: map_of_sorted map_of_map fun_eq_iff comp_def) simp
  then have "required_ok (sSchema s) ?m" using assms(2) by (fastforce simp: required_ok_def)
  then have v: "validateJSONRequired kvs (sSchema s) = None" "validateJSONRequired ?m (sSchema s) = None"
    using assms(2) by (simp_all add: validate_None)
  have "frameable (Some s)" using assms(3,4) by (simp add: frameable_def)
  then obtain fr where fr: "withWireFormat (Some s) (Some b) = Inr fr" by (rule wire.frame_some)
  obtain out where out: "fr = Some out" and f: "sID s \<noteq> 0 \<Longrightarrow> \<exists>e. encodeWireFormat (sID s) = Inr e \<and> out = e @ b"
    using fr by (auto simp: withWireFormat_def split: if_splits sum.splits)
  have "sID s \<noteq> 0 \<Longrightarrow> encodeWireFormat (sID s) = Inr (take 5 out)"
    using f encodeWireFormat_shape(2) by fastforce
  moreover have "serialize ext cd (GMap kvs) ''JSON'' (Some s) sr = (Inr (Some out), sr)"
    using b(1) v(1) fr out by (simp add: serialize_def)
  moreover have "deserialize ext cd (Some out) ''JSON'' (Some s) sr' = (Inr (GMap ?m), sr')"
    using wire.unframe_frame [OF fr] b(2) v(2) unfolding out by (simp add: deserialize_def)
  ultimately show ?thesis using m by blast
qed

lemma json_nonobject:
  assumes "json_clean maxNestingDepth x" and "doc x \<noteq> JNull" and "\<And>kvs. doc x \<noteq> JObj kvs" and "0 \<le> sID s" and "sID s \<le> maxUint32"
  shows "\<exists>out. serialize ext cd x ''JSON'' (Some s) sr = (Inr (Some out), sr) \<and>
           deserialize ext cd (Some out) ''JSON'' (Some s) sr' =
             (Inl (Wrapf ''SchemaRegistry: JSON decode failed: %w'' [] json_error), sr')"
proof -
  have m: "json_Marshal (jsOther ext) x = Inr (string_bytes (print_json (doc x)))"
    by (simp add: json_Marshal_def encode_doc [OF assms(1)])
  have "to_map (doc x) = Inl json_error" using assms(2,3) by (cases "doc x") (auto simp: to_map_def)
  then have u: "json_Unmarshal (string_bytes (print_json (doc x))) = Inl json_error"
    using parse_document(1) [OF wf_doc [OF assms(1)]] by (simp only: json_Unmarshal_def sum.case)
  have n: "x \<noteq> GMap kvs" for kvs using assms(3) by (metis doc.simps(11))
  have "frameable (Some s)" using assms(4,5) by (simp add: frameable_def)
  then obtain fr where fr: "withWireFormat (Some s) (Some (string_bytes (print_json (doc x)))) = Inr fr" by (rule wire.frame_some)
  then obtain out where out: "fr = Some out" by (auto simp: withWireFormat_def split: if_splits sum.splits)
  have "(case x of GMap dataMap \<Rightarrow> validateJSONRequired dataMap (sSchema s) | _ \<Rightarrow> None) = None"
    using n by (cases x) auto
  then have "serialize ext cd x ''JSON'' (Some s) sr = (Inr (Some out), sr)"
    using m fr out by (simp add: serialize_def)
  moreover have "deserialize ext cd (Some out) ''JSON'' (Some s) sr' =
      (Inl (Wrapf ''SchemaRegistry: JSON decode failed: %w'' [] json_error), sr')"
    using wire.unframe_frame [OF fr] u unfolding out by (simp add: deserialize_def)
  ultimately show ?thesis by blast
qed

lemma json_null:
  assumes "json_clean maxNestingDepth x" and "doc x = JNull" and "0 \<le> sID s" and "sID s \<le> maxUint32"
  shows "\<exists>out. serialize ext cd x ''JSON'' (Some s) sr = (Inr (Some out), sr) \<and>
           (fst (deserialize ext cd (Some out) ''JSON'' (Some s) sr') = Inr (GMap []) \<longleftrightarrow> required_ok (sSchema s) []) \<and>
           (is_ok (fst (deserialize ext cd (Some out) ''JSON'' (Some s) sr')) \<longleftrightarrow> required_ok (sSchema s) [])"
proof -
  have m: "json_Marshal (jsOther ext) x = Inr (string_bytes (print_json (doc x)))"
    by (simp add: json_Marshal_def encode_doc [OF assms(1)])
  have u: "json_Unmarshal (string_bytes (print_json (doc x))) = Inr []"
    using parse_document(1) [OF wf_doc [OF assms(1)]] by (simp only: json_Unmarshal_def sum.case) (simp add: assms(2) to_map_def)
  have n: "x \<noteq> GMap kvs" for kvs using assms(2) by (metis doc.simps(11) json.distinct)
  have "frameable (Some s)" using assms(3,4) by (simp add: frameable_def)
  then obtain fr where fr: "withWireFormat (Some s) (Some (string_bytes (print_json (doc x)))) = Inr fr" by (rule wire.frame_some)
  then obtain out where out: "fr = Some out" by (auto simp: withWireFormat_def split: if_splits sum.splits)
  have "(case x of GMap dataMap \<Rightarrow> validateJSONRequired dataMap (sSchema s) | _ \<Rightarrow> None) = None"
    using n by (cases x) auto
  then have "serialize ext cd x ''JSON'' (Some s) sr = (Inr (Some out), sr)"
    using m fr out by (simp add: serialize_def)
  moreover have "fst (deserialize ext cd (Some out) ''JSON'' (Some s) sr') = Inr (GMap []) \<longleftrightarrow> required_ok (sSchema s) []"
    "is_ok (fst (deserialize ext cd (Some out) ''JSON'' (Some s) sr')) \<longleftrightarrow> required_ok (sSchema s) []"
    using wire.unframe_frame [OF fr] u unfolding out
    by (auto simp: deserialize_def validate_None [symmetric] split: option.splits)
  ultimately show ?thesis by blast
qed

text \<open>C11: An object that a script serializes as JSON under a schema whose required fields it has comes back, with
  or without a registry ID, as the object with the same members: numbers as \<open>float64\<close> (integers as the
  nearest one), bytes as their base64 text, pointers as what they point to. The objects meant are the ones
  with valid UTF-8, finite numbers, no 32-bit floats or foreign types, and at most 10000 containers inside
  each other. Text, numbers, booleans, bytes and slices are serialized too, without any check, but then never
  deserialized. So is what is encoded as \<open>null\<close> (an absent value, nil bytes, a nil pointer), and it is deserialized, as the object
  without members (Go's nil map), exactly when the schema requires no field.\<close>

theorem json_serdes_roundtrip:
  assumes "0 \<le> sID s" and "sID s \<le> maxUint32"
  shows "(json_clean maxNestingDepth (GMap kvs) \<and> required_ok (sSchema s) kvs \<longrightarrow>
           (\<exists>out m. serialize ext cd (GMap kvs) ''JSON'' (Some s) sr = (Inr (Some out), sr) \<and>
              (sID s \<noteq> 0 \<longrightarrow> encodeWireFormat (sID s) = Inr (take 5 out)) \<and>
              deserialize ext cd (Some out) ''JSON'' (Some s) sr' = (Inr (GMap m), sr') \<and>
              map_of m = map_option json_view \<circ> map_of kvs)) \<and>
         (json_clean maxNestingDepth x \<and> (\<forall>kvs. doc x \<noteq> JObj kvs) \<longrightarrow>
           (\<exists>out. serialize ext cd x ''JSON'' (Some s) sr = (Inr (Some out), sr) \<and>
              (is_ok (fst (deserialize ext cd (Some out) ''JSON'' (Some s) sr')) \<longleftrightarrow>
                 doc x = JNull \<and> required_ok (sSchema s) []) \<and>
              (\<forall>v. fst (deserialize ext cd (Some out) ''JSON'' (Some s) sr') = Inr v \<longrightarrow> v = GMap [])))"
proof (intro conjI impI)
  assume "json_clean maxNestingDepth (GMap kvs) \<and> required_ok (sSchema s) kvs"
  then show "\<exists>out m. serialize ext cd (GMap kvs) ''JSON'' (Some s) sr = (Inr (Some out), sr) \<and>
              (sID s \<noteq> 0 \<longrightarrow> encodeWireFormat (sID s) = Inr (take 5 out)) \<and>
              deserialize ext cd (Some out) ''JSON'' (Some s) sr' = (Inr (GMap m), sr') \<and>
              map_of m = map_option json_view \<circ> map_of kvs"
    using json_roundtrip [OF _ _ assms] by blast
next
  assume x: "json_clean maxNestingDepth x \<and> (\<forall>kvs. doc x \<noteq> JObj kvs)"
  show "\<exists>out. serialize ext cd x ''JSON'' (Some s) sr = (Inr (Some out), sr) \<and>
              (is_ok (fst (deserialize ext cd (Some out) ''JSON'' (Some s) sr')) \<longleftrightarrow> doc x = JNull \<and> required_ok (sSchema s) []) \<and>
              (\<forall>v. fst (deserialize ext cd (Some out) ''JSON'' (Some s) sr') = Inr v \<longrightarrow> v = GMap [])"
  proof (cases "doc x = JNull")
    case True
    then show ?thesis using json_null [OF _ True assms, of ext cd sr sr'] x by (force simp: is_ok_iff)
  next
    case False
    then show ?thesis using json_nonobject [OF _ False _ assms, of ext cd sr sr'] x by force
  qed
qed

theorem json_serdes_roundtrip_witness:
  "\<exists>out m. serialize demo_outside demo_codecs (GMap [(''name'', GBytes (Some [65])), (''id'', GInt KInt64 3)]) ''JSON''
       (Some demo_schema) demo_registry = (Inr (Some out), demo_registry) \<and>
     deserialize demo_outside demo_codecs (Some out) ''JSON'' (Some demo_schema) demo_registry = (Inr (GMap m), demo_registry) \<and>
     map_of m ''id'' = Some (GFloat64 (Fin 3)) \<and> map_of m ''name'' = Some (GString ''QQ=='') \<and>
     (\<exists>out. serialize demo_outside demo_codecs (GBool True) ''JSON'' (Some demo_schema) demo_registry = (Inr (Some out), demo_registry) \<and>
        \<not> is_ok (fst (deserialize demo_outside demo_codecs (Some out) ''JSON'' (Some demo_schema) demo_registry)))"
proof -
  let ?kvs = "[(''name'', GBytes (Some [65])), (''id'', GInt KInt64 3)]"
  have c: "json_clean maxNestingDepth (GMap ?kvs)" by (simp add: maxNestingDepth_def utf8_ascii)
  have r: "required_ok (sSchema demo_schema) ?kvs" using demo_required_decodes by (simp add: required_ok_def demo_schema_def)
  have i: "0 \<le> sID demo_schema" "sID demo_schema \<le> maxUint32" by (simp_all add: demo_schema_def maxUint32_def)
  have q: "b64_char 16 = CHR ''Q''" "b64_char 1040 = CHR ''Q''" by (simp_all add: b64_char_def b64_alphabet_def)
  have "json_view (GInt KInt64 3) = GFloat64 (Fin 3)" using f64_of_int_exact [of 3] by simp
  then show ?thesis
    using json_serdes_roundtrip [OF i, of ?kvs demo_outside demo_codecs demo_registry demo_registry "GBool True"] c r
    by (fastforce simp: bytes_view_def q)
qed

text \<open>C15: Whatever text the JSON deserializer accepts, what a script gets is an object made of null, booleans, valid
  strings, finite \<open>float64\<close> numbers, slices and objects, with distinct keys, every field the schema requires and
  bounded nesting. Such a value can always be serialized again under the schema, and deserializing that
  gives the same members.\<close>

theorem json_decoded_types:
  assumes "fst (deserialize ext cd data ''JSON'' (Some s) sr) = Inr v" and "0 \<le> sID s" and "sID s \<le> maxUint32"
  shows "\<exists>m. v = GMap m \<and> json_native v \<and> json_clean maxNestingDepth v \<and> required_ok (sSchema s) m \<and>
     (\<exists>out m'. fst (serialize ext cd v ''JSON'' (Some s) sr') = Inr (Some out) \<and>
        fst (deserialize ext cd (Some out) ''JSON'' (Some s) sr') = Inr (GMap m') \<and>
        map_of m' = map_option json_view \<circ> map_of m)"
proof -
  obtain m where m: "v = GMap m" "required_ok (sSchema s) m" and u: "\<exists>b. json_Unmarshal b = Inr m"
    using assms(1) by (auto simp: deserialize_def validate_None split: sum.splits option.splits)
  have c: "json_clean maxNestingDepth (GMap m)" "json_native (GMap m)" using u unmarshal_clean by blast+
  from json_roundtrip [OF c(1) m(2) assms(2,3), of ext cd sr' sr'] show ?thesis using m c by fastforce
qed

theorem json_decoded_types_witness:
  "json_clean maxNestingDepth (GMap [(''required'', GSlice [GString ''id'']), (''id'', GNil)])"
proof -
  let ?m = "[(''required'', GSlice [GString ''id'']), (''id'', GNil)]"
  let ?j = "JObj [(''required'', JArr [JStr ''id'']), (''id'', JNull)]"
  let ?d = "Some (string_bytes (print_json ?j))"
  have "wf_json maxNestingDepth ?j" by (simp add: maxNestingDepth_def utf8_ascii)
  from parse_document(1) [OF this] have u: "json_Unmarshal (string_bytes (print_json ?j)) = Inr ?m"
    by (simp add: json_Unmarshal_def to_map_def put_all_def del: print_json.simps)
  let ?s = "demo_schema\<lparr>sID := 0\<rparr>"
  have "checkAndStripWireFormat ?d (Some ?s) = Inr ?d" by (simp add: checkAndStripWireFormat_def)
  moreover have "validateJSONRequired ?m (sSchema ?s) = None"
    using demo_required_decodes by (simp add: validateJSONRequired_def demo_schema_def)
  ultimately have "fst (deserialize demo_outside demo_codecs ?d ''JSON'' (Some ?s) demo_registry) = Inr (GMap ?m)"
    using u by (simp add: deserialize_def del: print_json.simps)
  from json_decoded_types [OF this] show ?thesis by (simp add: maxUint32_def)
qed

text \<open>C22: What can be serialized: text as STRING; byte-like values as BYTES; as AVRO, values the encoder accepts
  after normalization under a schema that parses and whose ID fits the envelope; as JSON, values
  that can be encoded and, for objects, carry every field the schema requires. Every other schema type,
  Protobuf included, is an error.\<close>

theorem serialize_accepts:
  shows "is_ok (fst (serialize ext cd d ty schema sr)) \<longleftrightarrow>
     (ty = ''STRING'' \<and> (\<exists>str. d = GString str)) \<or>
     (ty = ''BYTES'' \<and> coerceBytes d \<noteq> None) \<or>
     (ty = ''AVRO'' \<and> schema \<noteq> None \<and> frameable schema \<and>
        (\<exists>p v. known_schema ext sr (sSchema (the schema)) = Inr p \<and>
           normalizeAvroValue (intOverflow ext) (fst p) (snd p) d = Inr v \<and> is_ok (avMarshal cd p v))) \<or>
     (ty = ''JSON'' \<and> schema \<noteq> None \<and> frameable schema \<and> is_ok (json_Marshal (jsOther ext) d) \<and>
        (\<forall>kvs. d = GMap kvs \<longrightarrow> required_ok (sSchema (the schema)) kvs))"
proof -
  consider "ty = ''AVRO''" | "ty = ''JSON''" | "ty \<noteq> ''AVRO'' \<and> ty \<noteq> ''JSON''" by blast
  then show ?thesis
  proof cases
    case 1
    show ?thesis
    proof (cases schema)
      case (Some s)
      obtain sr' where "parsedAvro ext (sSchema s) sr = (known_schema ext sr (sSchema s), sr')"
        using parsedAvro_known [of ext "sSchema s" sr] by (metis prod.collapse)
      then show ?thesis
        using 1 Some withWireFormat_ok [of schema] normalize_ok [of "intOverflow ext"]
        by (auto simp: serialize_def split: sum.split)
    qed (simp add: 1 serialize_def)
  next
    case 2
    then show ?thesis
      using withWireFormat_ok [of schema]
      by (cases schema; cases d) (auto simp: serialize_def validate_None [symmetric] split: sum.split option.split)
  next
    case 3
    then show ?thesis by (auto simp: serialize_def split: gval.split option.split)
  qed
qed

theorem serialize_accepts_witness:
  "\<not> is_ok (fst (serialize demo_outside demo_codecs (GMap [(''x'', GNil)]) ''JSON'' (Some demo_schema) demo_registry)) \<and>
   is_ok (fst (serialize demo_outside demo_codecs (GMap [(''id'', GNil)]) ''JSON'' (Some demo_schema) demo_registry))"
  unfolding serialize_accepts
  using demo_required_decodes by (simp add: required_ok_def frameable_def demo_schema_def maxUint32_def json_Marshal_def)

text \<open>The check of required fields is exact: it passes exactly when the schema is a JSON object and its list
  of required fields, if it has one, names no string that the data lacks; otherwise it reports the
  first missing one.\<close>

theorem required_fields_exact:
  "(validateJSONRequired data schemaStr = None \<longleftrightarrow> required_ok schemaStr data) \<and>
   (json_Unmarshal (string_bytes schemaStr) = Inr schema \<and> map_of schema ''required'' = Some (GSlice fs) \<and>
    fs = pre @ GString f # post \<and> (\<forall>g. GString g \<in> set pre \<longrightarrow> map_of data g \<noteq> None) \<and> map_of data f = None \<longrightarrow>
      validateJSONRequired data schemaStr = Some (Errorf ''required field missing: %s'' [AStr f]))"
proof -
  have "first_missing (pre @ GString f # post) data = Some f"
    if "\<forall>g. GString g \<in> set pre \<longrightarrow> map_of data g \<noteq> None" "map_of data f = None"
    using that by (induction pre data rule: first_missing.induct) auto
  then show ?thesis using validate_None [of data schemaStr] by (auto simp: validateJSONRequired_def)
qed

theorem required_fields_exact_witness:
  "validateJSONRequired [(''x'', GNil)] demo_required = Some (Errorf ''required field missing: %s'' [AStr ''id''])"
  using required_fields_exact [of "[(''x'', GNil)]" demo_required "[(''required'', GSlice [GString ''id''])]"
      "[GString ''id'']" "[]" "''id''" "[]"] demo_required_decodes
  by simp

text \<open>C23: Protobuf and unknown schema types are rejected whatever the data and the schema, and data framed with another
  schema's ID is rejected by every other deserializer; in all cases before anything is parsed or cached.\<close>

theorem deserialize_rejects:
  "deserialize ext cd data ''PROTOBUF'' schema sr = (Inl errProtobufUnsupported, sr) \<and>
   (ty \<notin> {''STRING'', ''BYTES'', ''AVRO'', ''JSON'', ''PROTOBUF''} \<longrightarrow>
      deserialize ext cd data ty schema sr = (Inl (Errorf ''SchemaRegistry: unsupported schema type: %s'' [AStr ty]), sr)) \<and>
   (ty \<in> {''STRING'', ''BYTES'', ''AVRO'', ''JSON''} \<and> sID s \<noteq> 0 \<and> encodeWireFormat j = Inr e \<and> j \<noteq> sID s \<longrightarrow>
      deserialize ext cd (Some (e @ p)) ty (Some s) sr =
        (Inl (Errorf ''SchemaRegistry: schema ID mismatch: expected %d, got %d'' [AInt (sID s), AInt j]), sr))"
proof (intro conjI impI)
  show "deserialize ext cd data ''PROTOBUF'' schema sr = (Inl errProtobufUnsupported, sr)" by (simp add: deserialize_def)
next
  assume "ty \<notin> {''STRING'', ''BYTES'', ''AVRO'', ''JSON'', ''PROTOBUF''}"
  then show "deserialize ext cd data ty schema sr = (Inl (Errorf ''SchemaRegistry: unsupported schema type: %s'' [AStr ty]), sr)"
    by (simp add: deserialize_def)
next
  assume a: "ty \<in> {''STRING'', ''BYTES'', ''AVRO'', ''JSON''} \<and> sID s \<noteq> 0 \<and> encodeWireFormat j = Inr e \<and> j \<noteq> sID s"
  then have "checkAndStripWireFormat (Some (e @ p)) (Some s) =
      Inl (Errorf ''SchemaRegistry: schema ID mismatch: expected %d, got %d'' [AInt (sID s), AInt j])"
    using encodeWireFormat_shape(1,2) [of j e] decode_encode [of j e p] by (simp add: checkAndStripWireFormat_def)
  then show "deserialize ext cd (Some (e @ p)) ty (Some s) sr =
      (Inl (Errorf ''SchemaRegistry: schema ID mismatch: expected %d, got %d'' [AInt (sID s), AInt j]), sr)"
    using a by (auto simp: deserialize_def)
qed

theorem deserialize_rejects_witness:
  "fst (deserialize demo_outside demo_codecs (Some ([0, 0, 0, 0, 9] @ [65])) ''JSON'' (Some demo_schema) demo_registry) =
     Inl (Errorf ''SchemaRegistry: schema ID mismatch: expected %d, got %d'' [AInt 7, AInt 9]) \<and>
   fst (deserialize demo_outside demo_codecs None ''XML'' None demo_registry) =
     Inl (Errorf ''SchemaRegistry: unsupported schema type: %s'' [AStr ''XML''])"
  using deserialize_rejects [where s = demo_schema and j = 9 and e = "[0, 0, 0, 0, 9]" and ext = demo_outside and cd = demo_codecs
      and p = "[65]" and ty = "''JSON''" and sr = demo_registry]
    deserialize_rejects [where ext = demo_outside and cd = demo_codecs and ty = "''XML''" and sr = demo_registry and data = None
      and schema = None]
  by (simp add: demo_schema_def encodeWireFormat_def putUint32_def maxUint32_def)

end
