(* ===== verification/KafkaModule.thy ===== *)
theory KafkaModule
  imports Producer Consumer Admin Jks Serdes
begin

text \<open>
  \<open>module.go\<close> and \<open>register.go\<close>: the module instance of a virtual user, its export object and
  the constructors a script calls. A JavaScript exception thrown by the module is the error of a result;
  the export object is the map of its properties. The runtime's decoding of a constructor's argument
  (\<open>ExportTo\<close>) is a parameter: \<open>None\<close> when the constructor is called without arguments, otherwise the
  decoded configuration or an error.
\<close>

section \<open>Data\<close>

datatype symbol = NewWriter | NewReader | NewConnection | NewSchemaRegistrySymbol | LoadJKSSymbol

datatype export_value = XConst const_value | XFunc symbol

text \<open>A virtual user as the module sees it: the init environment, present while the script is imported,
  with or without a metrics registry, and whether a context is available.\<close>

record module_vu =
  mvInitEnv :: "init_env option"
  mvMetricsRegistry :: bool
  mvContext :: bool

record Module =
  mdVU :: module_vu
  mdExports :: "(string \<times> export_value) list"
  mdMetrics :: "kafkaMetrics option"

datatype RootModule = RootModule

definition init_registrations :: "(string \<times> RootModule) list" where
  "init_registrations = [(''k6/x/kafka'', RootModule)]"

section \<open>The module instance\<close>

text \<open>Setting properties one after the other; the runtime may refuse one, which throws.\<close>

fun set_exports ::
  "(string \<Rightarrow> go_error option) \<Rightarrow> (string \<times> export_value) list \<Rightarrow> Module \<Rightarrow> Module res" where
  "set_exports setErr [] m = Inr m"
| "set_exports setErr ((name, value) # xs) m =
     (case setErr name of
        Some err \<Rightarrow> Inl err
      | None \<Rightarrow> set_exports setErr xs (m\<lparr>mdExports := AList.update name value (mdExports m)\<rparr>))"

text \<open>\<open>ord\<close> is the order in which the loop visits the map of constants.\<close>

definition defineConstants ::
  "((string \<times> const_value) list \<Rightarrow> (string \<times> const_value) list) \<Rightarrow> (string \<Rightarrow> go_error option) \<Rightarrow> Module \<Rightarrow> Module res" where
  "defineConstants ord setErr m = set_exports setErr (map (\<lambda>(name, value). (name, XConst value)) (ord moduleConstants)) m"

definition defineSymbols :: "(string \<Rightarrow> go_error option) \<Rightarrow> Module \<Rightarrow> Module res" where
  "defineSymbols setErr m =
     set_exports setErr
       [(''Writer'', XFunc NewWriter), (''Reader'', XFunc NewReader), (''Connection'', XFunc NewConnection),
        (''SchemaRegistry'', XFunc NewSchemaRegistrySymbol), (''LoadJKS'', XFunc LoadJKSSymbol)] m"

definition NewModuleInstance ::
  "((string \<times> const_value) list \<Rightarrow> (string \<times> const_value) list) \<Rightarrow> (string \<Rightarrow> go_error option) \<Rightarrow> module_vu \<Rightarrow> Module res" where
  "NewModuleInstance ord setErr v =
     (let m = \<lparr>mdVU = v, mdExports = [], mdMetrics = None\<rparr>;
          m = (if mvInitEnv v \<noteq> None \<and> mvMetricsRegistry v then m\<lparr>mdMetrics := Some registerMetrics\<rparr> else m)
      in case defineConstants ord setErr m of Inl err \<Rightarrow> Inl err | Inr m \<Rightarrow> defineSymbols setErr m)"

definition Exports :: "Module \<Rightarrow> (string \<times> export_value) list" where
  "Exports m = mdExports m"

definition writerCollector :: "Module \<Rightarrow> metricsCollector option" where
  "writerCollector m = (case mdMetrics m of None \<Rightarrow> None | Some km \<Rightarrow> Some (newMetricsCollector km RoleWriter))"

definition readerCollector :: "Module \<Rightarrow> metricsCollector option" where
  "readerCollector m = (case mdMetrics m of None \<Rightarrow> None | Some km \<Rightarrow> Some (newMetricsCollector km RoleReader))"

section \<open>Constructors\<close>

text \<open>The zero values the configurations start from.\<close>

definition zeroWriterConfig :: WriterConfig where
  "zeroWriterConfig = \<lparr>wBrokers = [], wTopic = '''', wAutoCreateTopic = False, wBalancer = GNil, wMaxAttempts = None,
     wBatchSize = 0, wBatchBytes = 0, wBatchTimeout = 0, wReadTimeout = 0, wRequiredAcks = None, wWriteTimeout = 0,
     wCompression = '''', wSASL = None, wTLS = None, wConnectLogger = False\<rparr>"

definition zeroReaderConfig :: ReaderConfig where
  "zeroReaderConfig = \<lparr>rcBrokers = [], rcGroupID = '''', rcGroupTopics = [], rcTopic = '''', rcPartition = 0,
     rcMinBytes = 0, rcMaxBytes = 0, rcMaxWait = '''', rcGroupBalancers = [], rcHeartbeatInterval = 0, rcCommitInterval = 0,
     rcSessionTimeout = 0, rcRebalanceTimeout = 0, rcStartOffset = '''', rcOffset = None, rcMaxAttempts = None,
     rcIsolationLevel = '''', rcSASL = None, rcTLS = None\<rparr>"

definition zeroConnectionConfig :: ConnectionConfig where
  "zeroConnectionConfig = \<lparr>ncAddress = '''', ncSASL = None, ncTLS = None\<rparr>"

definition newWriter ::
  "crypto \<Rightarrow> (kgo_opt list \<Rightarrow> go_error option) \<Rightarrow> Module \<Rightarrow> WriterConfig res option \<Rightarrow> Writer res" where
  "newWriter cr newClient m arg =
     (case (case arg of
              None \<Rightarrow> Inr zeroWriterConfig
            | Some (Inl err) \<Rightarrow> Inl (Wrapf ''invalid writer config: %w'' [] err)
            | Some (Inr cfg) \<Rightarrow> Inr cfg) of
        Inl err \<Rightarrow> Inl err
      | Inr cfg \<Rightarrow> openWriter cr newClient cfg (writerCollector m))"

definition newReader ::
  "crypto \<Rightarrow> (kgo_opt list \<Rightarrow> go_error option) \<Rightarrow> Module \<Rightarrow> ReaderConfig res option \<Rightarrow> Reader res" where
  "newReader cr newClient m arg =
     (case (case arg of
              None \<Rightarrow> Inr zeroReaderConfig
            | Some (Inl err) \<Rightarrow> Inl (Wrapf ''invalid reader config: %w'' [] err)
            | Some (Inr cfg) \<Rightarrow> Inr cfg) of
        Inl err \<Rightarrow> Inl err
      | Inr cfg \<Rightarrow> openReader cr newClient cfg (readerCollector m))"

definition newConnection ::
  "crypto \<Rightarrow> (kgo_opt list \<Rightarrow> go_error option) \<Rightarrow> (int \<Rightarrow> kgo_opt list \<Rightarrow> go_error option) \<Rightarrow> Module
   \<Rightarrow> ConnectionConfig res option \<Rightarrow> Connection res \<times> client_effect list" where
  "newConnection cr newClient ping m arg =
     (case (case arg of
              None \<Rightarrow> Inr zeroConnectionConfig
            | Some (Inl err) \<Rightarrow> Inl (Wrapf ''invalid connection config: %w'' [] err)
            | Some (Inr cfg) \<Rightarrow> Inr cfg) of
        Inl err \<Rightarrow> (Inl err, [])
      | Inr cfg \<Rightarrow> openConnection cr newClient ping cfg)"

definition newSchemaRegistry ::
  "'w outside \<Rightarrow> crypto \<Rightarrow> Module \<Rightarrow> SchemaRegistryConfig res option \<Rightarrow> 'w \<Rightarrow> SchemaRegistry res \<times> 'w" where
  "newSchemaRegistry ext cr m arg w =
     (case (case arg of
              None \<Rightarrow> Inr None
            | Some (Inl err) \<Rightarrow> Inl (Wrapf ''invalid schema registry config: %w'' [] err)
            | Some (Inr cfg) \<Rightarrow> Inr (Some cfg)) of
        Inl err \<Rightarrow> (Inl err, w)
      | Inr cfg \<Rightarrow> NewSchemaRegistry ext cr (Some \<lparr>rvContext = mvContext (mdVU m)\<rparr>) cfg w)"

section \<open>What a module exports\<close>

declare set_exports.simps [simp del]

definition assign_exports :: "(string \<times> export_value) list \<Rightarrow> (string \<times> export_value) list \<Rightarrow> (string \<times> export_value) list" where
  "assign_exports xs al = fold (\<lambda>(name, value). AList.update name value) xs al"

lemma set_exports_ok:
  "set_exports se xs m = Inr m' \<longleftrightarrow>
     (\<forall>name\<in>fst ` set xs. se name = None) \<and> m' = m\<lparr>mdExports := assign_exports xs (mdExports m)\<rparr>"
proof (induction xs arbitrary: m)
  case (Cons x xs)
  obtain name val where x: "x = (name, val)" by (cases x)
  have "set_exports se (x # xs) m =
      (case se name of Some err \<Rightarrow> Inl err | None \<Rightarrow> set_exports se xs (m\<lparr>mdExports := AList.update name val (mdExports m)\<rparr>))"
    unfolding x by (rule set_exports.simps)
  then show ?case using Cons.IH by (auto simp: x assign_exports_def split: option.splits)
qed (auto simp: set_exports.simps assign_exports_def)

definition public_symbols :: "(string \<times> export_value) list" where
  "public_symbols =
     [(''Writer'', XFunc NewWriter), (''Reader'', XFunc NewReader), (''Connection'', XFunc NewConnection),
      (''SchemaRegistry'', XFunc NewSchemaRegistrySymbol), (''LoadJKS'', XFunc LoadJKSSymbol)]"

definition exported :: "((string \<times> const_value) list \<Rightarrow> (string \<times> const_value) list) \<Rightarrow> (string \<times> export_value) list" where
  "exported ord = map (\<lambda>(name, value). (name, XConst value)) (ord moduleConstants) @ public_symbols"

lemma NewModuleInstance_ok:
  "NewModuleInstance ord se v = Inr m \<longleftrightarrow>
     (\<forall>name\<in>fst ` set (exported ord). se name = None) \<and>
     m = \<lparr>mdVU = v, mdExports = assign_exports (exported ord) [],
          mdMetrics = (if mvInitEnv v \<noteq> None \<and> mvMetricsRegistry v then Some registerMetrics else None)\<rparr>"
proof -
  let ?cs = "map (\<lambda>(name, value). (name, XConst value)) (ord moduleConstants)"
  let ?m0 = "\<lparr>mdVU = v, mdExports = [],
          mdMetrics = (if mvInitEnv v \<noteq> None \<and> mvMetricsRegistry v then Some registerMetrics else None)\<rparr>"
  have sym: "defineSymbols se = set_exports se public_symbols"
    by (rule ext) (simp add: defineSymbols_def public_symbols_def)
  have n: "NewModuleInstance ord se v = (case set_exports se ?cs ?m0 of Inl err \<Rightarrow> Inl err | Inr k \<Rightarrow> set_exports se public_symbols k)"
    unfolding NewModuleInstance_def defineConstants_def sym by simp
  have "NewModuleInstance ord se v = Inr m \<longleftrightarrow>
      (\<exists>k. set_exports se ?cs ?m0 = Inr k \<and> set_exports se public_symbols k = Inr m)"
    unfolding n by (auto split: sum.splits)
  also have "\<dots> \<longleftrightarrow> (\<forall>name\<in>fst ` set (exported ord). se name = None) \<and>
      m = \<lparr>mdVU = v, mdExports = assign_exports (exported ord) [],
          mdMetrics = (if mvInitEnv v \<noteq> None \<and> mvMetricsRegistry v then Some registerMetrics else None)\<rparr>"
    unfolding set_exports_ok by (auto simp: exported_def assign_exports_def)
  finally show ?thesis .
qed

lemma map_of_assign:
  "map_of (assign_exports xs al) k = (case map_of (rev xs) k of None \<Rightarrow> map_of al k | Some v \<Rightarrow> Some v)"
  unfolding assign_exports_def
  by (induction xs arbitrary: al) (auto simp: update_conv map_add_def split: option.splits)

lemma distinct_assign: "distinct (map fst al) \<Longrightarrow> distinct (map fst (assign_exports xs al))"
  unfolding assign_exports_def by (induction xs arbitrary: al) (auto simp: distinct_update)

lemma constant_names: "distinct (map fst moduleConstants @ map fst public_symbols)"
  unfolding moduleConstants_def public_symbols_def by simp

section \<open>Properties\<close>

text \<open>Whatever order the runtime visits the constants in, a module instance is created exactly when the
  runtime accepts every property, and then exports exactly the 44 constants with their values and the five
  public symbols, each once; the metrics exist exactly when the module is imported in the init
  environment of a test with a metrics registry.\<close>

theorem module_exports:
  assumes "mset (ord moduleConstants) = mset moduleConstants"
  shows "(is_ok (NewModuleInstance ord se v) \<longleftrightarrow>
            (\<forall>name\<in>fst ` set moduleConstants \<union> {''Writer'', ''Reader'', ''Connection'', ''SchemaRegistry'', ''LoadJKS''}. se name = None)) \<and>
         (\<forall>m. NewModuleInstance ord se v = Inr m \<longrightarrow>
            distinct (map fst (Exports m)) \<and> length (Exports m) = 49 \<and>
            map_of (Exports m) name =
              (case map_of moduleConstants name of Some c \<Rightarrow> Some (XConst c) | None \<Rightarrow> map_of public_symbols name) \<and>
            (mdMetrics m \<noteq> None \<longleftrightarrow> mvInitEnv v \<noteq> None \<and> mvMetricsRegistry v))"
proof -
  have st: "set (ord moduleConstants) = set moduleConstants" using assms by (metis set_mset_mset)
  have d: "distinct (map fst (exported ord))"
  proof -
    have "mset (map fst (ord moduleConstants)) = mset (map fst moduleConstants)" using assms by simp
    then have "distinct (map fst (ord moduleConstants))" using constant_names by (metis distinct_append mset_eq_imp_distinct_iff)
    then show ?thesis using constant_names st by (auto simp: exported_def comp_def case_prod_beta)
  qed
  have mo: "map_of (ord moduleConstants) = map_of moduleConstants"
    using d constant_names st by (intro map_of_inject_set [THEN iffD2]) (auto simp: exported_def comp_def case_prod_beta)
  have "map_of (assign_exports (exported ord) []) name = map_of (exported ord) name"
  proof -
    have "map_of (rev (exported ord)) = map_of (exported ord)" using d by (simp add: map_of_inject_set rev_map [symmetric])
    then show ?thesis by (simp add: map_of_assign split: option.split)
  qed
  also have "\<dots> = (case map_of moduleConstants name of Some c \<Rightarrow> Some (XConst c) | None \<Rightarrow> map_of public_symbols name)"
    by (simp add: exported_def map_of_map map_add_def mo split: option.split)
  finally have look: "map_of (assign_exports (exported ord) []) name =
      (case map_of moduleConstants name of Some c \<Rightarrow> Some (XConst c) | None \<Rightarrow> map_of public_symbols name)" .
  have names: "fst ` set (exported ord) =
      fst ` set moduleConstants \<union> {''Writer'', ''Reader'', ''Connection'', ''SchemaRegistry'', ''LoadJKS''}"
    by (auto simp: exported_def st public_symbols_def image_image case_prod_beta)
  have da: "distinct (map fst (assign_exports (exported ord) []))" by (rule distinct_assign) simp
  have "fst ` set (assign_exports xs al) = fst ` set xs \<union> fst ` set al" for xs al
  proof (induction xs arbitrary: al)
    case (Cons x xs)
    have "assign_exports (x # xs) al = assign_exports xs (AList.update (fst x) (snd x) al)"
      by (simp add: assign_exports_def case_prod_beta)
    then show ?case by (simp only: Cons.IH fst_set_update) auto
  qed (simp add: assign_exports_def)
  from this [of "exported ord" "[]"]
  have "set (map fst (assign_exports (exported ord) [])) = set (map fst (exported ord))" by simp
  then have "length (map fst (assign_exports (exported ord) [])) = length (map fst (exported ord))"
    using distinct_card [OF da] distinct_card [OF d] by simp
  then have "length (assign_exports (exported ord) []) = length (exported ord)" by simp
  also have "\<dots> = 49"
    using mset_eq_length [OF assms] by (simp add: exported_def public_symbols_def moduleConstants_def)
  finally show ?thesis
    using look da unfolding is_ok_iff NewModuleInstance_ok names by (simp add: Exports_def)
qed

theorem module_exports_witness:
  "\<exists>m. NewModuleInstance rev (\<lambda>_. None) \<lparr>mvInitEnv = None, mvMetricsRegistry = True, mvContext = False\<rparr> = Inr m \<and>
     map_of (Exports m) ''HOUR'' = Some (XConst (CInt 3600000000000)) \<and> mdMetrics m = None"
proof -
  have "mset (rev moduleConstants) = mset moduleConstants" by simp
  from module_exports [where ord = rev, OF this, where se = "\<lambda>_. None" and name = "''HOUR''"
      and v = "\<lparr>mvInitEnv = None, mvMetricsRegistry = True, mvContext = False\<rparr>"]
  show ?thesis by (auto simp: is_ok_iff moduleConstants_def)
qed

end
