(* ===== verification/Lifetime.thy ===== *)
theory Lifetime
  imports KafkaModule
begin

text \<open>
  Whole lives of the objects a script creates: a writer through any sequence of produce calls and closes, a
  reader through any sequence of consume calls and closes, with the broker hooks that fire
  during each and in the background between them. The locale \<open>metered\<close> relates the life of an object to an execution of its metrics
  collector, so that what the collector guarantees holds for the metrics of a whole test.
\<close>

section \<open>Runs\<close>

fun life_run :: "('o \<Rightarrow> 's \<Rightarrow> 's \<times> sample list) \<Rightarrow> 'o list \<Rightarrow> 's \<Rightarrow> 's \<times> sample list" where
  "life_run step [] s = (s, [])"
| "life_run step (op # ops) s =
     (let (s1, out1) = step op s; (s2, out2) = life_run step ops s1 in (s2, out1 @ out2))"

text \<open>Which hooks fire during a run, in order.\<close>

fun life_hooks :: "('o \<Rightarrow> 's \<Rightarrow> 's \<times> sample list) \<Rightarrow> ('o \<Rightarrow> 's \<Rightarrow> hook_event list \<Rightarrow> bool) \<Rightarrow> 'o list \<Rightarrow> 's \<Rightarrow> hook_event list \<Rightarrow> bool" where
  "life_hooks step fires [] s hs = (hs = [])"
| "life_hooks step fires (op # ops) s hs =
     (\<exists>h1 h2. hs = h1 @ h2 \<and> fires op s h1 \<and> life_hooks step fires ops (fst (step op s)) h2)"

lemma life_run_snoc:
  "life_run step (ops @ [op]) s =
     (fst (step op (fst (life_run step ops s))), snd (life_run step ops s) @ snd (step op (fst (life_run step ops s))))"
  by (induction ops arbitrary: s) (simp_all add: Let_def case_prod_beta)

lemma collector_run_append:
  "collector_run mc (es @ fs) =
     (fst (collector_run (fst (collector_run mc es)) fs),
      snd (collector_run mc es) @ snd (collector_run (fst (collector_run mc es)) fs))"
  by (induction es arbitrary: mc) (simp_all add: Let_def case_prod_beta)

lemma hooks_of_append: "hooks_of (es @ fs) = hooks_of es @ hooks_of fs"
  by (induction es rule: hooks_of.induct) simp_all

lemma collector_run_hooks: "collector_run mc (map Hook hs) = (foldl hooks mc hs, [])"
  by (induction hs arbitrary: mc) (simp_all add: Let_def)

lemma hooks_of_Hook [simp]: "hooks_of (map Hook hs) = hs"
  by (induction hs) simp_all

lemma event_ok_Hook [simp]: "list_all event_ok (map Hook hs)"
  by (induction hs) simp_all

section \<open>Objects with metrics\<close>

text \<open>A collector becomes \<open>c\<close> and reports \<open>out\<close> by hook calls and flushes, the hooks in the order \<open>hs\<close>.\<close>

definition executes :: "metricsCollector \<Rightarrow> hook_event list \<Rightarrow> metricsCollector option \<Rightarrow> sample list \<Rightarrow> bool" where
  "executes mc hs c out \<longleftrightarrow>
     (\<exists>es. list_all event_ok es \<and> hooks_of es = hs \<and> c = Some (fst (collector_run mc es)) \<and> out = snd (collector_run mc es))"

lemma executes_nothing [simp]: "executes mc [] (Some mc) []"
  unfolding executes_def by (intro exI [of _ "[]"]) simp

lemma executes_trans:
  assumes "executes mc h1 (Some mc1) out1" and "executes mc1 h2 c out2"
  shows "executes mc (h1 @ h2) c (out1 @ out2)"
proof -
  obtain es fs where "list_all event_ok es" "hooks_of es = h1" "mc1 = fst (collector_run mc es)" "out1 = snd (collector_run mc es)"
    "list_all event_ok fs" "hooks_of fs = h2" "c = Some (fst (collector_run mc1 fs))" "out2 = snd (collector_run mc1 fs)"
    using assms unfolding executes_def by auto
  then show ?thesis
    unfolding executes_def by (intro exI [of _ "es @ fs"]) (simp add: hooks_of_append collector_run_append)
qed

text \<open>Every operation of such an object is a sequence of hook calls and flushes of its collector, and an
  object without a collector reports nothing.\<close>

locale metered =
  fixes step :: "'o \<Rightarrow> 's \<Rightarrow> 's \<times> sample list"
    and collector :: "'s \<Rightarrow> metricsCollector option"
    and fires :: "'o \<Rightarrow> 's \<Rightarrow> hook_event list \<Rightarrow> bool"
    and ok_op :: "'o \<Rightarrow> bool"
  assumes step_run: "ok_op op \<Longrightarrow> collector s = Some mc \<Longrightarrow> fires op s hs \<Longrightarrow>
      executes mc hs (collector (fst (step op s))) (snd (step op s))"
    and no_collector: "collector s = None \<Longrightarrow> collector (fst (step op s)) = None \<and> snd (step op s) = []"
begin

lemma life_executes:
  "list_all ok_op ops \<Longrightarrow> collector s = Some mc \<Longrightarrow> life_hooks step fires ops s hs \<Longrightarrow>
     executes mc hs (collector (fst (life_run step ops s))) (snd (life_run step ops s))"
proof (induction ops arbitrary: s mc hs)
  case (Cons op ops)
  obtain h1 h2 where h: "hs = h1 @ h2" "fires op s h1" "life_hooks step fires ops (fst (step op s)) h2"
    using Cons.prems(3) by auto
  have one: "executes mc h1 (collector (fst (step op s))) (snd (step op s))"
    using step_run [OF _ Cons.prems(2) h(2)] Cons.prems(1) by simp
  then obtain mc1 where c: "collector (fst (step op s)) = Some mc1" by (auto simp: executes_def)
  show ?case
    using executes_trans [OF one [unfolded c] Cons.IH [OF _ c h(3)]] Cons.prems(1) by (simp add: h(1) Let_def case_prod_beta)
qed simp

lemma life_is_run:
  assumes "list_all ok_op ops" and "collector s = Some mc" and "life_hooks step fires ops s hs"
  obtains es where "list_all event_ok es" "hooks_of es = hs"
    "collector (fst (life_run step ops s)) = Some (fst (collector_run mc es))"
    "snd (life_run step ops s) = snd (collector_run mc es)"
  using life_executes [OF assms] that unfolding executes_def by blast

lemma silent: "collector s = None \<Longrightarrow> collector (fst (life_run step ops s)) = None \<and> snd (life_run step ops s) = []"
  by (induction ops arbitrary: s) (auto simp: Let_def case_prod_beta no_collector)

end

section \<open>Writers\<close>

datatype 'w writer_op =
    ProduceOp fmt_env range_order "'w kgo_producer" vu ProduceConfig 'w
  | WriterHooksOp "hook_event list"
  | CloseWriterOp range_order "hook_event list" "vu option"

definition effect_samples :: "client_effect list \<Rightarrow> sample list" where
  "effect_samples es = concat (map (\<lambda>e. case e of PushSamples s \<Rightarrow> s | _ \<Rightarrow> []) es)"

text \<open>An open client works in the background too: its hooks then fire between the calls of the script.\<close>

fun writer_step :: "'w writer_op \<Rightarrow> Writer \<Rightarrow> Writer \<times> sample list" where
  "writer_step (ProduceOp e ord kp v cfg b) w = (let (err, w', out, b') = Produce e ord kp v w cfg b in (w', pushed out))"
| "writer_step (WriterHooksOp hs) w =
     (if wrClient w = None then (w, []) else (w\<lparr>wrCollector := run_hooks (wrCollector w) hs\<rparr>, []))"
| "writer_step (CloseWriterOp ord hs vo) w = (let (w', es) = WriterClose ord hs vo w in (w', effect_samples es))"

fun writer_fires :: "'w writer_op \<Rightarrow> Writer \<Rightarrow> hook_event list \<Rightarrow> bool" where
  "writer_fires (ProduceOp e ord kp v cfg b) w hs =
     (hs = (if vuState v = None \<or> wrClient w = None then []
            else fst (snd (produceSync kp (map (marshalRecord e) (pcMessages cfg)) b))))"
| "writer_fires (WriterHooksOp fired) w hs = (hs = (if wrClient w = None then [] else fired))"
| "writer_fires (CloseWriterOp ord fired vo) w hs = (hs = (if wrClient w = None then [] else fired))"

fun writer_op_ok :: "'w writer_op \<Rightarrow> bool" where
  "writer_op_ok (ProduceOp e ord kp v cfg b) = (order_ok ord \<and> live (Some v))"
| "writer_op_ok (WriterHooksOp hs) = True"
| "writer_op_ok (CloseWriterOp ord hs vo) = (order_ok ord \<and> live vo)"

lemma flush_some: "\<exists>mc'. fst (flush ord (Some mc) vo cs) = Some mc'"
  by (auto simp: flush_def Let_def case_prod_beta split: option.split)

lemma flushed_out_pushed:
  "fst r = Some mc' \<Longrightarrow> flushed_out mc r = (mc', pushed (snd r))"
  by (simp add: flushed_out_def pushed_def)

lemma flush_none: "flush ord None vo cs = (None, None)"
  by (simp add: flush_def)

lemma one_flush:
  assumes "event_ok ev" and "hooks_of [ev] = []" and "\<And>mc. collector_step mc ev = flushed_out mc (f (Some mc))"
    and "fst (f (Some (foldl hooks mc hs))) = Some mc'"
  shows "executes mc hs (Some mc') (pushed (snd (f (Some (foldl hooks mc hs)))))"
  unfolding executes_def using assms flushed_out_pushed [OF assms(4)]
  by (intro exI [of _ "map Hook hs @ [ev]"])
     (simp add: hooks_of_append collector_run_append collector_run_hooks)

text \<open>The three flushes of the code, each after the hooks of the call it ends.\<close>

lemma flush_executes:
  "order_ok ord \<Longrightarrow> live (Some v) \<Longrightarrow> executes mc hs (fst (flushProduce ord (Some (foldl hooks mc hs)) v x y n))
     (pushed (snd (flushProduce ord (Some (foldl hooks mc hs)) v x y n)))"
  "order_ok ord \<Longrightarrow> live (Some v) \<Longrightarrow> executes mc hs (fst (flushConsume ord (Some (foldl hooks mc hs)) v x y lg ofs fe to))
     (pushed (snd (flushConsume ord (Some (foldl hooks mc hs)) v x y lg ofs fe to)))"
  "order_ok ord \<Longrightarrow> live vo \<Longrightarrow> executes mc hs (fst (flushClose ord (Some (foldl hooks mc hs)) vo))
     (pushed (snd (flushClose ord (Some (foldl hooks mc hs)) vo)))"
proof -
  assume ok: "order_ok ord"
  have some: "\<exists>mc'. fst (flushProduce ord (Some c) v x y n) = Some mc'" "\<exists>mc'. fst (flushConsume ord (Some c) v x y lg ofs fe to) = Some mc'"
    "\<exists>mc'. fst (flushClose ord (Some c) vo) = Some mc'" for c
    by (simp_all add: flushProduce_def flushConsume_def flushClose_def flush_some)
  show "live (Some v) \<Longrightarrow> executes mc hs (fst (flushProduce ord (Some (foldl hooks mc hs)) v x y n))
     (pushed (snd (flushProduce ord (Some (foldl hooks mc hs)) v x y n)))"
    using some(1) [of "foldl hooks mc hs"] one_flush [of "FlushProduce ord v x y n" "\<lambda>c. flushProduce ord c v x y n" mc hs] ok by auto
  show "live (Some v) \<Longrightarrow> executes mc hs (fst (flushConsume ord (Some (foldl hooks mc hs)) v x y lg ofs fe to))
     (pushed (snd (flushConsume ord (Some (foldl hooks mc hs)) v x y lg ofs fe to)))"
    using some(2) [of "foldl hooks mc hs"] one_flush [of "FlushConsume ord v x y lg ofs fe to" "\<lambda>c. flushConsume ord c v x y lg ofs fe to" mc hs] ok
    by auto
  show "live vo \<Longrightarrow> executes mc hs (fst (flushClose ord (Some (foldl hooks mc hs)) vo))
     (pushed (snd (flushClose ord (Some (foldl hooks mc hs)) vo)))"
    using some(3) [of "foldl hooks mc hs"] one_flush [of "FlushClose ord vo" "\<lambda>c. flushClose ord c vo" mc hs] ok by auto
qed

lemma effect_samples_push [simp]: "effect_samples (push_effect out) = pushed out"
  by (simp add: effect_samples_def push_effect_def pushed_def split: option.split)

lemma effect_samples_append [simp]: "effect_samples (es @ fs) = effect_samples es @ effect_samples fs"
  by (simp add: effect_samples_def)

lemma effect_samples_other [simp]: "effect_samples [] = []" "effect_samples (ClientFlush c # es) = effect_samples es"
  "effect_samples (ClientClose # es) = effect_samples es"
  "effect_samples (CommitUncommittedOffsets c t # es) = effect_samples es"
  by (simp_all add: effect_samples_def)

lemma executes_hooks: "executes mc hs (run_hooks (Some mc) hs) []"
  unfolding executes_def run_hooks_def by (intro exI [of _ "map Hook hs"]) (simp add: collector_run_hooks)

lemma Produce_executes:
  assumes "order_ok ord" and "live (Some v)" and "wrCollector w = Some mc" and "writer_fires (ProduceOp e ord kp v cfg b) w hs"
  shows "executes mc hs (wrCollector (fst (writer_step (ProduceOp e ord kp v cfg b) w))) (snd (writer_step (ProduceOp e ord kp v cfg b) w))"
proof (cases "vuState v = None \<or> wrClient w = None")
  case True
  then show ?thesis using assms by (auto simp: Produce_def pushed_def)
next
  case False
  obtain rs b' where p: "produceSync kp (map (marshalRecord e) (pcMessages cfg)) b = (rs, hs, b')"
    using assms(4) False by (auto simp: prod_eq_iff)
  obtain x y n where cr: "count_results (wrDefaultTopic w) rs ([], [], 0) = (x, y, n)" by (metis prod_cases3)
  show ?thesis
    using False p cr flush_executes(1) [OF assms(1,2), of mc hs x y n]
    by (auto simp: Produce_def Let_def case_prod_beta assms(3) run_hooks_def split: option.split)
qed

lemma WriterHooks_executes:
  assumes "wrCollector w = Some mc" and "writer_fires (WriterHooksOp fired) w hs"
  shows "executes mc hs (wrCollector (fst (writer_step (WriterHooksOp fired) w))) (snd (writer_step (WriterHooksOp fired) w))"
  using assms executes_hooks [of mc fired] by (cases "wrClient w = None") auto

lemma WriterClose_executes:
  assumes "order_ok ord" and "live vo" and "wrCollector w = Some mc" and "writer_fires (CloseWriterOp ord fired vo) w hs"
  shows "executes mc hs (wrCollector (fst (writer_step (CloseWriterOp ord fired vo) w))) (snd (writer_step (CloseWriterOp ord fired vo) w))"
  using assms flush_executes(3) [OF assms(1,2), of mc hs]
  by (cases "wrClient w = None") (auto simp: WriterClose_def Let_def case_prod_beta run_hooks_def)

interpretation writer_life: metered writer_step wrCollector writer_fires writer_op_ok
proof unfold_locales
  fix op :: "'w writer_op" and w mc hs
  assume "writer_op_ok op" "wrCollector w = Some mc" "writer_fires op w hs"
  then show "executes mc hs (wrCollector (fst (writer_step op w))) (snd (writer_step op w))"
    by (cases op) (simp_all only: writer_op_ok.simps Produce_executes WriterHooks_executes WriterClose_executes)
next
  fix op :: "'w writer_op" and w :: Writer
  assume "wrCollector w = None"
  then show "wrCollector (fst (writer_step op w)) = None \<and> snd (writer_step op w) = []"
    by (cases op) (auto simp: Produce_def WriterClose_def Let_def case_prod_beta run_hooks_def flushProduce_def
        flushClose_def flush_none split: option.split)
qed

section \<open>Readers\<close>

text \<open>The world type of the consumer is that of the whole run; a call that does not return ends nothing and
  reports nothing.\<close>

datatype 'w reader_op =
    ConsumeOp "'w kgo_consumer" time_format range_order vu ConsumeConfig 'w
  | ReaderHooksOp "hook_event list"
  | CloseReaderOp range_order "hook_event list" "vu option"

fun reader_step :: "'w reader_op \<Rightarrow> Reader \<Rightarrow> Reader \<times> sample list" where
  "reader_step (ConsumeOp cl tf ord v cfg w) r =
     (case Consume cl tf ord v r cfg w of
        None \<Rightarrow> (r, [])
      | Some (res, r', out, w') \<Rightarrow> (r', pushed out))"
| "reader_step (ReaderHooksOp hs) r =
     (if rdClient r = None then (r, []) else (r\<lparr>rdCollector := run_hooks (rdCollector r) hs\<rparr>, []))"
| "reader_step (CloseReaderOp ord late vo) r = (let (r', es) = ReaderClose ord late vo r in (r', effect_samples es))"

text \<open>The polls of a consume call, and the hooks that fire during them.\<close>

partial_function (option) polls :: "'w kgo_consumer \<Rightarrow> int \<Rightarrow> 'w \<Rightarrow> int \<Rightarrow> fetches list option" where
  "polls cl limit w n =
     (if n < limit then
        let fs = fst (pollRecords cl w (limit - n)); w = snd (pollRecords cl w (limit - n))
        in if fsCtxErr fs \<noteq> None \<or> fsErrors fs \<noteq> [] then Some [fs]
           else Option.bind (polls cl limit w (n + int (record_count fs))) (\<lambda>fss. Some (fs # fss))
      else Some [])"

fun reader_fires :: "'w reader_op \<Rightarrow> Reader \<Rightarrow> hook_event list \<Rightarrow> bool" where
  "reader_fires (ConsumeOp cl tf ord v cfg w) r hs =
     (if vuState v = None \<or> rdClient r = None \<or> ccLimit cfg \<le> 0 \<or> Consume cl tf ord v r cfg w = None then hs = []
      else \<exists>fss. polls cl (ccLimit cfg) (withTimeout cl (rdMaxWait r) w) 0 = Some fss \<and> hs = concat (map fsHooks fss))"
| "reader_fires (ReaderHooksOp fired) r hs = (hs = (if rdClient r = None then [] else fired))"
| "reader_fires (CloseReaderOp ord late vo) r hs = (hs = (if rdClient r = None then [] else late))"

fun reader_op_ok :: "'w reader_op \<Rightarrow> bool" where
  "reader_op_ok (ConsumeOp cl tf ord v cfg w) = (order_ok ord \<and> live (Some v))"
| "reader_op_ok (ReaderHooksOp hs) = True"
| "reader_op_ok (CloseReaderOp ord late vo) = (order_ok ord \<and> live vo)"

definition polled_by :: "'w kgo_consumer \<Rightarrow> ConsumeConfig \<Rightarrow> 'w \<Rightarrow> consume_state \<Rightarrow> consume_state \<Rightarrow> bool" where
  "polled_by cl cfg w st st' \<longleftrightarrow>
     (\<exists>fss. polls cl (ccLimit cfg) w (int (length (csMessages st))) = Some fss \<and>
        csCollector st' = run_hooks (csCollector st) (concat (map fsHooks fss)))"

lemma consume_loop_polls:
  assumes "consume_loop cl tf cfg w st = Some r"
  shows "polled_by cl cfg w st (snd (snd r))"
proof (rule consume_loop.raw_induct [where P = "\<lambda>cl tf cfg w st r. polled_by cl cfg w st (snd (snd r))", OF _ assms],
    goal_cases)
  case (1 loop cl tf cfg w st r)
  let ?n = "int (length (csMessages st))"
  let ?fs = "fst (pollRecords cl w (ccLimit cfg - ?n))" and ?w = "snd (pollRecords cl w (ccLimit cfg - ?n))"
  let ?st = "consume_fetches tf (ccNanoPrecision cfg) st ?fs"
  consider (stop) "\<not> ?n < ccLimit cfg" | (last) "?n < ccLimit cfg" "fsCtxErr ?fs \<noteq> None \<or> fsErrors ?fs \<noteq> []"
    | (more) "?n < ccLimit cfg" "fsCtxErr ?fs = None" "fsErrors ?fs = []" by blast
  then show ?case
  proof cases
    case stop
    then have "polls cl (ccLimit cfg) w ?n = Some []" by (subst polls.simps) simp
    then show ?thesis using "1"(2) stop by (auto simp: polled_by_def run_hooks_def option.map_ident)
  next
    case last
    then have "polls cl (ccLimit cfg) w ?n = Some [?fs]" by (subst polls.simps) (simp add: Let_def)
    moreover have "snd (snd r) = ?st" using "1"(2) last by (auto simp: Let_def split: if_splits option.splits)
    ultimately show ?thesis by (simp add: polled_by_def)
  next
    case more
    then have "loop cl tf cfg ?w ?st = Some r" using "1"(2) by (simp add: Let_def)
    from "1"(1) [OF this] obtain fss
      where p: "polls cl (ccLimit cfg) ?w (int (length (csMessages ?st))) = Some fss"
        and c: "csCollector (snd (snd r)) = run_hooks (csCollector ?st) (concat (map fsHooks fss))"
      unfolding polled_by_def by blast
    have "polls cl (ccLimit cfg) w ?n = Some (?fs # fss)"
      using more p by (subst polls.simps) (simp add: Let_def length_fetched)
    then show ?thesis using c by (auto simp: polled_by_def run_hooks_def option.map_comp comp_def)
  qed
qed

lemma Consume_flushes:
  assumes "rdCollector r = Some mc" and "reader_fires (ConsumeOp cl tf ord v cfg w) r hs"
    and call: "vuState v \<noteq> None" "rdClient r \<noteq> None" "0 < ccLimit cfg" "Consume cl tf ord v r cfg w = Some (res, r', out, w')"
  obtains x y lg ofs fe to where "(rdCollector r', out) = flushConsume ord (Some (foldl hooks mc hs)) v x y lg ofs fe to"
proof -
  obtain ex st withM fe to where l: "consume_loop cl tf cfg (withTimeout cl (rdMaxWait r) w) (empty_state (rdCollector r)) = Some (ex, w', st)"
    and o: "out = snd (consume_flush ord v st withM fe to)"
    and r': "r' = r\<lparr>rdCollector := fst (consume_flush ord v st withM fe to)\<rparr>"
    using Consume_unfold [OF call] by metis
  obtain fss where p: "polls cl (ccLimit cfg) (withTimeout cl (rdMaxWait r) w) 0 = Some fss" and cs: "csCollector st = run_hooks (Some mc) (concat (map fsHooks fss))"
    using consume_loop_polls [OF l] assms(1) by (auto simp: polled_by_def empty_state_def)
  then have cs': "csCollector st = Some (foldl hooks mc hs)" using assms(2) call by (auto simp: run_hooks_def)
  obtain x y lg ofs where "consume_flush ord v st withM fe to = flushConsume ord (csCollector st) v x y lg ofs fe to"
    by (cases withM) (auto simp: consume_flush_def)
  then show thesis using o r' that by (simp add: cs')
qed

lemma Consume_executes:
  assumes "order_ok ord" and "live (Some v)" and "rdCollector r = Some mc" and "reader_fires (ConsumeOp cl tf ord v cfg w) r hs"
  shows "executes mc hs (rdCollector (fst (reader_step (ConsumeOp cl tf ord v cfg w) r))) (snd (reader_step (ConsumeOp cl tf ord v cfg w) r))"
proof -
  consider (none) "Consume cl tf ord v r cfg w = None"
    | (rejected) "Consume cl tf ord v r cfg w \<noteq> None" "vuState v = None \<or> rdClient r = None \<or> ccLimit cfg \<le> 0"
    | (call) res r' out w' where "vuState v \<noteq> None" "rdClient r \<noteq> None" "0 < ccLimit cfg"
        "Consume cl tf ord v r cfg w = Some (res, r', out, w')"
    by (metis not_le option.exhaust prod_cases4)
  then show ?thesis
  proof cases
    case none
    then show ?thesis using assms by auto
  next
    case rejected
    then show ?thesis using assms by (auto simp: Consume_def pushed_def)
  next
    case call
    obtain x y lg ofs fe to where "(rdCollector r', out) = flushConsume ord (Some (foldl hooks mc hs)) v x y lg ofs fe to"
      by (rule Consume_flushes [OF assms(3,4) call])
    then show ?thesis
      using call(4) flush_executes(2) [OF assms(1,2), of mc hs x y lg ofs fe to] by (simp add: prod_eq_iff)
  qed
qed

lemma ReaderHooks_executes:
  assumes "rdCollector r = Some mc" and "reader_fires (ReaderHooksOp fired) r hs"
  shows "executes mc hs (rdCollector (fst (reader_step (ReaderHooksOp fired) r))) (snd (reader_step (ReaderHooksOp fired) r))"
  using assms executes_hooks [of mc fired] by (cases "rdClient r = None") auto

lemma ReaderClose_executes:
  assumes "order_ok ord" and "live vo" and "rdCollector r = Some mc" and "reader_fires (CloseReaderOp ord late vo) r hs"
  shows "executes mc hs (rdCollector (fst (reader_step (CloseReaderOp ord late vo) r))) (snd (reader_step (CloseReaderOp ord late vo) r))"
proof (cases "rdClient r = None")
  case False
  obtain mc' where f: "fst (flushClose ord (Some mc) vo) = Some mc'" unfolding flushClose_def using flush_some by blast
  have "executes mc [] (Some mc') (pushed (snd (flushClose ord (Some mc) vo)))"
    using flush_executes(3) [OF assms(1,2), of mc "[]"] f by simp
  from executes_trans [OF this executes_hooks [of mc' late]] show ?thesis
    using False assms(3,4) f by (auto simp: ReaderClose_def Let_def case_prod_beta)
qed (use assms in \<open>simp add: ReaderClose_def effect_samples_def\<close>)

lemma loop_keeps_no_collector:
  "consume_loop cl tf cfg w (empty_state None) = Some (ex, w', st) \<Longrightarrow> csCollector st = None"
  using consume_loop_polls by (fastforce simp: polled_by_def empty_state_def run_hooks_def)

interpretation reader_life: metered reader_step rdCollector reader_fires reader_op_ok
proof unfold_locales
  fix op :: "'w reader_op" and r :: Reader and mc hs
  assume "reader_op_ok op" "rdCollector r = Some mc" "reader_fires op r hs"
  then show "executes mc hs (rdCollector (fst (reader_step op r))) (snd (reader_step op r))"
    by (cases op) (simp_all only: reader_op_ok.simps Consume_executes ReaderHooks_executes ReaderClose_executes)
next
  fix op :: "'w reader_op" and r :: Reader
  assume "rdCollector r = None"
  then show "rdCollector (fst (reader_step op r)) = None \<and> snd (reader_step op r) = []"
    by (cases op) (auto simp: Consume_def ReaderClose_def Let_def case_prod_beta consume_flush_def flushConsume_def
        run_hooks_def flushClose_def flush_none dest!: loop_keeps_no_collector split: option.split)
qed

section \<open>From the module to the end of the test\<close>

lemma NewModuleInstance_metrics:
  "NewModuleInstance ord se v = Inr m \<Longrightarrow>
     mdMetrics m = (if mvInitEnv v \<noteq> None \<and> mvMetricsRegistry v then Some registerMetrics else None)"
  by (simp add: NewModuleInstance_ok)

lemma newWriter_collector: "newWriter cr nc m arg = Inr w \<Longrightarrow> wrCollector w = writerCollector m"
  by (auto simp: newWriter_def openWriter_def split: sum.splits option.splits if_splits)

lemma newReader_collector: "newReader cr nc m arg = Inr r \<Longrightarrow> rdCollector r = readerCollector m"
  by (auto simp: newReader_def openReader_def split: sum.splits option.splits if_splits)

text \<open>C1: Over the whole life of a writer that a script constructs in a module with a metrics registry,
  through any produce calls (rejected ones, failed ones, several in any VU state whose context is not done) and any
  work of its client between them, up to a close in the VU context, the dial counter a test ends with is exactly the number of broker connections the writer made, the
  batch counter per topic exactly the number of batches it wrote, and no observed duration or size is
  left unreported. Without a registry the writer never reports anything.\<close>

theorem writer_life_metrics:
  fixes ops :: "'w writer_op list"
  assumes m: "NewModuleInstance ord0 se v0 = Inr m" and w: "newWriter cr nc m arg = Inr w"
    and ok: "list_all writer_op_ok ops" "order_ok ord" and fires: "life_hooks writer_step writer_fires ops w hs"
    and opened: "wrClient (fst (life_run writer_step ops w)) \<noteq> None"
    and v: "vuState v = Some base" "vuPushes v" and len: "length (hs @ hc) \<le> 2 ^ 53"
    and run: "life_run writer_step (ops @ [CloseWriterOp ord hc (Some v)]) w = (w', out)"
  shows "if mvInitEnv v0 \<noteq> None \<and> mvMetricsRegistry v0
     then counter_total (dialCountM registerMetrics RoleWriter) (\<lambda>_. True) out = of_nat (length (concat (map dial_obs (hs @ hc)))) \<and>
          counter_total (batchCountM registerMetrics RoleWriter) (\<lambda>x. tag_topic x = Some t) out =
            of_nat (length (filter (\<lambda>(t', _). t' = t) (concat (map batch_obs (hs @ hc))))) \<and>
          (\<exists>mc. wrCollector w' = Some mc \<and> dialSeconds mc = [] \<and> rwSeconds mc = [] \<and> waitSeconds mc = [] \<and>
             batchSize mc = [] \<and> batchBytes mc = [])
     else out = []"
proof (cases "mvInitEnv v0 \<noteq> None \<and> mvMetricsRegistry v0")
  case True
  then have c: "wrCollector w = Some (newMetricsCollector registerMetrics RoleWriter)"
    using NewModuleInstance_metrics [OF m] newWriter_collector [OF w] by (simp add: writerCollector_def)
  let ?w1 = "fst (life_run writer_step ops w)" and ?close = "CloseWriterOp ord hc (Some v) :: 'w writer_op"
  obtain es where es: "list_all event_ok es" "hooks_of es = hs"
      "wrCollector ?w1 = Some (fst (collector_run (newMetricsCollector registerMetrics RoleWriter) es))"
      "snd (life_run writer_step ops w) = snd (collector_run (newMetricsCollector registerMetrics RoleWriter) es)"
    by (rule writer_life.life_is_run [OF ok(1) c fires])
  let ?mc = "fst (collector_run (newMetricsCollector registerMetrics RoleWriter) es)"
  let ?fs = "map Hook hc"
  obtain mc' where fl: "fst (flushClose ord (Some (foldl hooks ?mc hc)) (Some v)) = Some mc'"
    unfolding flushClose_def using flush_some by blast
  have st: "wrCollector (fst (writer_step ?close ?w1)) = Some mc'"
    "snd (writer_step ?close ?w1) = pushed (snd (flushClose ord (Some (foldl hooks ?mc hc)) (Some v)))"
    using opened es(3) fl by (auto simp: WriterClose_def Let_def case_prod_beta run_hooks_def)
  have "collector_run (newMetricsCollector registerMetrics RoleWriter) ((es @ ?fs) @ [FlushClose ord (Some v)]) = (mc', out)"
    using run es(4) st flushed_out_pushed [OF fl]
    by (auto simp: life_run_snoc collector_run_append collector_run_hooks simp del: writer_step.simps)
  from close_reports_everything [OF _ ok(2) _ v this, of t] show ?thesis
    using True run st(1) es(1,2) len by (auto simp: life_run_snoc hooks_of_append simp del: writer_step.simps)
next
  case False
  then have "wrCollector w = None"
    using NewModuleInstance_metrics [OF m] newWriter_collector [OF w] by (simp add: writerCollector_def)
  from writer_life.silent [OF this] run False show ?thesis by (metis snd_conv)
qed

text \<open>A module of a test with metrics and an open writer; each call connects to a broker, a close too.\<close>

definition demo_module_vu :: module_vu where
  "demo_module_vu = \<lparr>mvInitEnv = Some \<lparr>fileSystems = (\<lambda>_. None), getAbsFilePath = id\<rparr>, mvMetricsRegistry = True, mvContext = True\<rparr>"

definition demo_crypto :: crypto where
  "demo_crypto = \<lparr>keyPairErr = (\<lambda>_ _. None), pemHasCerts = (\<lambda>_. True)\<rparr>"

definition demo_module :: Module where
  "demo_module = \<lparr>mdVU = demo_module_vu, mdExports = assign_exports (exported id) [], mdMetrics = Some registerMetrics\<rparr>"

lemma demo_module: "NewModuleInstance id (\<lambda>_. None) demo_module_vu = Inr demo_module"
  by (simp add: NewModuleInstance_ok demo_module_def demo_module_vu_def)

definition dialing_broker :: "nat kgo_producer" where
  "dialing_broker = \<lparr>produceSync = (\<lambda>rs b. (map (\<lambda>x. (x, None)) rs, [BrokerConnect 1 None], b + length rs)), firstErr = (\<lambda>_. None)\<rparr>"

theorem writer_life_metrics_witness:
  "\<exists>w w' out. newWriter demo_crypto (\<lambda>_. None) demo_module (Some (Inr (zeroWriterConfig\<lparr>wBrokers := [''b'']\<rparr>))) = Inr w \<and>
     life_run writer_step [ProduceOp example_fmt id dialing_broker example_vu \<lparr>pcMessages = [example_message]\<rparr> 0,
        CloseWriterOp id [BrokerConnect 1 None] (Some example_vu)] w = (w', out) \<and>
     counter_total (dialCountM registerMetrics RoleWriter) (\<lambda>_. True) out = 2"
proof -
  let ?arg = "Some (Inr (zeroWriterConfig\<lparr>wBrokers := [''b'']\<rparr>))"
  let ?ops = "[ProduceOp example_fmt id dialing_broker example_vu \<lparr>pcMessages = [example_message]\<rparr> 0]"
  have "\<exists>w. newWriter demo_crypto (\<lambda>_. None) demo_module ?arg = Inr w \<and> wrClient w \<noteq> None"
    by (simp add: newWriter_def openWriter_def writerOptions_def zeroWriterConfig_def clientOptions_def buildTLSConfig_def
        buildSASL_def Let_def compressionCodec_def partitioner_def)
  then obtain w where w: "newWriter demo_crypto (\<lambda>_. None) demo_module ?arg = Inr w" and o: "wrClient w \<noteq> None" by blast
  have cl: "wrClient (fst (life_run writer_step ?ops w)) \<noteq> None"
    using o by (simp add: Produce_def Let_def case_prod_beta dialing_broker_def example_vu_def)
  have f: "life_hooks writer_step writer_fires ?ops w [BrokerConnect 1 None]"
    using o by (simp add: dialing_broker_def example_vu_def)
  have ok: "list_all writer_op_ok ?ops" "order_ok id" by (simp_all add: order_ok_def live_def example_vu_def)
  have v: "vuState example_vu = Some (CurrentTags ''vu'')" "vuPushes example_vu" by (simp_all add: example_vu_def)
  from writer_life_metrics [OF demo_module w ok f cl v _ prod.collapse [symmetric], of "[BrokerConnect 1 None]"]
  have "counter_total (dialCountM registerMetrics RoleWriter) (\<lambda>_. True)
      (snd (life_run writer_step (?ops @ [CloseWriterOp id [BrokerConnect 1 None] (Some example_vu)]) w)) = 2"
    by (simp add: demo_module_vu_def dial_obs.simps)
  then show ?thesis using w by (metis append_Cons append_Nil prod.collapse)
qed

text \<open>What the hooks \<open>hs\<close> observed is what the samples \<open>out\<close> report, and what they leave in a collector.\<close>

definition reports_hooks :: "metricRole \<Rightarrow> hook_event list \<Rightarrow> sample list \<Rightarrow> bool" where
  "reports_hooks role hs out \<longleftrightarrow>
     counter_total (dialCountM registerMetrics role) (\<lambda>_. True) out = of_nat (length (concat (map dial_obs hs))) \<and>
     (\<forall>t. counter_total (batchCountM registerMetrics role) (\<lambda>x. tag_topic x = Some t) out =
        of_nat (length (filter (\<lambda>(t', _). t' = t) (concat (map batch_obs hs))))) \<and>
     trend_values (dialSecM registerMetrics role) out = concat (map dial_obs hs) \<and>
     trend_values (rwSecM registerMetrics role) out = concat (map (rw_obs role) hs) \<and>
     trend_values (waitSecM registerMetrics role) out = concat (map (wait_obs role) hs) \<and>
     topic_values (batchSizeM registerMetrics role) out = concat (map batch_size_obs hs) \<and>
     topic_values (batchBytesM registerMetrics role) out = concat (map batch_bytes_obs hs)"

definition holds_hooks :: "metricRole \<Rightarrow> hook_event list \<Rightarrow> metricsCollector \<Rightarrow> bool" where
  "holds_hooks role hs mc \<longleftrightarrow>
     dialCount mc - dialFlushed mc = int (length (concat (map dial_obs hs))) \<and>
     (\<forall>t. gm_get (batchCount mc) t - gm_get (batchFlushed mc) t =
        int (length (filter (\<lambda>(t', _). t' = t) (concat (map batch_obs hs))))) \<and>
     dialSeconds mc = concat (map dial_obs hs) \<and> rwSeconds mc = concat (map (rw_obs role) hs) \<and>
     waitSeconds mc = concat (map (wait_obs role) hs) \<and> map pt_pair (batchSize mc) = concat (map batch_size_obs hs) \<and>
     map pt_pair (batchBytes mc) = concat (map batch_bytes_obs hs)"

lemma holds_hooks_snoc:
  assumes "mcRole mc = role" and "holds_hooks role hs mc"
  shows "holds_hooks role (hs @ [h]) (hooks mc h)"
  using assms(2) unfolding holds_hooks_def by (simp add: hooks_effect [OF assms(1)])

lemma holds_hooks_foldl:
  assumes "collector_inv role mc" and "holds_hooks role [] mc"
  shows "holds_hooks role hs (foldl hooks mc hs)"
proof (induction hs rule: rev_induct)
  case (snoc h hs)
  show ?case
    using holds_hooks_snoc [OF inv_role [OF collector_inv_run_hooks [OF assms(1)]] snoc] by simp
qed (simp add: assms(2))

lemma close_reports_hooks:
  assumes "list_all event_ok es" and "order_ok ord" and "length (hooks_of es) \<le> 2 ^ 53"
    and "vuState v = Some base" and "vuPushes v"
    and "collector_run (newMetricsCollector registerMetrics role) (es @ [FlushClose ord (Some v)]) = (mc, out)"
  shows "reports_hooks role (hooks_of es) out" and "holds_hooks role [] mc" and "collector_inv role mc"
proof -
  let ?es = "es @ [FlushClose ord (Some v)]"
  have h: "hooks_of ?es = hooks_of es" by (simp add: hooks_of_append)
  have ok: "list_all event_ok ?es" using assms(1,2,5) by (simp add: live_def)
  note c = close_reports_everything [OF assms]
  show "reports_hooks role (hooks_of es) out"
    using c dial_seconds.run_conserves [OF collector_inv_new ok TrueI, of role]
      rw_seconds.run_conserves [OF collector_inv_new ok TrueI, of role]
      wait_seconds.run_conserves [OF collector_inv_new ok TrueI, of role]
      batch_size.run_conserves [OF collector_inv_new ok TrueI, of role]
      batch_bytes.run_conserves [OF collector_inv_new ok TrueI, of role] assms(6)
    unfolding observed_lists h reports_hooks_def by (simp add: newMetricsCollector_def)
  let ?m = "fst (collector_run (newMetricsCollector registerMetrics role) es)"
  have inv: "collector_inv role ?m" by (rule collector_inv_run [OF collector_inv_new assms(1)])
  have mc: "mc = fst (collector_step ?m (FlushClose ord (Some v)))"
    using assms(6) by (simp add: collector_run_snoc)
  show "holds_hooks role [] mc"
    using step_close_fields [OF inv assms(2,4), folded mc] by (simp add: holds_hooks_def)
  show "collector_inv role mc"
    using collector_inv_run [OF collector_inv_new ok, of role] assms(6) by simp
qed

lemma closed_reader_silent: "rdClient r = None \<Longrightarrow> life_run reader_step ops r = (r, [])"
proof (induction ops)
  case (Cons op ops)
  then have "reader_step op r = (r, [])"
    by (cases op) (simp_all add: Consume_def ReaderClose_def effect_samples_def pushed_def)
  then show ?case using Cons by (simp add: Let_def)
qed simp

text \<open>C2: Over the whole life of a reader that a script constructs in a module with a metrics registry, through any consume calls
  (whatever they return), in VU contexts that are not done, and any work of its client between them, up to a close in the VU
  context: the samples a test ends with report exactly what the hooks observed before the close drained the
  collector, every connection, fetch, duration and size. What its client does after that, while it commits and closes, stays in
  the collector and no later call reports it. Without a registry nothing is reported at all.\<close>

theorem reader_life_metrics:
  fixes ops :: "'w reader_op list"
  assumes m: "NewModuleInstance ord0 se v0 = Inr m" and r: "newReader cr nc m arg = Inr r"
    and ok: "list_all reader_op_ok ops" "order_ok ord" and fires: "life_hooks reader_step reader_fires ops r hs"
    and opened: "rdClient (fst (life_run reader_step ops r)) \<noteq> None"
    and v: "vuState v = Some base" "vuPushes v" and len: "length hs \<le> 2 ^ 53"
    and run: "life_run reader_step (ops @ [CloseReaderOp ord late (Some v)]) r = (r', out)"
  shows "if mvInitEnv v0 \<noteq> None \<and> mvMetricsRegistry v0
     then reports_hooks RoleReader hs out \<and>
          (\<exists>mc. rdCollector r' = Some mc \<and> holds_hooks RoleReader late mc) \<and>
          (\<forall>ops' :: 'w reader_op list. life_run reader_step ops' r' = (r', []))
     else out = []"
proof (cases "mvInitEnv v0 \<noteq> None \<and> mvMetricsRegistry v0")
  case True
  then have c: "rdCollector r = Some (newMetricsCollector registerMetrics RoleReader)"
    using NewModuleInstance_metrics [OF m] newReader_collector [OF r] by (simp add: readerCollector_def)
  let ?r1 = "fst (life_run reader_step ops r)" and ?close = "CloseReaderOp ord late (Some v) :: 'w reader_op"
  obtain es where es: "list_all event_ok es" "hooks_of es = hs"
      "rdCollector ?r1 = Some (fst (collector_run (newMetricsCollector registerMetrics RoleReader) es))"
      "snd (life_run reader_step ops r) = snd (collector_run (newMetricsCollector registerMetrics RoleReader) es)"
    by (rule reader_life.life_is_run [OF ok(1) c fires])
  let ?mc = "fst (collector_run (newMetricsCollector registerMetrics RoleReader) es)"
  obtain mc' where fl: "fst (flushClose ord (Some ?mc) (Some v)) = Some mc'"
    unfolding flushClose_def using flush_some by blast
  have st: "rdCollector (fst (reader_step ?close ?r1)) = Some (foldl hooks mc' late)"
    "snd (reader_step ?close ?r1) = pushed (snd (flushClose ord (Some ?mc) (Some v)))"
    "rdClient (fst (reader_step ?close ?r1)) = None"
    using opened es(3) fl by (auto simp: ReaderClose_def Let_def case_prod_beta run_hooks_def)
  have "collector_run (newMetricsCollector registerMetrics RoleReader) (es @ [FlushClose ord (Some v)]) = (mc', out)"
    using run es(4) st(2) flushed_out_pushed [OF fl]
    by (auto simp: life_run_snoc collector_run_append simp del: reader_step.simps)
  note rep = close_reports_hooks [OF es(1) ok(2) _ v this, unfolded es(2), OF len]
  have r': "r' = fst (reader_step ?close ?r1)" using run by (auto simp: life_run_snoc simp del: reader_step.simps)
  have "life_run reader_step ops' r' = (r', [])" for ops' :: "'w reader_op list"
    by (rule closed_reader_silent) (simp only: r' st(3))
  then show ?thesis
    using True rep(1) st(1) holds_hooks_foldl [OF rep(3,2), of late] by (simp only: r') simp
next
  case False
  then have "rdCollector r = None"
    using NewModuleInstance_metrics [OF m] newReader_collector [OF r] by (simp add: readerCollector_def)
  from reader_life.silent [OF this] run False show ?thesis by (metis snd_conv)
qed

text \<open>A broker connection during a poll that ends at the deadline.\<close>

definition dialing_fetches :: fetches where
  "dialing_fetches = \<lparr>fsPartitions = [], fsErrors = [], fsHooks = [BrokerConnect 1 None],
     fsCtxErr = Some DeadlineExceeded, fsCtxErrAfter = None\<rparr>"

definition dialing_consumer :: "nat kgo_consumer" where
  "dialing_consumer = \<lparr>withTimeout = (\<lambda>_. id), pollRecords = (\<lambda>k n. (dialing_fetches, k))\<rparr>"

lemma dialing_polls: "polls dialing_consumer 1 k 0 = Some [dialing_fetches]"
  by (subst polls.simps) (simp add: dialing_consumer_def dialing_fetches_def)

lemma dialing_loop: "consume_loop dialing_consumer demo_time (demo_config 1) k (empty_state mco) =
    Some (LoopExit (Some DeadlineExceeded), k, consume_fetches demo_time False (empty_state mco) dialing_fetches)"
  by (subst consume_loop.simps) (simp add: dialing_consumer_def dialing_fetches_def demo_config_def empty_state_def)

lemma dialing_timeout [simp]: "withTimeout dialing_consumer d k = k"
  by (simp add: dialing_consumer_def)

theorem reader_life_metrics_witness:
  "\<exists>r r' out mc. newReader demo_crypto (\<lambda>_. None) demo_module
       (Some (Inr (zeroReaderConfig\<lparr>rcBrokers := [''b''], rcTopic := ''t''\<rparr>))) = Inr r \<and>
     life_run reader_step [ConsumeOp dialing_consumer demo_time id demo_vu (demo_config 1) 0,
        ReaderHooksOp [FetchBatchRead ''t'' 3 40], CloseReaderOp id [BrokerConnect 7000000 None] (Some example_vu)] r = (r', out) \<and>
     counter_total (dialCountM registerMetrics RoleReader) (\<lambda>_. True) out = 1 \<and>
     topic_values (batchSizeM registerMetrics RoleReader) out = [(Some ''t'', f64_of_int 3)] \<and>
     rdCollector r' = Some mc \<and> dialSeconds mc = [f64_of_int 7]"
proof -
  let ?arg = "Some (Inr (zeroReaderConfig\<lparr>rcBrokers := [''b''], rcTopic := ''t''\<rparr>))"
  let ?op = "ConsumeOp dialing_consumer demo_time id demo_vu (demo_config 1) 0" and ?bg = "ReaderHooksOp [FetchBatchRead ''t'' 3 40]"
  have "\<exists>r. newReader demo_crypto (\<lambda>_. None) demo_module ?arg = Inr r \<and> rdClient r \<noteq> None"
    by (simp add: newReader_def openReader_def readerOptions_def zeroReaderConfig_def clientOptions_def buildTLSConfig_def
        buildSASL_def Let_def)
  then obtain r where r: "newReader demo_crypto (\<lambda>_. None) demo_module ?arg = Inr r" and o: "rdClient r \<noteq> None" by blast
  have u: "vuState demo_vu \<noteq> None" "ccLimit (demo_config 1) = 1" by (simp_all add: demo_vu_def demo_config_def)
  have c: "Consume dialing_consumer demo_time id demo_vu r (demo_config 1) 0 \<noteq> None"
    using o u by (simp add: Consume_def dialing_loop case_prod_beta Let_def)
  have cl1: "rdClient (fst (reader_step ?op r)) \<noteq> None"
    using o u by (simp add: Consume_def dialing_loop case_prod_beta Let_def)
  then have cl: "rdClient (fst (life_run reader_step [?op, ?bg] r)) \<noteq> None"
    by (simp add: Let_def case_prod_beta del: reader_step.simps(1))
  have f: "life_hooks reader_step reader_fires [?op, ?bg] r [BrokerConnect 1 None, FetchBatchRead ''t'' 3 40]"
    using o u c cl1 dialing_polls [of 0] by (auto simp: dialing_fetches_def simp del: reader_step.simps(1))
  have v: "vuState example_vu = Some (CurrentTags ''vu'')" "vuPushes example_vu" and ok: "order_ok id" "list_all reader_op_ok [?op, ?bg]"
    by (simp_all add: example_vu_def order_ok_def live_def demo_vu_def)
  let ?ops = "[?op, ?bg] @ [CloseReaderOp id [BrokerConnect 7000000 None] (Some example_vu)]"
  from reader_life_metrics [OF demo_module r ok(2,1) f cl v _ prod.collapse [symmetric], of "[BrokerConnect 7000000 None]"]
  have "counter_total (dialCountM registerMetrics RoleReader) (\<lambda>_. True) (snd (life_run reader_step ?ops r)) = 1 \<and>
      topic_values (batchSizeM registerMetrics RoleReader) (snd (life_run reader_step ?ops r)) = [(Some ''t'', f64_of_int 3)] \<and>
      (\<exists>mc. rdCollector (fst (life_run reader_step ?ops r)) = Some mc \<and> dialSeconds mc = [f64_of_int 7])"
    by (auto simp: demo_module_vu_def dial_obs.simps reports_hooks_def holds_hooks_def batch_size_obs_def milliseconds_def
        simp del: life_run.simps reader_step.simps append_Cons)
  then show ?thesis using r by (metis append_Cons append_Nil prod.collapse)
qed

section \<open>Samples of a VU that is stopping\<close>

text \<open>Nothing a collector has observed is left to report.\<close>

definition nothing_pending :: "metricsCollector \<Rightarrow> bool" where
  "nothing_pending mc \<longleftrightarrow>
     dialFlushed mc = dialCount mc \<and> (\<forall>t. gm_get (batchFlushed mc) t = gm_get (batchCount mc) t) \<and>
     dialSeconds mc = [] \<and> rwSeconds mc = [] \<and> waitSeconds mc = [] \<and> batchSize mc = [] \<and> batchBytes mc = []"

lemma drain_leaves_nothing:
  "collector_inv r mc \<Longrightarrow> order_ok ord \<Longrightarrow> nothing_pending (fst (drainHooks ord mc base now out))"
  unfolding nothing_pending_def using drainHooks_fields by metis

lemma drained_nothing:
  assumes "nothing_pending mc" and "collector_inv r mc" and "order_ok ord"
  shows "drained ord mc base now = []"
proof -
  have wf: "gm_wf (batchCount mc)" using assms(2) by (simp add: collector_inv_def)
  have "\<not> n > gm_get (batchFlushed mc) t" if "(t, n) \<in> set (ord (batchCount mc))" for t n
  proof -
    have "map_of (batchCount mc) t = Some n"
      using that order_keys(1,2) [OF assms(3) wf] by (metis map_of_is_SomeI)
    then show ?thesis using assms(1) by (simp add: nothing_pending_def gm_get_def)
  qed
  then show ?thesis using assms(1) by (auto simp: drained_def nothing_pending_def Let_def filter_empty_conv)
qed

lemma flushClose_nothing:
  assumes "nothing_pending mc" and "collector_inv r mc" and "order_ok ord"
  shows "snd (flushClose ord (Some mc) vo) = None"
proof -
  have "gm_wf (batchCount mc)" using assms(2) by (simp add: collector_inv_def)
  then have "snd (drainHooks ord mc base now []) = []" for base now
    using drainHooks_out [of ord mc] order_keys(1) [OF assms(3)] drained_nothing [OF assms] by simp
  then show ?thesis by (simp add: flushClose_def flush_def Let_def case_prod_beta split: option.split)
qed

text \<open>C16: A consume call whose VU context is done loses metrics: it pushes no samples at all, and what the
  hooks observed before and during the call has been drained from the collector, so that no later close
  reports it either.\<close>

theorem canceled_consume_loses_metrics:
  assumes "push_law v" and "vuCtxErr v \<noteq> None" and "vuState v \<noteq> None" and "order_ok ord"
    and "rdCollector r = Some mc" and "collector_inv RoleReader mc" and "rdClient r \<noteq> None" and "0 < ccLimit cfg"
    and "reader_fires (ConsumeOp cl tf ord v cfg w) r hs" and "Consume cl tf ord v r cfg w = Some (res, r', out, w')"
  shows "out = None \<and>
    (\<exists>mc'. rdCollector r' = Some mc' \<and>
       dialCount mc' = dialCount mc + int (length (concat (map dial_obs hs))) \<and>
       (\<forall>ord' vo. order_ok ord' \<longrightarrow> snd (flushClose ord' (rdCollector r') vo) = None))"
proof -
  let ?mc = "foldl hooks mc hs"
  obtain x y lg ofs fe to where f: "(rdCollector r', out) = flushConsume ord (Some ?mc) v x y lg ofs fe to"
    by (rule Consume_flushes [OF assms(5,9,3,7,8,10)])
  obtain base where b: "vuState v = Some base" using assms(3) by auto
  have inv: "collector_inv RoleReader ?mc" by (rule collector_inv_run_hooks [OF assms(6)])
  obtain now cs where r': "rdCollector r' = Some (fst (drainHooks ord ?mc base now cs))" and o: "out = None"
    using f assms(1,2) b by (auto simp: flushConsume_def flush_def push_law_def Let_def case_prod_beta)
  note d = collector_inv_drain [OF inv assms(4), of base now cs] drain_leaves_nothing [OF inv assms(4), of base now cs]
  have "dialCount ?mc = dialCount mc + int (length (concat (map dial_obs hs)))"
    using counts_run [OF assms(6) event_ok_Hook, of hs] by (simp add: collector_run_hooks)
  then show ?thesis
    using o r' flushClose_nothing [OF d(2,1)] drainHooks_fields(3) [OF inv assms(4), of base now cs] by auto
qed

text \<open>A VU that is stopping while its reader connects to a broker: the connection is never counted.\<close>

definition stopping_vu :: vu where
  "stopping_vu = \<lparr>vuState = Some (CurrentTags ''vu''), vuNow = 0, vuCtxErr = Some Canceled, vuPushes = False\<rparr>"

theorem canceled_consume_loses_metrics_witness:
  "\<exists>res r' w' mc'. Consume dialing_consumer demo_time id stopping_vu demo_reader (demo_config 1) 0 = Some (res, r', None, w') \<and>
     rdCollector r' = Some mc' \<and> dialCount mc' = 1 \<and> snd (flushClose id (Some mc') (Some example_vu)) = None"
proof -
  let ?C = "Consume dialing_consumer demo_time id stopping_vu demo_reader (demo_config 1) 0"
  have u: "vuState stopping_vu \<noteq> None" "ccLimit (demo_config 1) = 1" "rdClient demo_reader \<noteq> None"
    by (simp_all add: stopping_vu_def demo_config_def demo_reader_def)
  then have c: "?C \<noteq> None" by (simp add: Consume_def dialing_loop case_prod_beta Let_def)
  then obtain res r' out w' where run: "?C = Some (res, r', out, w')" by (metis not_None_eq prod_cases4)
  have f: "reader_fires (ConsumeOp dialing_consumer demo_time id stopping_vu (demo_config 1) 0) demo_reader [BrokerConnect 1 None]"
    using u c dialing_polls [of 0] by (simp add: dialing_fetches_def)
  have "order_ok id" by (simp add: order_ok_def)
  from canceled_consume_loses_metrics [OF _ _ _ this _ collector_inv_new _ _ f run] this
  obtain mc' where "out = None" "rdCollector r' = Some mc'" "dialCount mc' = 1" "snd (flushClose id (rdCollector r') (Some example_vu)) = None"
    using u by (auto simp: stopping_vu_def push_law_def demo_reader_def newMetricsCollector_def dial_obs.simps)
  then show ?thesis using run by auto
qed

end
