(* ===== verification/Delivery.thy ===== *)
theory Delivery
  imports Consumer
begin

text \<open>
  Consuming a backlog: with a broker that holds a sequence of records and hands out at least one of them to
  every poll while there are any, successive calls of \<open>Consume\<close> deliver the backlog from its start, in order,
  until all of it has been delivered.
\<close>

section \<open>A backlog behind the client\<close>

text \<open>\<open>backlog w\<close> are the messages still to come in the world \<open>w\<close>. A poll takes a non-empty part from the front; on an
  empty backlog it waits until the deadline. Setting the deadline of a call leaves the backlog as it is.\<close>

definition serves_log :: "'w kgo_consumer \<Rightarrow> time_format \<Rightarrow> bool \<Rightarrow> ('w \<Rightarrow> ConsumedMessage list) \<Rightarrow> bool" where
  "serves_log cl tf nano backlog \<longleftrightarrow>
     (\<forall>d w. backlog (withTimeout cl d w) = backlog w) \<and>
     (\<forall>w n fs w'. 0 < n \<and> pollRecords cl w n = (fs, w') \<longrightarrow>
        (if backlog w = [] then record_count fs = 0 \<and> fsCtxErr fs = Some DeadlineExceeded \<and> backlog w' = []
         else fsErrors fs = [] \<and> fsCtxErr fs = None \<and>
           (\<exists>k. 0 < k \<and> int k \<le> n \<and> k \<le> length (backlog w) \<and> fetched tf nano fs = take k (backlog w) \<and> backlog w' = drop k (backlog w))))"

lemma serves_empty:
  assumes "serves_log cl tf nano backlog" and "0 < n" and "pollRecords cl w n = (fs, w')" and "backlog w = []"
  shows "record_count fs = 0 \<and> fsCtxErr fs = Some DeadlineExceeded \<and> backlog w' = []"
  using assms unfolding serves_log_def by metis

lemma serves_some:
  assumes "serves_log cl tf nano backlog" and "0 < n" and "pollRecords cl w n = (fs, w')" and "backlog w \<noteq> []"
  obtains k where "fsErrors fs = []" "fsCtxErr fs = None" "0 < k" "int k \<le> n" "k \<le> length (backlog w)"
    "fetched tf nano fs = take k (backlog w)" "backlog w' = drop k (backlog w)"
  using assms unfolding serves_log_def by metis

lemma consume_loop_log:
  assumes "serves_log cl tf (ccNanoPrecision cfg) backlog"
  defines "need st \<equiv> nat (ccLimit cfg - int (length (csMessages st)))"
  shows "\<exists>w' st'. consume_loop cl tf cfg w st =
           Some (LoopExit (if need st \<le> length (backlog w) then None else Some DeadlineExceeded), w', st') \<and>
         csMessages st' = csMessages st @ take (need st) (backlog w) \<and> backlog w' = drop (need st) (backlog w)"
proof (induction "need st" arbitrary: w st rule: less_induct)
  case less
  let ?n = "ccLimit cfg - int (length (csMessages st))"
  obtain fs w1 where p: "pollRecords cl w ?n = (fs, w1)" by fastforce
  let ?st = "consume_fetches tf (ccNanoPrecision cfg) st fs"
  consider "?n \<le> 0" | "0 < ?n" "backlog w = []" | "0 < ?n" "backlog w \<noteq> []" by linarith
  then show ?case
  proof cases
    case 1
    then show ?thesis by (subst consume_loop.simps) (simp add: need_def)
  next
    case 2
    note e = serves_empty [OF assms(1) 2(1) p 2(2)]
    have "fetched tf (ccNanoPrecision cfg) fs = []" using e by (metis length_0_conv length_fetched)
    then show ?thesis using e 2 p by (subst consume_loop.simps) (simp add: need_def Let_def)
  next
    case 3
    obtain k where k: "fsErrors fs = []" "fsCtxErr fs = None" "0 < k" "int k \<le> ?n" "k \<le> length (backlog w)"
      "fetched tf (ccNanoPrecision cfg) fs = take k (backlog w)" "backlog w1 = drop k (backlog w)"
      by (rule serves_some [OF assms(1) 3(1) p 3(2)])
    have len: "length (csMessages ?st) = length (csMessages st) + k" using k(5,6) by simp
    have n: "need ?st = need st - k" and le: "k \<le> need st" using len k(4) by (simp_all add: need_def)
    then have "need ?st < need st" using k(3) by simp
    from less [OF this, of w1] obtain w2 st2 where r:
      "consume_loop cl tf cfg w1 ?st = Some (LoopExit (if need ?st \<le> length (backlog w1) then None else Some DeadlineExceeded), w2, st2)"
      "csMessages st2 = csMessages ?st @ take (need ?st) (backlog w1)" "backlog w2 = drop (need ?st) (backlog w1)" by blast
    have "consume_loop cl tf cfg w st = consume_loop cl tf cfg w1 ?st"
      using 3(1) p k(1,2) by (subst consume_loop.simps) (simp add: Let_def)
    moreover have "take k (backlog w) @ take (need st - k) (drop k (backlog w)) = take (need st) (backlog w)"
      using le by (metis le_add_diff_inverse take_add)
    moreover have "need ?st \<le> length (backlog w1) \<longleftrightarrow> need st \<le> length (backlog w)" using n k(5,7) le by auto
    ultimately show ?thesis using r k(6,7) n le by simp
  qed
qed

section \<open>One call\<close>

lemma Consume_log:
  assumes "serves_log cl tf (ccNanoPrecision cfg) backlog" and "vuState v \<noteq> None" and "vuCtxErr v = None" and "rdClient r \<noteq> None"
    and "0 < ccLimit cfg"
  defines "n \<equiv> nat (ccLimit cfg)"
  obtains r' out w' where "Consume cl tf ord v r cfg w =
       Some (if n \<le> length (backlog w) \<or> ccExpectTimeout cfg then Inr (take n (backlog w))
             else Inl (Errorf ''consume timed out after %s with %d of %d messages''
                         [ADur (rdMaxWait r), AInt (int (length (backlog w))), AInt (ccLimit cfg)]), r', out, w')"
    and "backlog w' = drop n (backlog w)" and "rdClient r' = rdClient r" and "rdMaxWait r' = rdMaxWait r"
proof -
  have t: "backlog (withTimeout cl d w) = backlog w" for d using assms(1) by (simp add: serves_log_def)
  obtain w' st where l: "consume_loop cl tf cfg (withTimeout cl (rdMaxWait r) w) (empty_state (rdCollector r)) =
      Some (LoopExit (if n \<le> length (backlog w) then None else Some DeadlineExceeded), w', st)"
    and m: "csMessages st = take n (backlog w)" and d: "backlog w' = drop n (backlog w)"
    using consume_loop_log [OF assms(1), of "withTimeout cl (rdMaxWait r) w" "empty_state (rdCollector r)"]
    by (auto simp: empty_state_def n_def t)
  let ?ex = "LoopExit (if n \<le> length (backlog w) then None else Some DeadlineExceeded)"
  let ?res = "if n \<le> length (backlog w) \<or> ccExpectTimeout cfg then Inr (take n (backlog w))
       else Inl (Errorf ''consume timed out after %s with %d of %d messages''
                   [ADur (rdMaxWait r), AInt (int (length (backlog w))), AInt (ccLimit cfg)])"
  have "fst (consume_result cfg v (rdMaxWait r) ?ex (csMessages st)) = ?res"
  proof (cases "n \<le> length (backlog w)")
    case True
    then show ?thesis by (simp add: consume_result_def m)
  next
    case False
    then have "int (length (csMessages st)) = int (length (backlog w))" "int (length (backlog w)) < ccLimit cfg"
      using assms(5) by (simp_all add: m n_def)
    then show ?thesis using False assms(3) by (simp add: consume_result_def m)
  qed
  then obtain a b c where c: "consume_result cfg v (rdMaxWait r) ?ex (csMessages st) = (?res, a, b, c)"
    by (cases "consume_result cfg v (rdMaxWait r) ?ex (csMessages st)") auto
  obtain mc out where fl: "consume_flush ord v st a b c = (mc, out)" by fastforce
  show thesis
  proof (rule that)
    show "Consume cl tf ord v r cfg w =
       Some (if n \<le> length (backlog w) \<or> ccExpectTimeout cfg then Inr (take n (backlog w))
             else Inl (Errorf ''consume timed out after %s with %d of %d messages''
                         [ADur (rdMaxWait r), AInt (int (length (backlog w))), AInt (ccLimit cfg)]),
             r\<lparr>rdCollector := mc\<rparr>, out, w')"
      using assms(2,4,5) unfolding Consume_def l option.case prod.case c Let_def fl by auto
  qed (simp_all add: d)
qed

section \<open>Many calls\<close>

text \<open>Calls of a script on one reader, one after the other; \<open>None\<close> when one does not return.\<close>

fun consume_calls ::
  "'w kgo_consumer \<Rightarrow> time_format \<Rightarrow> range_order \<Rightarrow> vu \<Rightarrow> ConsumeConfig list \<Rightarrow> Reader \<Rightarrow> 'w
   \<Rightarrow> (ConsumedMessage list res list \<times> Reader \<times> 'w) option" where
  "consume_calls cl tf ord v [] r w = Some ([], r, w)"
| "consume_calls cl tf ord v (cfg # cfgs) r w =
     (case Consume cl tf ord v r cfg w of
        None \<Rightarrow> None
      | Some (res, r, out, w) \<Rightarrow>
         map_option (\<lambda>(rs, r, w). (res # rs, r, w)) (consume_calls cl tf ord v cfgs r w))"

definition total_limit :: "ConsumeConfig list \<Rightarrow> nat" where
  "total_limit cfgs = sum_list (map (\<lambda>c. nat (ccLimit c)) cfgs)"

lemma calls_deliver:
  assumes "serves_log cl tf nano backlog" and "vuState v \<noteq> None" and "vuCtxErr v = None" and "rdClient r \<noteq> None"
    and "list_all (\<lambda>c. 0 < ccLimit c \<and> ccExpectTimeout c \<and> ccNanoPrecision c = nano) cfgs"
  shows "\<exists>bs r' w'. consume_calls cl tf ord v cfgs r w = Some (map Inr bs, r', w') \<and>
           concat bs = take (total_limit cfgs) (backlog w) \<and> backlog w' = drop (total_limit cfgs) (backlog w) \<and>
           (length (backlog w) \<le> total_limit cfgs \<longrightarrow> concat bs = backlog w)"
proof -
  have "\<exists>bs r' w'. consume_calls cl tf ord v cfgs r w = Some (map Inr bs, r', w') \<and>
           concat bs = take (total_limit cfgs) (backlog w) \<and> backlog w' = drop (total_limit cfgs) (backlog w)"
    using assms(4,5)
  proof (induction cfgs arbitrary: r w)
    case (Cons cfg cfgs)
    let ?n = "nat (ccLimit cfg)"
    have c: "serves_log cl tf (ccNanoPrecision cfg) backlog" "0 < ccLimit cfg" "ccExpectTimeout cfg" using assms(1) Cons.prems by auto
    obtain r1 out w1 where one: "Consume cl tf ord v r cfg w = Some (Inr (take ?n (backlog w)), r1, out, w1)"
      "backlog w1 = drop ?n (backlog w)" "rdClient r1 = rdClient r"
      by (rule Consume_log [OF c(1) assms(2,3) Cons.prems(1) c(2), of ord w]) (use c(3) in simp)
    from Cons.IH [of r1 w1] Cons.prems one(3) obtain bs r2 w2 where
      rest: "consume_calls cl tf ord v cfgs r1 w1 = Some (map Inr bs, r2, w2)"
      "concat bs = take (total_limit cfgs) (backlog w1)" "backlog w2 = drop (total_limit cfgs) (backlog w1)" by auto
    have "consume_calls cl tf ord v (cfg # cfgs) r w = Some (map Inr (take ?n (backlog w) # bs), r2, w2)"
      using one(1) rest(1) by simp
    moreover have "concat (take ?n (backlog w) # bs) = take (total_limit (cfg # cfgs)) (backlog w)"
      using rest(2) one(2) by (simp add: total_limit_def take_add)
    ultimately show ?case using rest(3) one(2) by (auto simp: total_limit_def add.commute intro!: exI [of _ "take ?n (backlog w) # bs"])
  qed (auto simp: total_limit_def)
  then show ?thesis by fastforce
qed

text \<open>C13: Everything in the backlog is delivered: calls with positive limits that accept a timeout all succeed, and
  together they return the backlog from its start, each message once and in order, as far as their limits
  reach; so once the limits add up to the length of the backlog, all of it has been delivered.\<close>

theorem log_delivered:
  assumes "serves_log cl tf nano backlog" and "vuState v \<noteq> None" and "vuCtxErr v = None" and "rdClient r \<noteq> None"
    and "list_all (\<lambda>c. 0 < ccLimit c \<and> ccExpectTimeout c \<and> ccNanoPrecision c = nano) cfgs"
  shows "\<exists>bs r' w'. consume_calls cl tf ord v cfgs r w = Some (map Inr bs, r', w') \<and>
           concat bs = take (total_limit cfgs) (backlog w) \<and> backlog w' = drop (total_limit cfgs) (backlog w) \<and>
           (length (backlog w) \<le> total_limit cfgs \<longrightarrow> concat bs = backlog w)"
  by (rule calls_deliver [OF assms])

text \<open>The broker of the examples serves a backlog of as many copies of its record as its state says.\<close>

definition demo_message :: ConsumedMessage where
  "demo_message = decodeRecord demo_time demo_record 9 False"

lemma demo_serves_log: "serves_log demo_consumer demo_time False (\<lambda>k. replicate k demo_message)"
proof -
  have f: "fetched demo_time False (demo_fetches k) = [demo_message]" if "0 < k" for k
    using that by (simp add: fetched_def demo_fetches_def demo_message_def)
  show ?thesis
    unfolding serves_log_def
  proof (intro conjI allI impI)
    show "replicate (withTimeout demo_consumer d k) demo_message = replicate k demo_message" for d k by simp
  next
    fix k n fs w'
    assume a: "0 < n \<and> pollRecords demo_consumer k n = (fs, w')"
    then have fs: "fs = demo_fetches k" "w' = k - 1" by (simp_all add: demo_consumer_def)
    show "if replicate k demo_message = [] then record_count fs = 0 \<and> fsCtxErr fs = Some DeadlineExceeded \<and> replicate w' demo_message = []
         else fsErrors fs = [] \<and> fsCtxErr fs = None \<and>
           (\<exists>j. 0 < j \<and> int j \<le> n \<and> j \<le> length (replicate k demo_message) \<and>
             fetched demo_time False fs = take j (replicate k demo_message) \<and> replicate w' demo_message = drop j (replicate k demo_message))"
    proof (cases "k = 0")
      case True
      then show ?thesis by (simp add: fs demo_fetches_def record_count_def)
    next
      case False
      then obtain j where "k = Suc j" by (cases k) auto
      then show ?thesis using a f [of k] by (auto simp: fs demo_fetches_def intro!: exI [of _ 1])
    qed
  qed
qed

theorem log_delivered_witness:
  "\<exists>bs r' w'. consume_calls demo_consumer demo_time id demo_vu
       [demo_config 2\<lparr>ccExpectTimeout := True\<rparr>, demo_config 2\<lparr>ccExpectTimeout := True\<rparr>] demo_reader 3 = Some (map Inr bs, r', w') \<and>
     concat bs = [demo_message, demo_message, demo_message]"
  using log_delivered [OF demo_serves_log, of demo_vu demo_reader
      "[demo_config 2\<lparr>ccExpectTimeout := True\<rparr>, demo_config 2\<lparr>ccExpectTimeout := True\<rparr>]" id 3]
  by (fastforce simp: demo_vu_def demo_reader_def demo_config_def total_limit_def numeral_3_eq_3)

end
