(* ===== verification/EndToEnd.thy ===== *)
theory EndToEnd
  imports Serdes Producer Delivery "HOL-Library.Multiset"
begin

text \<open>
  From one script to another: what a script serializes and produces is what a script consumes and
  deserializes, through a broker that keeps what it accepts.
\<close>

section \<open>A broker that keeps records\<close>

text \<open>What a broker changes in a record it accepts is where it stands: the partition, the offset and the
  time; a record without a topic goes to the writer's default topic.\<close>

definition kept :: "string \<Rightarrow> kgo_Record \<Rightarrow> kgo_Record \<Rightarrow> bool" where
  "kept defaultTopic r r' \<longleftrightarrow>
     rTopic r' = effective_topic defaultTopic r \<and> rKey r' = rKey r \<and> rValue r' = rValue r \<and> rHeaders r' = rHeaders r"

text \<open>A consumed message is a produced one: the bytes of key, value and headers are those the producer made.\<close>

definition same_message :: "fmt_env \<Rightarrow> string \<Rightarrow> ProduceMessage \<Rightarrow> ConsumedMessage \<Rightarrow> bool" where
  "same_message e defaultTopic p c \<longleftrightarrow>
     cmTopic c = (if pmTopic p = '''' then defaultTopic else pmTopic p) \<and>
     cmKey c = toBytes e (pmKey p) \<and> cmValue c = toBytes e (pmValue p) \<and>
     map_of (cmHeaders c) = map_option (toBytes e) \<circ> map_of (pmHeaders p)"

lemma decode_headers:
  assumes "distinct (map fst (rHeaders rec))"
  shows "cmHeaders (decodeRecord tf rec hw nano) = rHeaders rec"
proof -
  have "foldl (\<lambda>m (key, value). AList.update key value m) [] (rHeaders rec) = put_all (rHeaders rec)"
    unfolding put_all_def foldl_conv_fold by (rule fold_cong) auto
  then show ?thesis using put_all_distinct [OF assms] by (simp add: decodeRecord_def)
qed

lemma message_kept:
  assumes "kept dt (marshalRecord e p) rec" and "distinct (map fst (pmHeaders p))"
  shows "same_message e dt p (decodeRecord tf rec hw nano)"
proof -
  have "map fst (rHeaders rec) = map fst (pmHeaders p)"
    using assms(1) by (simp add: kept_def marshalRecord_def comp_def split_def)
  then have "cmHeaders (decodeRecord tf rec hw nano) = rHeaders rec" using assms(2) by (simp add: decode_headers)
  then show ?thesis
    using assms(1) by (auto simp: same_message_def kept_def marshalRecord_def effective_topic_def map_of_map fun_eq_iff)
qed

text \<open>What franz-go documents for a synchronous produce: results without an error mean that the log has
  every record once. Between partitions it promises no order.\<close>

definition stores :: "string \<Rightarrow> kgo_Record list \<Rightarrow> produce_result list \<Rightarrow> kgo_Record list \<Rightarrow> bool" where
  "stores defaultTopic recs rs records \<longleftrightarrow>
     (failures rs = [] \<longrightarrow> (\<exists>ss. mset ss = mset records \<and> list_all2 (kept defaultTopic) recs ss))"

lemma Produce_ok:
  assumes "fst (Produce e ord kp v wr pc b) = None" and "\<And>rs. firstErr kp rs = None \<longleftrightarrow> failures rs = []"
  shows "failures (fst (produceSync kp (map (marshalRecord e) (pcMessages pc)) b)) = []"
  using assms(1) assms(2) [symmetric] by (auto simp: Produce_def Let_def case_prod_beta split: if_splits option.splits)

lemma mset_map_arrange:
  "mset ss = mset (map f xs) \<Longrightarrow> \<exists>ys. mset ys = mset xs \<and> map f ys = ss"
proof (induction ss arbitrary: xs)
  case (Cons s ss)
  then have "s \<in> set (map f xs)" by (metis list.set_intros(1) mset_eq_setD)
  then obtain x where x: "x \<in> set xs" "f x = s" by auto
  then have "mset ss = mset (map f (remove1 x xs))" using Cons.prems by (simp add: image_mset_Diff) (metis add_mset_remove_trivial)
  from Cons.IH [OF this] obtain ys where "mset ys = mset (remove1 x xs)" "map f ys = ss" by blast
  then show ?case using x by (intro exI [of _ "x # ys"]) simp
qed simp

lemma stored_messages:
  assumes "list_all2 (kept dt) (map (marshalRecord e) ps) ss" and "list_all (\<lambda>p. distinct (map fst (pmHeaders p))) ps"
    and "mset ss = mset (map fst entries)"
  shows "\<exists>ms. mset ms = mset (map (\<lambda>(rec, hw). decodeRecord tf rec hw nano) entries) \<and> list_all2 (same_message e dt) ps ms"
proof -
  from assms(3) obtain entries' where e: "mset entries' = mset entries" "map fst entries' = ss"
    using mset_map_arrange by metis
  have "list_all2 (same_message e dt) ps (map (\<lambda>(rec, hw). decodeRecord tf rec hw nano) entries')"
    using assms(1,2) unfolding e(2) [symmetric]
    by (auto simp: list_all2_conv_all_nth list_all_length case_prod_beta intro!: message_kept)
  then show ?thesis using e(1) by (metis mset_map)
qed

section \<open>Properties\<close>

text \<open>C12: What is produced is consumed: when a produce call succeeds and a reader is served what the broker
  stored, consume calls whose limits reach the number of messages succeed and return each of the messages
  exactly once, in the order the broker serves them, with the same topic (the writer's default where a
  message names none), key, value and headers.\<close>

theorem produced_messages_consumed:
  assumes "fst (Produce e ord kp pv wr pc b) = None" and "\<And>rs. firstErr kp rs = None \<longleftrightarrow> failures rs = []"
    and "stores (wrDefaultTopic wr) (map (marshalRecord e) (pcMessages pc))
           (fst (produceSync kp (map (marshalRecord e) (pcMessages pc)) b)) (map fst entries)"
    and "list_all (\<lambda>p. distinct (map fst (pmHeaders p))) (pcMessages pc)"
    and "serves_log cl tf nano backlog" and "backlog w = map (\<lambda>(rec, hw). decodeRecord tf rec hw nano) entries"
    and "vuState v \<noteq> None" and "vuCtxErr v = None" and "rdClient r \<noteq> None"
    and "list_all (\<lambda>c. 0 < ccLimit c \<and> ccExpectTimeout c \<and> ccNanoPrecision c = nano) cfgs"
    and "length (pcMessages pc) \<le> total_limit cfgs"
  shows "\<exists>bs r' w' ms. consume_calls cl tf ord' v cfgs r w = Some (map Inr bs, r', w') \<and> concat bs = backlog w \<and>
           mset ms = mset (concat bs) \<and> list_all2 (same_message e (wrDefaultTopic wr)) (pcMessages pc) ms"
proof -
  obtain ss where s: "mset ss = mset (map fst entries)" "list_all2 (kept (wrDefaultTopic wr)) (map (marshalRecord e) (pcMessages pc)) ss"
    using assms(3) Produce_ok [OF assms(1,2)] unfolding stores_def by blast
  then obtain ms where m: "mset ms = mset (backlog w)" "list_all2 (same_message e (wrDefaultTopic wr)) (pcMessages pc) ms"
    using stored_messages [OF s(2) assms(4) s(1)] assms(6) by auto
  then have "length (backlog w) \<le> total_limit cfgs"
    using assms(11) by (metis list_all2_lengthD size_mset)
  then show ?thesis
    using calls_deliver [OF assms(5,7,8,9,10), of ord' w] m by fastforce
qed

text \<open>The example: two copies of one message, produced by a writer with a default topic and served one record per poll.\<close>

definition demo_sent :: ProduceMessage where
  "demo_sent = \<lparr>pmTopic = ''t'', pmKey = GNil, pmValue = GBytes (Some [1, 2]), pmHeaders = [], pmTime = None\<rparr>"

theorem produced_messages_consumed_witness:
  "\<exists>bs r' w' ms. consume_calls demo_consumer demo_time id demo_vu [demo_config 3\<lparr>ccExpectTimeout := True\<rparr>] demo_reader 2
       = Some (map Inr bs, r', w') \<and> concat bs = [demo_message, demo_message] \<and>
     mset ms = mset (concat bs) \<and> list_all2 (same_message example_fmt ''d'') [demo_sent, demo_sent] ms"
proof -
  let ?pc = "\<lparr>pcMessages = [demo_sent, demo_sent]\<rparr>" and ?entries = "[(demo_record, 9), (demo_record, 9)]"
  have first: "firstErr (example_broker None) rs = None \<longleftrightarrow> failures rs = []" for rs
    by (induction rs) (auto simp: example_defs failures_def)
  have "kept ''d'' (marshalRecord example_fmt demo_sent) demo_record"
    by (simp add: kept_def marshalRecord_def demo_sent_def demo_record_def effective_topic_def toBytes_def)
  then have st: "stores ''d'' [marshalRecord example_fmt demo_sent, marshalRecord example_fmt demo_sent] rs [demo_record, demo_record]" for rs
    by (auto simp: stores_def intro!: exI [of _ "[demo_record, demo_record]"])
  have "fst (Produce example_fmt id (example_broker None) example_vu example_writer ?pc 0) = None"
    by (simp add: Produce_def example_defs Let_def case_prod_beta split: prod.splits)
  then show ?thesis
    using produced_messages_consumed [where e = example_fmt and ord = id and kp = "example_broker None" and pv = example_vu
        and wr = example_writer and pc = ?pc and b = 0 and entries = ?entries and w = 2 and cl = demo_consumer and tf = demo_time
        and nano = False and backlog = "\<lambda>k. replicate k demo_message" and v = demo_vu and r = demo_reader and ord' = id
        and cfgs = "[demo_config 3\<lparr>ccExpectTimeout := True\<rparr>]", OF _ first _ _ demo_serves_log] st
    by (simp add: example_writer_def demo_sent_def demo_vu_def demo_reader_def demo_config_def total_limit_def
        demo_message_def numeral_2_eq_2)
qed

lemma uint8_bytes: "coerceBytes u = Some (Some b) \<Longrightarrow> toBytes e u = Some b"
  by (cases u) (auto simp: toBytes_def)

text \<open>C14: A JSON object travels from script to script: serialized, put into a message as its value, produced,
  kept by the broker, consumed and deserialized with the same schema, it has the same members as before, up
  to the types JSON has.\<close>

theorem json_travels:
  assumes "rgVU sr \<noteq> None" and "uint8_ok cd" and "json_clean maxNestingDepth (GMap kvs)" and "required_ok (sSchema s) kvs"
    and "0 \<le> sID s" and "sID s \<le> maxUint32"
  shows "\<exists>u. fst (Serialize ext cd (Some \<lparr>cnData = GMap kvs, cnSchemaType = ''JSON'', cnSchema = Some s\<rparr>) sr) = Inr u \<and>
     (\<forall>p rec. pmValue p = u \<and> kept dt (marshalRecord e p) rec \<longrightarrow>
        (\<exists>m. fst (Deserialize ext cd (Some \<lparr>cnData = GBytes (cmValue (decodeRecord tf rec hw nano)), cnSchemaType = ''JSON'',
                    cnSchema = Some s\<rparr>) sr') = Inr (GMap m) \<and>
             map_of m = map_option json_view \<circ> map_of kvs))"
proof -
  obtain out m where o: "serialize ext cd (GMap kvs) ''JSON'' (Some s) sr = (Inr (Some out), sr)"
    "deserialize ext cd (Some out) ''JSON'' (Some s) sr' = (Inr (GMap m), sr')" "map_of m = map_option json_view \<circ> map_of kvs"
    using json_roundtrip [OF assms(3-6), of ext cd sr sr'] by blast
  obtain u where u: "newUint8Array cd (Some out) = Inr u" "coerceBytes u = Some (Some out)"
    using assms(2) unfolding uint8_ok_def by (metis slice_of_simps(2))
  have "fst (Serialize ext cd (Some \<lparr>cnData = GMap kvs, cnSchemaType = ''JSON'', cnSchema = Some s\<rparr>) sr) = Inr u"
    using assms(1) o(1) u(1) by (simp add: Serialize_def bytesToUint8Array_def)
  moreover have "cmValue (decodeRecord tf rec hw nano) = Some out" if "pmValue p = u" "kept dt (marshalRecord e p) rec" for p rec
    using that uint8_bytes [OF u(2)] by (simp add: kept_def marshalRecord_def)
  ultimately show ?thesis using o(2,3) by (auto simp: Deserialize_def)
qed

theorem json_travels_witness:
  "\<exists>u m. fst (Serialize demo_outside demo_codecs (Some \<lparr>cnData = GMap [(''id'', GInt KInt64 3)], cnSchemaType = ''JSON'',
          cnSchema = Some demo_schema\<rparr>) (demo_registry\<lparr>rgVU := Some \<lparr>rvContext = True\<rparr>\<rparr>)) = Inr u \<and>
     fst (Deserialize demo_outside demo_codecs (Some \<lparr>cnData = GBytes (cmValue (decodeRecord demo_time
             (marshalRecord example_fmt (demo_sent\<lparr>pmValue := u\<rparr>)) 9 False)), cnSchemaType = ''JSON'',
          cnSchema = Some demo_schema\<rparr>) demo_registry) = Inr (GMap m) \<and>
     map_of m = [''id'' \<mapsto> GFloat64 (Fin 3)]"
proof -
  let ?kvs = "[(''id'', GInt KInt64 3)]"
  have c: "json_clean maxNestingDepth (GMap ?kvs)" by (simp add: maxNestingDepth_def utf8_ascii)
  have r: "required_ok (sSchema demo_schema) ?kvs" using demo_required_decodes by (simp add: required_ok_def demo_schema_def)
  have i: "0 \<le> sID demo_schema" "sID demo_schema \<le> maxUint32" by (simp_all add: demo_schema_def maxUint32_def)
  have v: "json_view (GInt KInt64 3) = GFloat64 (Fin 3)" using f64_of_int_exact [of 3] by simp
  have k: "kept ''d'' (marshalRecord example_fmt (demo_sent\<lparr>pmValue := u\<rparr>)) (marshalRecord example_fmt (demo_sent\<lparr>pmValue := u\<rparr>))" for u
    by (simp add: kept_def effective_topic_def marshalRecord_def demo_sent_def)
  obtain u where u: "fst (Serialize demo_outside demo_codecs (Some \<lparr>cnData = GMap ?kvs, cnSchemaType = ''JSON'',
          cnSchema = Some demo_schema\<rparr>) (demo_registry\<lparr>rgVU := Some \<lparr>rvContext = True\<rparr>\<rparr>)) = Inr u"
    "\<And>p rec. pmValue p = u \<and> kept ''d'' (marshalRecord example_fmt p) rec \<Longrightarrow>
        \<exists>m. fst (Deserialize demo_outside demo_codecs (Some \<lparr>cnData = GBytes (cmValue (decodeRecord demo_time rec 9 False)),
               cnSchemaType = ''JSON'', cnSchema = Some demo_schema\<rparr>) demo_registry) = Inr (GMap m) \<and>
            map_of m = map_option json_view \<circ> map_of ?kvs"
    using json_travels [OF _ uint8_demo c r i, where sr = "demo_registry\<lparr>rgVU := Some \<lparr>rvContext = True\<rparr>\<rparr>"
        and ext = demo_outside and sr' = demo_registry and dt = "''d''" and e = example_fmt and tf = demo_time and hw = 9 and nano = False]
    by fastforce
  from u(2) [of "demo_sent\<lparr>pmValue := u\<rparr>", OF conjI [OF _ k]] obtain m where
    m: "fst (Deserialize demo_outside demo_codecs (Some \<lparr>cnData = GBytes (cmValue (decodeRecord demo_time
           (marshalRecord example_fmt (demo_sent\<lparr>pmValue := u\<rparr>)) 9 False)), cnSchemaType = ''JSON'',
           cnSchema = Some demo_schema\<rparr>) demo_registry) = Inr (GMap m)"
    "map_of m = map_option json_view \<circ> map_of ?kvs" by auto
  have "map_option json_view \<circ> map_of ?kvs = [''id'' \<mapsto> GFloat64 (Fin 3)]" using v by (auto simp: fun_eq_iff)
  then show ?thesis using u(1) m by metis
qed

end
