(* ===== verification/Spec2Isabelle.thy ===== *)
theory Spec2Isabelle
  imports Prelude WireFormat GoFloat FloatText GoValue GoTime Constants Client Metrics Lifecycle Producer Consumer Admin Jks Avro
    Base64 Utf8 Json JsonCodec JsonTypes Registry Serdes KafkaModule Lifetime Delivery EndToEnd
begin

text \<open>
  Verification library of k6/x/kafka (the Go packages under src/pkg/kafka and src/register.go), the
  franz-go based k6 extension for load testing Apache Kafka. A k6 script imports the module, constructs
  writers, readers, connections and schema registries, and calls their methods from its virtual users;
  the extension builds franz-go clients, translates values between JavaScript and Kafka, talks to a schema
  registry and reports metrics.

  Theories, in the order they build on each other, and what they model:

  \<^item> Prelude: bytes and Go strings (lists of 8-bit characters), the error interface as a datatype whose
    constructors carry the source's format strings, results as sums, Go maps as association lists, decimal
    printing. WireFormat: the Confluent envelope (encodeWireFormat, decodeWireFormat, withWireFormat,
    checkAndStripWireFormat) and the locale framing.
  \<^item> GoFloat: IEEE numbers with their order and correct rounding. FloatText: strconv's shortest decimal form of a float, and its
    reading. GoValue: dynamic values crossing the JavaScript bridge, coerceBytes, coerceByte, coerceNumber, toBytes with
    the verb v of package fmt. GoTime: time.ParseDuration. Utf8: DecodeRune, EncodeRune, Valid. Base64.
  \<^item> Json: the text format of encoding/json, its printer and its scanner and parser. JsonCodec: Marshal of a dynamic
    value, Unmarshal and Decode into a map and into the Schema struct. JsonTypes: what decoding can give.
  \<^item> Constants: constants.go. Client: config.go, sasl.go, tlsconfig.go, client.go, and the locale
    client_builder that writers, readers and connections instantiate.
  \<^item> Metrics: metrics.go, the collector with its hooks and flushes, and the locale drained_metric with one
    interpretation per metric. Lifecycle: what the client objects share, the locale closable.
  \<^item> Producer: producer.go. Consumer: consumer.go, its polling loop a partial_function. Admin: connection.go
    and admin.go, with the locale guarded_operation. Jks: jks.go with PEM.
  \<^item> Avro: Avro normalization and the relation avro_rep it refines. Registry: the registry client, its two
    caches and the locale cached_call, with schemas in an explicit heap because scripts can change the
    objects they are given. Serdes: serialization and deserialization.
  \<^item> KafkaModule: module.go and register.go. Lifetime: whole lives of writers and readers, related to
    executions of their collector by the locale metered, and what a stopping VU loses. Delivery: successive
    calls of Consume on the records a broker holds. EndToEnd: from a script that serializes and produces to one
    that consumes and deserializes. This theory: properties that span components.

  How the model corresponds to the code. A struct is a record with one field per Go field (pointers that may
  be nil are options); a method is a definition that takes the receiver and returns it updated next to its
  result; effects on the client and the sample buffer are returned as lists in the order they are made.
  Go's int and int64 are unbounded integers with wrap-around written out where it can occur; floats are
  exact rationals with the IEEE special values and rounding where the code converts. A range over a map
  visits the entries in an order that is a parameter (order_ok: any permutation). What lies outside and keeps a
  state of its own is a function that takes a world and returns the next one, threaded through the calls in their
  order: the brokers behind ProduceSync, PollRecords and context.WithTimeout, and the HTTP registry. So that a
  rejected call leaves the world as it is says that nothing was sent. The hooks that franz-go calls fire during the calls
  that wait for brokers, in the background between them (the operations WriterHooksOp and ReaderHooksOp of theory Lifetime), while a
  writer flushes, and while a closed reader commits and closes (the hooks called late). The calls of avro.Parse are numbered
  (rgParses), because the parser keeps a global cache of named types and may answer differently later. Go's nil map of a
  decoded JSON null is the map without entries.

  Parameters, with the laws properties assume of them: the franz-go client (productive, honours_max and
  reports_deadline for polls; firstErr finds an error exactly when there is one), crypto/tls and crypto/x509
  on PEM text, the key store library, the file system, HTTP round trips, whether k6 pushes samples (push_law), the Avro parser and codec, the
  JSON text of array buffers and other foreign types, and the JavaScript runtime's ExportTo and Uint8Array. Each property that assumes a law has a
  witness with a concrete parameter that satisfies it.

  Bounds and termination: metric properties bound the number of observations by 2^53, below which a float
  counts exactly. Consume is a partial_function: that it returns is the property consume_returns. The
  recursions of Avro normalization, UTF-8, ParseDuration and JSON have termination proofs; the parser's check that
  the rest of a list is shorter always succeeds (parse_guard), and nesting is limited to 10000 as in Go. The search
  for the shortest decimal form tries up to 17 digits, which always suffices for a float64 (candidate_17).

  What the groups of lemmas show: round trips of the envelope, of PEM, of floats, of JSON texts and of the serdes; that
  what JSON decoding gives can always be encoded again; that everything a broker holds is delivered, and that this is what was produced; that collectors
  lose and repeat nothing in any interleaving, lifted to whole lives of objects, as long as the VU's context is
  not done, and what is lost when it is; that calls return exactly what
  the broker delivered and report exactly what they returned; that options, requests and TLS settings are
  exactly those configured; that a cached schema is the one first fetched or parsed; that closing happens once; which inputs are errors.

  Not modelled: that make panics or memory runs out when Consume asks for the capacity of a huge limit; the hooks of a writer's
  client that fire while it closes, after its flush; the text of errors made by libraries (kept as opaque causes), the locks of the collector and
  the registry (every method runs to completion; hook calls interleave between flushes, which is what the locks
  guarantee), the response body's Close, and the JavaScript wrapping of returned Go objects.
\<close>

section \<open>Properties across components\<close>

text \<open>What a script gets under an exported name.\<close>

definition const_str :: "string \<Rightarrow> string" where
  "const_str name = (case map_of moduleConstants name of Some (CStr v) \<Rightarrow> v | _ \<Rightarrow> '''')"

definition const_int :: "string \<Rightarrow> int" where
  "const_int name = (case map_of moduleConstants name of Some (CInt n) \<Rightarrow> n | _ \<Rightarrow> 0)"

lemma const_eval:
  "map const_str [''CODEC_GZIP'', ''CODEC_SNAPPY'', ''CODEC_LZ4'', ''CODEC_ZSTD''] = [codecGzip, codecSnappy, codecLz4, codecZstd]"
  "map const_str [''NONE'', ''SASL_PLAIN'', ''SASL_SCRAM_SHA256'', ''SASL_SCRAM_SHA512'', ''SASL_SSL'', ''SASL_AWS_IAM''] =
     [saslNone, saslPlain, saslScramSha256, saslScramSha512, saslSsl, saslAwsIam]"
  "map const_str [''TLS_1_0'', ''TLS_1_1'', ''TLS_1_2'', ''TLS_1_3''] = [tls10, tls11, tls12, tls13]"
  "map const_str [''KEY'', ''VALUE''] = [elementKey, elementValue]"
  "map const_str [''ISOLATION_LEVEL_READ_UNCOMMITTED'', ''ISOLATION_LEVEL_READ_COMMITTED''] =
     [isolationReadUncommitted, isolationReadCommitted]"
  "map const_str [''START_OFFSETS_FIRST_OFFSET'', ''START_OFFSETS_LAST_OFFSET'', ''FIRST_OFFSET'', ''LAST_OFFSET''] =
     [startOffsetFirst, startOffsetLast, startOffsetFirst, startOffsetLast]"
  "map const_str [''TOPIC_NAME_STRATEGY'', ''RECORD_NAME_STRATEGY'', ''TOPIC_RECORD_NAME_STRATEGY''] =
     [topicNameStrategy, recordNameStrategy, topicRecordNameStrategy]"
  "map const_str [''BALANCER_ROUND_ROBIN'', ''BALANCER_LEAST_BYTES'', ''BALANCER_HASH'', ''BALANCER_CRC32'', ''BALANCER_MURMUR2''] =
     [balancerRoundRobin, balancerLeastBytes, balancerHash, balancerCrc32, balancerMurmur2]"
  "map const_str [''GROUP_BALANCER_RANGE'', ''GROUP_BALANCER_ROUND_ROBIN'', ''GROUP_BALANCER_RACK_AFFINITY''] =
     [groupBalancerRange, groupBalancerRoundRobin, groupBalancerRackAffinity]"
  "map const_str [''SCHEMA_TYPE_STRING'', ''SCHEMA_TYPE_BYTES'', ''SCHEMA_TYPE_AVRO'', ''SCHEMA_TYPE_JSON'', ''SCHEMA_TYPE_PROTOBUF''] =
     [schemaTypeString, schemaTypeBytes, schemaTypeAvro, schemaTypeJSON, schemaTypeProtobuf]"
  "map const_int [''NANOSECOND'', ''MICROSECOND'', ''MILLISECOND'', ''SECOND'', ''MINUTE'', ''HOUR''] =
     [1, 1000, 1000000, 1000000000, 60000000000, 3600000000000]"
  unfolding const_str_def const_int_def moduleConstants_def by (simp_all del: constant_defs)

lemmas const_values = const_eval [simplified list.map list.inject simp_thms]

lemma toLower_element: "toLower ext ''key'' = ''key''" "toLower ext ''value'' = ''value''"
  by (simp_all add: toLower_def ascii_lower_def)

text \<open>C24: Every exported constant means exactly what its name says to the code that receives it: the codecs, the SASL
  mechanisms (\<open>NONE\<close> is no SASL, \<open>SASL_AWS_IAM\<close> an error of its own), the TLS versions, the elements in a
  subject name, the isolation levels, the start offsets with their aliases, the subject name strategies, the
  balancers (\<open>BALANCER_CRC32\<close> leaves the client's default), the group balancers (\<open>GROUP_BALANCER_RACK_AFFINITY\<close> is left out),
  the schema types and the time units in nanoseconds. There are no other constants and no name is exported twice.\<close>

theorem exported_constants_recognised:
  "compressionCodec (const_str ''CODEC_GZIP'') = Some GzipCompression \<and>
   compressionCodec (const_str ''CODEC_SNAPPY'') = Some SnappyCompression \<and>
   compressionCodec (const_str ''CODEC_LZ4'') = Some Lz4Compression \<and>
   compressionCodec (const_str ''CODEC_ZSTD'') = Some ZstdCompression \<and>
   map (\<lambda>name. buildSASL (Some \<lparr>saslUsername = u, saslPassword = p, saslAlgorithm = const_str name, saslAWSProfile = prf\<rparr>) True)
       [''NONE'', ''SASL_PLAIN'', ''SASL_SSL'', ''SASL_SCRAM_SHA256'', ''SASL_SCRAM_SHA512'', ''SASL_AWS_IAM''] =
     [Inr None, Inr (Some (PlainMechanism u p)), Inr (Some (PlainMechanism u p)), Inr (Some (ScramSha256Mechanism u p)),
      Inr (Some (ScramSha512Mechanism u p)), Inl errAWSIAMNotImplemented] \<and>
   map (tlsVersion \<circ> const_str) [''TLS_1_0'', ''TLS_1_1'', ''TLS_1_2'', ''TLS_1_3''] =
     [Inr 0x0301, Inr 0x0302, Inr 0x0303, Inr 0x0304] \<and>
   getSubjectName ext topic (const_str ''KEY'') '''' schema sr = (Inr (topic @ ''-key''), sr) \<and>
   getSubjectName ext topic (const_str ''VALUE'') '''' schema sr = (Inr (topic @ ''-value''), sr) \<and>
   isolationLevel (const_str ''ISOLATION_LEVEL_READ_UNCOMMITTED'') = ReadUncommitted \<and>
   isolationLevel (const_str ''ISOLATION_LEVEL_READ_COMMITTED'') = ReadCommitted \<and>
   map (startOffsetReset \<circ> const_str) [''START_OFFSETS_FIRST_OFFSET'', ''FIRST_OFFSET'', ''START_OFFSETS_LAST_OFFSET'', ''LAST_OFFSET''] =
     [AtStart, AtStart, AtEnd, AtEnd] \<and>
   getSubjectName ext topic el (const_str ''TOPIC_NAME_STRATEGY'') schema sr = (Inr (topic @ ''-'' @ toLower ext el), sr) \<and>
   getSubjectName ext topic el (const_str ''RECORD_NAME_STRATEGY'') schema sr = recordFullName ext schema sr \<and>
   getSubjectName ext topic el (const_str ''TOPIC_RECORD_NAME_STRATEGY'') schema sr =
     apfst (map_sum id (\<lambda>name. topic @ ''-'' @ name)) (recordFullName ext schema sr) \<and>
   map (\<lambda>name. partitioner (GString (const_str name)))
       [''BALANCER_ROUND_ROBIN'', ''BALANCER_LEAST_BYTES'', ''BALANCER_HASH'', ''BALANCER_MURMUR2'', ''BALANCER_CRC32''] =
     [Some RoundRobinPartitioner, Some LeastBackupPartitioner, Some StickyKeyPartitioner, Some StickyKeyPartitioner, None] \<and>
   map (\<lambda>name. groupBalancers [const_str name])
       [''GROUP_BALANCER_RANGE'', ''GROUP_BALANCER_ROUND_ROBIN'', ''GROUP_BALANCER_RACK_AFFINITY''] =
     [[RangeBalancer], [RoundRobinBalancer], []] \<and>
   serialize ext cd (GString str) (const_str ''SCHEMA_TYPE_STRING'') sch sr = (Inr (Some (string_bytes str)), sr) \<and>
   serialize ext cd (GBytes bs) (const_str ''SCHEMA_TYPE_BYTES'') sch sr = (Inr bs, sr) \<and>
   serialize ext cd d (const_str ''SCHEMA_TYPE_AVRO'') None sr = (Inl (Errorf ''SchemaRegistry: AVRO serialize requires schema'' []), sr) \<and>
   serialize ext cd d (const_str ''SCHEMA_TYPE_JSON'') None sr = (Inl (Errorf ''SchemaRegistry: JSON serialize requires schema'' []), sr) \<and>
   serialize ext cd d (const_str ''SCHEMA_TYPE_PROTOBUF'') sch sr = (Inl errProtobufUnsupported, sr) \<and>
   map const_int [''NANOSECOND'', ''MICROSECOND'', ''MILLISECOND'', ''SECOND'', ''MINUTE'', ''HOUR''] =
     [1, 10 ^ 3, 10 ^ 6, 10 ^ 9, 60 * 10 ^ 9, 3600 * 10 ^ 9] \<and>
   distinct (map fst moduleConstants) \<and>
   set (map fst moduleConstants) =
     {''CODEC_GZIP'', ''CODEC_SNAPPY'', ''CODEC_LZ4'', ''CODEC_ZSTD'', ''NONE'', ''SASL_PLAIN'', ''SASL_SCRAM_SHA256'',
      ''SASL_SCRAM_SHA512'', ''SASL_SSL'', ''SASL_AWS_IAM'', ''TLS_1_0'', ''TLS_1_1'', ''TLS_1_2'', ''TLS_1_3'', ''KEY'', ''VALUE'',
      ''ISOLATION_LEVEL_READ_UNCOMMITTED'', ''ISOLATION_LEVEL_READ_COMMITTED'', ''START_OFFSETS_FIRST_OFFSET'',
      ''START_OFFSETS_LAST_OFFSET'', ''FIRST_OFFSET'', ''LAST_OFFSET'', ''TOPIC_NAME_STRATEGY'', ''RECORD_NAME_STRATEGY'',
      ''TOPIC_RECORD_NAME_STRATEGY'', ''BALANCER_ROUND_ROBIN'', ''BALANCER_LEAST_BYTES'', ''BALANCER_HASH'', ''BALANCER_CRC32'',
      ''BALANCER_MURMUR2'', ''GROUP_BALANCER_RANGE'', ''GROUP_BALANCER_ROUND_ROBIN'', ''GROUP_BALANCER_RACK_AFFINITY'',
      ''SCHEMA_TYPE_STRING'', ''SCHEMA_TYPE_BYTES'', ''SCHEMA_TYPE_AVRO'', ''SCHEMA_TYPE_JSON'', ''SCHEMA_TYPE_PROTOBUF'',
      ''NANOSECOND'', ''MICROSECOND'', ''MILLISECOND'', ''SECOND'', ''MINUTE'', ''HOUR''}"
proof -
  have r: "(case recordFullName ext schema sr of (Inl err, sr) \<Rightarrow> (Inl err, sr) | (Inr name, sr) \<Rightarrow> (Inr name, sr)) =
      recordFullName ext schema sr"
    by (simp split: prod.split sum.split)
  have t: "(case recordFullName ext schema sr of (Inl err, sr) \<Rightarrow> (Inl err, sr) | (Inr name, sr) \<Rightarrow> (Inr (topic @ ''-'' @ name), sr)) =
      apfst (map_sum id (\<lambda>name. topic @ ''-'' @ name)) (recordFullName ext schema sr)"
    by (simp split: prod.split sum.split)
  have names: "distinct (map fst moduleConstants)" unfolding moduleConstants_def by simp
  show ?thesis
    using names
    by (simp add: const_values compressionCodec_def buildSASL_def tlsVersion_def getSubjectName_def toLower_element isolationLevel_def
        startOffsetReset_def r t partitioner_def serialize_def moduleConstants_def)
qed

text \<open>C9: Credentials given with \<open>SASL_SSL\<close> never travel unencrypted: every writer, reader and connection a
  script can construct with them has a client that dials through TLS.\<close>

theorem sasl_ssl_always_encrypted:
  assumes "saslAlgorithm sc = saslSsl"
  shows "(newWriter cr nc m (Some (Inr wc)) = Inr w \<and> wSASL wc = Some sc \<longrightarrow>
            (\<exists>opts t. wrClient w = Some opts \<and> DialTLSConfig t \<in> set opts)) \<and>
         (newReader cr nc m (Some (Inr rc)) = Inr r \<and> rcSASL rc = Some sc \<longrightarrow>
            (\<exists>opts t. rdClient r = Some opts \<and> DialTLSConfig t \<in> set opts)) \<and>
         (fst (newConnection cr nc ping m (Some (Inr kc))) = Inr k \<and> ncSASL kc = Some sc \<longrightarrow>
            (\<exists>opts t. cnClient k = Some opts \<and> DialTLSConfig t \<in> set opts))"
proof (intro conjI impI)
  assume a: "newWriter cr nc m (Some (Inr wc)) = Inr w \<and> wSASL wc = Some sc"
  then obtain opts where "writerOptions cr wc (writerCollector m) = Inr opts" "wrClient w = Some opts"
    by (auto simp: newWriter_def openWriter_def split: sum.splits option.splits if_splits)
  then show "\<exists>opts t. wrClient w = Some opts \<and> DialTLSConfig t \<in> set opts"
    using writer_client.sasl_ssl_encrypted a assms by blast
next
  assume a: "newReader cr nc m (Some (Inr rc)) = Inr r \<and> rcSASL rc = Some sc"
  then obtain opts maxWait where "readerOptions cr rc maxWait (readerCollector m) = Inr opts" "rdClient r = Some opts"
    by (auto simp: newReader_def openReader_def split: sum.splits option.splits if_splits)
  then show "\<exists>opts t. rdClient r = Some opts \<and> DialTLSConfig t \<in> set opts"
    using reader_client.sasl_ssl_encrypted a assms by blast
next
  assume a: "fst (newConnection cr nc ping m (Some (Inr kc))) = Inr k \<and> ncSASL kc = Some sc"
  then obtain opts where "clientOptions cr [ncAddress kc] (ncSASL kc) (ncTLS kc) = Inr opts" "cnClient k = Some opts"
    by (auto simp: newConnection_def openConnection_def split: sum.splits option.splits)
  then show "\<exists>opts t. cnClient k = Some opts \<and> DialTLSConfig t \<in> set opts"
    using connection_client.sasl_ssl_encrypted a assms by blast
qed

theorem sasl_ssl_always_encrypted_witness:
  "\<exists>k opts t. fst (newConnection demo_crypto (\<lambda>_. None) (\<lambda>_ _. None) demo_module (Some (Inr
       \<lparr>ncAddress = ''b'', ncSASL = Some \<lparr>saslUsername = ''u'', saslPassword = ''p'', saslAlgorithm = ''sasl_ssl'', saslAWSProfile = []\<rparr>,
        ncTLS = Some \<lparr>tlsEnableTLS = True, tlsInsecureSkipTLSVerify = False, tlsMinVersion = [], tlsClientCertPem = [],
          tlsClientKeyPem = [], tlsServerCaPem = []\<rparr>\<rparr>))) = Inr k \<and> cnClient k = Some opts \<and> DialTLSConfig t \<in> set opts"
proof -
  let ?sc = "\<lparr>saslUsername = ''u'', saslPassword = ''p'', saslAlgorithm = ''sasl_ssl'', saslAWSProfile = []\<rparr>"
  let ?kc = "\<lparr>ncAddress = ''b'', ncSASL = Some ?sc,
        ncTLS = Some \<lparr>tlsEnableTLS = True, tlsInsecureSkipTLSVerify = False, tlsMinVersion = [], tlsClientCertPem = [],
          tlsClientKeyPem = [], tlsServerCaPem = []\<rparr>\<rparr>"
  have "\<exists>k. fst (newConnection demo_crypto (\<lambda>_. None) (\<lambda>_ _. None) demo_module (Some (Inr ?kc))) = Inr k"
    by (simp add: newConnection_def openConnection_def clientOptions_def buildTLSConfig_def tlsConfigFrom_def buildSASL_def Let_def)
  then obtain k where k: "fst (newConnection demo_crypto (\<lambda>_. None) (\<lambda>_ _. None) demo_module (Some (Inr ?kc))) = Inr k" by blast
  have sc: "saslAlgorithm ?sc = saslSsl" and kc: "ncSASL ?kc = Some ?sc" by simp_all
  from sasl_ssl_always_encrypted [OF sc, THEN conjunct2, THEN conjunct2, rule_format, OF conjI, OF k kc] k
  show ?thesis by blast
qed

end
